(* ===== verification/Prelude.thy ===== *)
theory Prelude
  imports Complex_Main "HOL-Library.Word"
begin

text \<open>
  Shared vocabulary of the development: the machine integer types of the program, its
  exceptions as values, the decimal text functions of the C++ standard library that the
  program calls (\<open>std::to_string\<close>, \<open>std::isdigit\<close>, \<open>std::tolower\<close>, the value of a digit
  string), and the generic lemmas on lists, sums and words the components share.
\<close>

section \<open>Machine integers\<close>

text \<open>
  \<open>size_t\<close>, \<open>uint64_t\<close> and \<open>uint32_t\<close> keep their width. A C++ \<open>int\<close> that never leaves its
  range in the program is an \<open>int\<close>. Time points of the steady clock are counts of
  nanoseconds, as \<open>int\<close>.
\<close>

type_synonym u64 = "64 word"
type_synonym u32 = "32 word"
type_synonym time_point = int

text \<open>\<open>static_cast<int>\<close> of a 64-bit value.\<close>

definition to_int32 :: "int \<Rightarrow> int" where
  "to_int32 x = sint (word_of_int x :: u32)"

section \<open>Exceptions as values\<close>

text \<open>
  One constructor per exception class the program throws or catches, with the text \<open>what()\<close>
  returns. \<open>SystemError\<close> is \<open>std::system_error\<close> with its errno; \<open>LibraryError\<close> is an exception of
  a third-party library that derives from \<open>std::exception\<close> only; \<open>NonStdError\<close> is a thrown value
  that does not derive from \<open>std::exception\<close>.
\<close>

datatype exn =
    InvalidArgument string
  | RuntimeError string
  | LogicError string
  | SystemError int string
  | BadAlloc
  | LibraryError string
  | NonStdError

type_synonym 'a result = "exn + 'a"

fun what :: "exn \<Rightarrow> string" where
  "what (InvalidArgument m) = m"
| "what (RuntimeError m) = m"
| "what (LogicError m) = m"
| "what (SystemError n m) = m"
| "what BadAlloc = ''std::bad_alloc''"
| "what (LibraryError m) = m"
| "what NonStdError = []"

text \<open>
  The text of a \<open>std::system_error\<close> ends with the text of its errno, a table of the C library,
  which is the parameter \<open>strerr\<close>.
\<close>

definition system_error :: "(int \<Rightarrow> string) \<Rightarrow> int \<Rightarrow> string \<Rightarrow> exn" where
  "system_error strerr n m = SystemError n (m @ '': '' @ strerr n)"

definition bindE :: "'e + 'a \<Rightarrow> ('a \<Rightarrow> 'e + 'b) \<Rightarrow> 'e + 'b" where
  "bindE r f = (case r of Inl e \<Rightarrow> Inl e | Inr a \<Rightarrow> f a)"

lemma bindE_simps [simp]:
  "bindE (Inl e) f = Inl e"
  "bindE (Inr a) f = f a"
  by (simp_all add: bindE_def)

lemma bindE_Inr_iff: "bindE r f = Inr b \<longleftrightarrow> (\<exists>a. r = Inr a \<and> f a = Inr b)"
  by (cases r) auto

lemma bindE_Inl_iff: "bindE r f = Inl e \<longleftrightarrow> r = Inl e \<or> (\<exists>a. r = Inr a \<and> f a = Inl e)"
  by (cases r) auto

definition guardE :: "bool \<Rightarrow> 'e \<Rightarrow> 'e + unit" where
  "guardE b e = (if b then Inr () else Inl e)"

lemma guardE_simps [simp]:
  "guardE True e = Inr ()"
  "guardE False e = Inl e"
  by (simp_all add: guardE_def)

lemma guardE_Inr_iff [simp]: "guardE b e = Inr u \<longleftrightarrow> b"
  by (simp add: guardE_def)

lemma guardE_Inl_iff [simp]: "guardE b e = Inl e' \<longleftrightarrow> \<not> b \<and> e = e'"
  by (auto simp: guardE_def)

definition is_ok :: "'e + 'a \<Rightarrow> bool" where
  "is_ok r = (case r of Inl _ \<Rightarrow> False | Inr _ \<Rightarrow> True)"

lemma is_ok_simps [simp]: "\<not> is_ok (Inl e)" "is_ok (Inr a)"
  by (simp_all add: is_ok_def)

lemma is_ok_iff: "is_ok r \<longleftrightarrow> (\<exists>a. r = Inr a)"
  by (cases r) auto

lemma is_ok_bindE: "is_ok (bindE r f) \<longleftrightarrow> (\<exists>a. r = Inr a \<and> is_ok (f a))"
  by (cases r) auto

lemma is_ok_bindE_const [simp]: "is_ok (bindE r (\<lambda>_. q)) \<longleftrightarrow> is_ok r \<and> is_ok q"
  by (cases r) simp_all

lemma is_ok_unit: "is_ok (r :: 'e + unit) \<longleftrightarrow> r = Inr ()"
  by (cases r) simp_all

lemma is_ok_guardE [simp]: "is_ok (guardE b e) \<longleftrightarrow> b"
  by (simp add: guardE_def)

section \<open>Programs\<close>

text \<open>
  A member function that changes a state and may throw: it gives its result or exception and the
  state it leaves, and \<open>None\<close> when it does not return.
\<close>

type_synonym ('s, 'a) prog = "'s \<Rightarrow> ('a result \<times> 's) option"

definition returnP :: "'a \<Rightarrow> ('s, 'a) prog" where
  "returnP a = (\<lambda>s. Some (Inr a, s))"

definition throwP :: "exn \<Rightarrow> ('s, 'a) prog" where
  "throwP e = (\<lambda>s. Some (Inl e, s))"

definition bindP :: "('s, 'a) prog \<Rightarrow> ('a \<Rightarrow> ('s, 'b) prog) \<Rightarrow> ('s, 'b) prog" where
  "bindP m f = (\<lambda>s. case m s of
      None \<Rightarrow> None
    | Some (Inl e, s') \<Rightarrow> Some (Inl e, s')
    | Some (Inr a, s') \<Rightarrow> f a s')"

text \<open>\<open>try { m } catch (...) { h }\<close>.\<close>

definition catchP :: "('s, 'a) prog \<Rightarrow> (exn \<Rightarrow> ('s, 'a) prog) \<Rightarrow> ('s, 'a) prog" where
  "catchP m h = (\<lambda>s. case m s of
      None \<Rightarrow> None
    | Some (Inl e, s') \<Rightarrow> h e s'
    | Some (Inr a, s') \<Rightarrow> Some (Inr a, s'))"

definition modifyP :: "('s \<Rightarrow> 's) \<Rightarrow> ('s, unit) prog" where
  "modifyP f = (\<lambda>s. Some (Inr (), f s))"

named_theorems prog_simps "evaluation of programs"

lemma returnP_apply [prog_simps]: "returnP a s = Some (Inr a, s)"
  by (simp add: returnP_def)

lemma throwP_apply [prog_simps]: "throwP e s = Some (Inl e, s)"
  by (simp add: throwP_def)

lemma modifyP_apply [prog_simps]: "modifyP f s = Some (Inr (), f s)"
  by (simp add: modifyP_def)

lemma bindP_Inr_iff:
  "bindP m f s = Some (Inr b, s'') \<longleftrightarrow> (\<exists>a s'. m s = Some (Inr a, s') \<and> f a s' = Some (Inr b, s''))"
  by (auto simp: bindP_def split: option.splits sum.splits)

lemma bindP_Inl_iff:
  "bindP m f s = Some (Inl e, s'') \<longleftrightarrow>
     m s = Some (Inl e, s'') \<or> (\<exists>a s'. m s = Some (Inr a, s') \<and> f a s' = Some (Inl e, s''))"
  by (auto simp: bindP_def split: option.splits sum.splits)

lemma bindP_apply [prog_simps]:
  "m s = Some (Inr a, s') \<Longrightarrow> bindP m f s = f a s'"
  "m s = Some (Inl e, s') \<Longrightarrow> bindP m f s = Some (Inl e, s')"
  "m s = None \<Longrightarrow> bindP m f s = None"
  by (simp_all add: bindP_def)

lemma catchP_apply [prog_simps]:
  "m s = Some (Inr a, s') \<Longrightarrow> catchP m h s = Some (Inr a, s')"
  "m s = Some (Inl e, s') \<Longrightarrow> catchP m h s = h e s'"
  "m s = None \<Longrightarrow> catchP m h s = None"
  by (simp_all add: catchP_def)

section \<open>Text\<close>

text \<open>The text between two apostrophes, as the program's messages quote a value.\<close>

definition sq :: "string \<Rightarrow> string" where
  "sq s = CHR 0x27 # s @ [CHR 0x27]"

definition is_digit :: "char \<Rightarrow> bool" where
  "is_digit c \<longleftrightarrow> 48 \<le> (of_char c :: nat) \<and> (of_char c :: nat) \<le> 57"

definition digit_val :: "char \<Rightarrow> nat" where
  "digit_val c = of_char c - 48"

definition digit_char :: "nat \<Rightarrow> char" where
  "digit_char n = char_of (48 + n)"

text \<open>\<open>std::tolower\<close> in the C locale.\<close>

definition to_lower :: "char \<Rightarrow> char" where
  "to_lower c = (let n = (of_char c :: nat) in if 65 \<le> n \<and> n \<le> 90 then char_of (n + 32) else c)"

text \<open>\<open>std::to_string\<close> of an unsigned and of a signed value.\<close>

fun dec :: "nat \<Rightarrow> string" where
  "dec n = (if n < 10 then [digit_char n] else dec (n div 10) @ [digit_char (n mod 10)])"

declare dec.simps [simp del]

definition dec_int :: "int \<Rightarrow> string" where
  "dec_int i = (if i < 0 then CHR ''-'' # dec (nat (- i)) else dec (nat i))"

abbreviation dec64 :: "u64 \<Rightarrow> string" where
  "dec64 w \<equiv> dec (unat w)"

text \<open>The value of a string of decimal digits, most significant digit first.\<close>

definition dec_val :: "string \<Rightarrow> nat" where
  "dec_val s = foldl (\<lambda>a c. a * 10 + digit_val c) 0 s"

lemma is_digit_digit_char [simp]: "n < 10 \<Longrightarrow> is_digit (digit_char n)"
  by (simp add: is_digit_def digit_char_def of_char_of take_bit_eq_mod)

lemma digit_val_digit_char [simp]: "n < 10 \<Longrightarrow> digit_val (digit_char n) = n"
  by (simp add: digit_val_def digit_char_def of_char_of take_bit_eq_mod)

lemma digit_char_inj: "m < 10 \<Longrightarrow> n < 10 \<Longrightarrow> digit_char m = digit_char n \<Longrightarrow> m = n"
  by (metis digit_val_digit_char)

lemma dec_not_Nil [simp]: "dec n \<noteq> []"
  by (subst dec.simps) simp

lemma dec_0 [simp]: "dec 0 = ''0''"
  by (simp add: dec.simps [of 0] digit_char_def char_of_def bit_iff_odd)

lemma dec_digits: "c \<in> set (dec n) \<Longrightarrow> is_digit c"
proof (induction n rule: dec.induct)
  case (1 n)
  show ?case
  proof (cases "n < 10")
    case True
    then show ?thesis using "1.prems" by (simp add: dec.simps [of n])
  next
    case False
    then show ?thesis using "1.prems" "1.IH" by (auto simp: dec.simps [of n])
  qed
qed

lemma dec_val_Nil [simp]: "dec_val [] = 0"
  by (simp add: dec_val_def)

lemma dec_val_snoc [simp]: "dec_val (s @ [c]) = dec_val s * 10 + digit_val c"
  by (simp add: dec_val_def)

lemma dec_val_dec [simp]: "dec_val (dec n) = n"
proof (induction n rule: dec.induct)
  case (1 n)
  show ?case
  proof (cases "n < 10")
    case True
    then show ?thesis using dec_val_snoc [of "[]" "digit_char n"] by (simp add: dec.simps [of n])
  next
    case False
    then show ?thesis using "1.IH" by (simp add: dec.simps [of n])
  qed
qed

lemma dec_inj: "dec m = dec n \<Longrightarrow> m = n"
  by (metis dec_val_dec)

lemma hd_dec_digit [simp]: "is_digit (hd (dec n))"
  using dec_digits [of "hd (dec n)" n] by simp

section \<open>Words\<close>

lemma unat_lt_2p64 [simp]: "unat (w :: u64) < 2 ^ 64"
  by (rule order_less_le_trans, rule unsigned_less) simp

lemma unat_lt_2p32: "unat (w :: u32) < 2 ^ 32"
  by (rule order_less_le_trans, rule unsigned_less) simp

lemma unat_ucast_32_64: "unat (ucast (w :: u32) :: u64) = unat w"
  using unat_lt_2p32 [of w] by (simp add: unsigned_ucast_eq take_bit_nat_eq_self)

lemma unat_lt_64: "unat (w :: u64) < 18446744073709551616"
  by (rule order_less_le_trans, rule unsigned_less) simp

lemma unat_le_64: "unat (w :: u64) \<le> 18446744073709551615"
  using unat_lt_64 [of w] by simp

lemma unat_max64: "unat (- 1 :: u64) = 18446744073709551615"
  by (simp add: unsigned_minus_1_eq_mask mask_eq_exp_minus_1)

lemma unat_of_nat64: "n < 2 ^ 64 \<Longrightarrow> unat (of_nat n :: u64) = n"
  by (simp add: unat_of_nat take_bit_eq_mod)

lemma unat_mult64: "unat a * unat b < 2 ^ 64 \<Longrightarrow> unat (a * b :: u64) = unat a * unat b"
  by (simp add: unat_word_ariths)

lemma unat_add64: "unat a + unat b < 2 ^ 64 \<Longrightarrow> unat (a + b :: u64) = unat a + unat b"
  by (simp add: unat_word_ariths)

lemma unat_sub64: "b \<le> a \<Longrightarrow> unat (a - b :: u64) = unat a - unat b"
  by (simp add: unat_sub)

lemma unat_div64: "unat (a div b :: u64) = unat a div unat b"
  by (rule unat_div)

lemma unat_mod64: "unat (a mod b :: u64) = unat a mod unat b"
  by (rule unat_mod)

lemma unat_0_iff64: "(w :: u64) = 0 \<longleftrightarrow> unat w = 0"
  by (simp add: unat_eq_zero)

lemmas word64_arith = unat_mult64 unat_add64 unat_sub64 unat_div64 unat_mod64

lemma sint_small: "unat (w :: u64) < 2 ^ 63 \<Longrightarrow> sint w = int (unat w)"
proof -
  assume "unat w < 2 ^ 63"
  then have "int (unat w) < 2 ^ 63" by (metis of_nat_less_iff of_nat_numeral of_nat_power)
  then have "uint w < 2 ^ 63" by simp
  then have "signed_take_bit 63 (uint w) = uint w" 
    using order_trans [of "- (2 ^ 63)" 0 "uint w"] by (intro signed_take_bit_int_eq_self) simp_all
  then show ?thesis by (simp add: sint_uint)
qed

lemma sint_word_of_int64: "- (2 ^ 63) \<le> i \<Longrightarrow> i < 2 ^ 63 \<Longrightarrow> sint (word_of_int i :: u64) = i"
  by (simp add: signed_of_int signed_take_bit_int_eq_self)

section \<open>Powers of two\<close>

unbundle bit_operations_syntax

definition is_pow2 :: "u64 \<Rightarrow> bool" where
  "is_pow2 w \<longleftrightarrow> (\<exists>k < 64. unat w = 2 ^ k)"

lemma nat_and_pred_pow2:
  "0 < (n::nat) \<Longrightarrow> n AND (n - 1) = 0 \<longleftrightarrow> (\<exists>k. n = 2 ^ k)"
proof (induction n rule: less_induct)
  case (less n)
  show ?case
  proof (cases "even n")
    case True
    then obtain m where m: "n = 2 * m" by blast
    with less.prems have m0: "0 < m" "m < n" by auto
    have "n - 1 = 2 * (m - 1) + 1" using m m0 by simp
    then have "n AND (n - 1) = 2 * (m AND (m - 1))"
      using m by (simp add: and_nat_rec [of "2 * m"])
    moreover have "(\<exists>k. n = 2 ^ k) \<longleftrightarrow> (\<exists>k. m = 2 ^ k)"
    proof
      assume "\<exists>k. n = 2 ^ k"
      then obtain k where "n = 2 ^ k" by blast
      with m have "k \<noteq> 0" by (metis dvd_triv_left odd_one power_0)
      with \<open>n = 2 ^ k\<close> m show "\<exists>k. m = 2 ^ k"
        by (metis mult_cancel1 not0_implies_Suc power_Suc zero_neq_numeral)
    next
      assume "\<exists>k. m = 2 ^ k"
      with m show "\<exists>k. n = 2 ^ k" by (metis power_Suc)
    qed
    ultimately show ?thesis using less.IH [OF m0(2,1)] by simp
  next
    case False
    then obtain m where m: "n = 2 * m + 1" by (blast elim: oddE)
    then have "n AND (n - 1) = 2 * m"
      by (simp add: and_nat_rec [of "Suc (2 * m)"])
    moreover have "(\<exists>k. n = 2 ^ k) \<longleftrightarrow> m = 0"
    proof
      assume "\<exists>k. n = 2 ^ k"
      then obtain k where k: "n = 2 ^ k" by blast
      with False have "k = 0" by (metis even_power dvd_refl gr0I)
      with k m show "m = 0" by simp
    next
      assume "m = 0"
      with m show "\<exists>k. n = 2 ^ k" by (metis add_0 mult_0_right power_0)
    qed
    ultimately show ?thesis by simp
  qed
qed

text \<open>The bit test the program uses is the power-of-two test.\<close>

lemma is_pow2_iff_bits: "is_pow2 w \<longleftrightarrow> w \<noteq> 0 \<and> w AND (w - 1) = 0"
proof (cases "w = 0")
  case True
  then show ?thesis by (simp add: is_pow2_def)
next
  case False
  then have pos: "0 < unat w" by (simp add: unat_gt_0)
  have "unat (w - 1) = unat w - 1" using False by (simp add: unat_minus_one)
  then have "w AND (w - 1) = 0 \<longleftrightarrow> unat w AND (unat w - 1) = 0"
    by (simp add: unat_0_iff64 unsigned_and_eq)
  also have "\<dots> \<longleftrightarrow> (\<exists>k. unat w = 2 ^ k)" by (rule nat_and_pred_pow2 [OF pos])
  also have "\<dots> \<longleftrightarrow> is_pow2 w"
    unfolding is_pow2_def by (metis unat_lt_2p64 nat_power_less_imp_less pos2)
  finally show ?thesis using False by blast
qed

end
