(* ===== verification/Common_Types.thy ===== *)
theory Common_Types
  imports Prelude
begin

text \<open>
  The types every module shares (\<open>src/common/types.h\<close>, \<open>src/common/cli_options.h\<close>) and the
  engine classification of \<open>src/common/engine_traits.h\<close>. A buffer pointer is its address; a
  null pointer is address 0.
\<close>

section \<open>Enumerations\<close>

datatype io_direction = Dir_kRead | Dir_kWrite

datatype access_pattern = kSequential | kRandom

datatype rw_mode =
    Mode_kRead
  | Mode_kWrite
  | Mode_kRandRead
  | Mode_kRandWrite
  | Mode_kReadWrite
  | Mode_kRandRW

section \<open>Requests and completions\<close>

record io_request =
  rq_offset :: int
  rq_buffer :: u64
  rq_length :: u64
  rq_direction :: io_direction
  rq_submit_time :: time_point
  rq_id :: u64

record io_completion =
  cp_id :: u64
  cp_bytes :: int
  cp_direction :: io_direction
  cp_success :: bool
  cp_error :: int
  cp_submit_time :: time_point

section \<open>Command line options\<close>

record cli_options =
  opt_config_path :: string
  opt_runtime_seconds :: int
  opt_output_dir :: string
  opt_ui_backend :: string
  opt_direct_override :: "bool option"
  opt_engine_override :: "string option"
  opt_verbose :: bool
  opt_keep_files :: bool

section \<open>Engine classification\<close>

definition is_synchronous_engine :: "string \<Rightarrow> bool" where
  "is_synchronous_engine engine_name \<longleftrightarrow> engine_name \<in> {''sync'', ''psync''}"

section \<open>errno values the program names\<close>

abbreviation EINTR :: int where "EINTR \<equiv> 4"
abbreviation EIO :: int where "EIO \<equiv> 5"
abbreviation EAGAIN :: int where "EAGAIN \<equiv> 11"
abbreviation EINVAL :: int where "EINVAL \<equiv> 22"
abbreviation ENOSYS :: int where "ENOSYS \<equiv> 38"
abbreviation EOPNOTSUPP :: int where "EOPNOTSUPP \<equiv> 95"

end
