(* ===== verification/Job_Config.thy ===== *)
theory Job_Config
  imports Common_Types
begin

text \<open>
  \<open>JobConfig\<close> (\<open>src/config/job_config.h\<close>, \<open>src/config/job_config.cpp\<close>) and the engine
  names of \<open>EngineFactory\<close> (\<open>src/engine/engine_factory.cpp\<close>). A path is its text.
\<close>

section \<open>The record\<close>

record job_config =
  jc_name :: string
  jc_engine :: string
  jc_rw_mode :: rw_mode
  jc_access_pattern :: access_pattern
  jc_block_size :: u64
  jc_file_size :: u64
  jc_iodepth :: int
  jc_direct :: bool
  jc_rwmixread :: int
  jc_filename :: string
  jc_alignment :: u64

definition default_job :: job_config where
  "default_job =
     \<lparr>jc_name = [], jc_engine = [], jc_rw_mode = Mode_kRead, jc_access_pattern = kSequential,
      jc_block_size = 0, jc_file_size = 0, jc_iodepth = 1, jc_direct = True, jc_rwmixread = 50,
      jc_filename = [], jc_alignment = 4096\<rparr>"

section \<open>Workload modes\<close>

definition rw_mode_map :: "(string \<times> rw_mode) list" where
  "rw_mode_map =
     [(''read'', Mode_kRead), (''write'', Mode_kWrite),
      (''randread'', Mode_kRandRead), (''randwrite'', Mode_kRandWrite),
      (''readwrite'', Mode_kReadWrite), (''randrw'', Mode_kRandRW)]"

definition parse_rw_mode :: "string \<Rightarrow> rw_mode result" where
  "parse_rw_mode rw_str =
     (case map_of rw_mode_map rw_str of
        None \<Rightarrow> Inl (InvalidArgument (''unknown rw mode: '' @ sq rw_str))
      | Some m \<Rightarrow> Inr m)"

fun derive_access_pattern :: "rw_mode \<Rightarrow> access_pattern" where
  "derive_access_pattern Mode_kRead = kSequential"
| "derive_access_pattern Mode_kWrite = kSequential"
| "derive_access_pattern Mode_kReadWrite = kSequential"
| "derive_access_pattern Mode_kRandRead = kRandom"
| "derive_access_pattern Mode_kRandWrite = kRandom"
| "derive_access_pattern Mode_kRandRW = kRandom"

fun rw_mode_to_string :: "rw_mode \<Rightarrow> string" where
  "rw_mode_to_string Mode_kRead = ''read''"
| "rw_mode_to_string Mode_kWrite = ''write''"
| "rw_mode_to_string Mode_kRandRead = ''randread''"
| "rw_mode_to_string Mode_kRandWrite = ''randwrite''"
| "rw_mode_to_string Mode_kReadWrite = ''readwrite''"
| "rw_mode_to_string Mode_kRandRW = ''randrw''"

fun access_pattern_to_string :: "access_pattern \<Rightarrow> string" where
  "access_pattern_to_string kSequential = ''sequential''"
| "access_pattern_to_string kRandom = ''random''"

definition effective_iodepth :: "job_config \<Rightarrow> int" where
  "effective_iodepth c = (if is_synchronous_engine (jc_engine c) then 1 else jc_iodepth c)"

section \<open>Engine names\<close>

definition known_engines :: "string list" where
  "known_engines = [''psync'', ''sync'', ''libaio'', ''io_uring'']"

definition is_known_engine :: "string \<Rightarrow> bool" where
  "is_known_engine engine_name \<longleftrightarrow> engine_name \<in> set known_engines"

datatype engine_kind = PsyncEngine | IoUringEngine | LibaioEngine | SyncEngine

definition create_engine :: "string \<Rightarrow> engine_kind result" where
  "create_engine engine_name =
     (if \<not> is_known_engine engine_name then
        Inl (RuntimeError (''unknown engine '' @ sq engine_name))
      else if engine_name = ''psync'' then Inr PsyncEngine
      else if engine_name = ''io_uring'' then Inr IoUringEngine
      else if engine_name = ''libaio'' then Inr LibaioEngine
      else if engine_name = ''sync'' then Inr SyncEngine
      else Inl (RuntimeError (''engine '' @ sq engine_name @ '' not yet implemented'')))"

section \<open>Lemmas\<close>

lemma parse_rw_mode_Inr_iff: "parse_rw_mode s = Inr m \<longleftrightarrow> s = rw_mode_to_string m"
  by (cases m) (auto simp: parse_rw_mode_def rw_mode_map_def split: if_splits)

lemma parse_rw_mode_Inl: "parse_rw_mode s = Inl e \<Longrightarrow> \<exists>m. e = InvalidArgument m"
  by (auto simp: parse_rw_mode_def split: option.splits)

lemma rw_mode_to_string_inj: "rw_mode_to_string a = rw_mode_to_string b \<Longrightarrow> a = b"
  by (metis parse_rw_mode_Inr_iff sum.inject(2))

lemma rw_mode_eq_iff: "rw_mode_to_string a = rw_mode_to_string b \<longleftrightarrow> a = b"
  using rw_mode_to_string_inj by blast

lemma access_pattern_random_prefix:
  "derive_access_pattern m = kRandom \<longleftrightarrow> take 4 (rw_mode_to_string m) = ''rand''"
  by (cases m) simp_all

lemma create_engine_total: "is_ok (create_engine e) \<longleftrightarrow> is_known_engine e"
  by (auto simp: create_engine_def is_known_engine_def known_engines_def)

lemma synchronous_engine_kind:
  "create_engine e = Inr k \<Longrightarrow> is_synchronous_engine e \<longleftrightarrow> k \<in> {PsyncEngine, SyncEngine}"
  by (auto simp: create_engine_def is_synchronous_engine_def split: if_splits)

lemma effective_iodepth_pos: "1 \<le> jc_iodepth c \<Longrightarrow> 1 \<le> effective_iodepth c"
  by (simp add: effective_iodepth_def)

end
