(* ===== verification/Config_Validator.thy ===== *)
theory Config_Validator
  imports Job_Config
begin

text \<open>
  \<open>ConfigValidator\<close> (\<open>src/config/config_validator.cpp\<close>): each rule is a check that returns or
  throws, run in the code's order. The specification is the predicate \<open>valid_job\<close>, over the
  numbers the words stand for.
\<close>

unbundle bit_operations_syntax

section \<open>The rules\<close>

definition job_msg :: "job_config \<Rightarrow> string \<Rightarrow> exn" where
  "job_msg config m = RuntimeError (''job '' @ sq (jc_name config) @ '': '' @ m)"

definition validate_alignment :: "job_config \<Rightarrow> unit result" where
  "validate_alignment config =
     (if jc_alignment config = 0 \<or> (jc_alignment config AND (jc_alignment config - 1)) \<noteq> 0 then
        Inl (job_msg config (''alignment ('' @ dec64 (jc_alignment config) @
          '') must be a positive power of 2''))
      else Inr ())"

definition validate_block_size :: "job_config \<Rightarrow> unit result" where
  "validate_block_size config =
     (if jc_block_size config = 0 then
        Inl (job_msg config ''block_size must be greater than 0'')
      else if jc_block_size config mod jc_alignment config \<noteq> 0 then
        Inl (job_msg config (''block_size ('' @ dec64 (jc_block_size config) @
          '') must be a positive multiple of alignment ('' @ dec64 (jc_alignment config) @ '')''))
      else Inr ())"

definition validate_file_size :: "job_config \<Rightarrow> unit result" where
  "validate_file_size config =
     (if jc_file_size config < jc_block_size config then
        Inl (job_msg config (''file_size ('' @ dec64 (jc_file_size config) @
          '') must be >= block_size ('' @ dec64 (jc_block_size config) @ '')''))
      else if jc_file_size config mod jc_alignment config \<noteq> 0 then
        Inl (job_msg config (''file_size ('' @ dec64 (jc_file_size config) @
          '') must be a multiple of alignment ('' @ dec64 (jc_alignment config) @ '')''))
      else Inr ())"

definition validate_engine :: "job_config \<Rightarrow> unit result" where
  "validate_engine config =
     (if \<not> is_known_engine (jc_engine config) then
        Inl (job_msg config (''unknown engine '' @ sq (jc_engine config)))
      else Inr ())"

text \<open>Every value of the enumeration passes; the throw after the switch is for other integers.\<close>

definition validate_rw_mode :: "job_config \<Rightarrow> unit result" where
  "validate_rw_mode config =
     (case jc_rw_mode config of
        Mode_kRead \<Rightarrow> Inr () | Mode_kWrite \<Rightarrow> Inr () | Mode_kRandRead \<Rightarrow> Inr ()
      | Mode_kRandWrite \<Rightarrow> Inr () | Mode_kReadWrite \<Rightarrow> Inr () | Mode_kRandRW \<Rightarrow> Inr ())"

definition validate_rwmixread :: "job_config \<Rightarrow> unit result" where
  "validate_rwmixread config =
     (if jc_rwmixread config < 0 \<or> jc_rwmixread config > 100 then
        Inl (job_msg config (''rwmixread ('' @ dec_int (jc_rwmixread config) @
          '') must be in range 0-100''))
      else Inr ())"

definition validate_iodepth :: "job_config \<Rightarrow> unit result" where
  "validate_iodepth config =
     (if jc_iodepth config < 1 then
        Inl (job_msg config (''iodepth ('' @ dec_int (jc_iodepth config) @ '') must be >= 1''))
      else Inr ())"

definition validate_job :: "job_config \<Rightarrow> unit result" where
  "validate_job config =
     (if jc_name config = [] then Inl (RuntimeError ''job name must not be empty'')
      else bindE (validate_alignment config) (\<lambda>_.
           bindE (validate_block_size config) (\<lambda>_.
           bindE (validate_file_size config) (\<lambda>_.
           bindE (validate_engine config) (\<lambda>_.
           bindE (validate_rw_mode config) (\<lambda>_.
           bindE (validate_rwmixread config) (\<lambda>_.
           validate_iodepth config)))))))"

fun validate_each :: "job_config list \<Rightarrow> unit result" where
  "validate_each [] = Inr ()"
| "validate_each (c # cs) = bindE (validate_job c) (\<lambda>_. validate_each cs)"

text \<open>The loop over the names with the set of names seen so far.\<close>

fun validate_unique_names :: "string set \<Rightarrow> job_config list \<Rightarrow> unit result" where
  "validate_unique_names seen [] = Inr ()"
| "validate_unique_names seen (c # cs) =
     (if jc_name c \<in> seen then Inl (RuntimeError (''duplicate job name: '' @ sq (jc_name c)))
      else validate_unique_names (insert (jc_name c) seen) cs)"

definition validate_all :: "job_config list \<Rightarrow> unit result" where
  "validate_all configs =
     (if configs = [] then Inl (RuntimeError ''job list must not be empty'')
      else bindE (validate_each configs) (\<lambda>_. validate_unique_names {} configs))"

section \<open>Specification\<close>

definition valid_job :: "job_config \<Rightarrow> bool" where
  "valid_job c \<longleftrightarrow>
     jc_name c \<noteq> [] \<and>
     is_pow2 (jc_alignment c) \<and>
     0 < unat (jc_block_size c) \<and>
     unat (jc_alignment c) dvd unat (jc_block_size c) \<and>
     unat (jc_block_size c) \<le> unat (jc_file_size c) \<and>
     unat (jc_alignment c) dvd unat (jc_file_size c) \<and>
     jc_engine c \<in> set known_engines \<and>
     jc_rwmixread c \<in> {0..100} \<and>
     1 \<le> jc_iodepth c"

section \<open>Lemmas\<close>

lemma validate_alignment_ok: "is_ok (validate_alignment c) \<longleftrightarrow> is_pow2 (jc_alignment c)"
  by (simp add: validate_alignment_def is_pow2_iff_bits)

lemma validate_rw_mode_ok [simp]: "validate_rw_mode c = Inr ()"
  by (simp add: validate_rw_mode_def split: rw_mode.split)

lemma mod64_eq_0_iff: "(a :: u64) mod b = 0 \<longleftrightarrow> unat b dvd unat a"
  by (simp add: unat_0_iff64 unat_mod64 dvd_eq_mod_eq_0)

lemmas validate_rule_defs =
  validate_block_size_def validate_file_size_def validate_engine_def
  validate_rwmixread_def validate_iodepth_def

lemma validate_job_ok: "is_ok (validate_job c) \<longleftrightarrow> valid_job c"
proof -
  have "is_ok (validate_job c) \<longleftrightarrow>
      jc_name c \<noteq> [] \<and> is_ok (validate_alignment c) \<and> is_ok (validate_block_size c) \<and>
      is_ok (validate_file_size c) \<and> is_ok (validate_engine c) \<and> is_ok (validate_rwmixread c) \<and>
      is_ok (validate_iodepth c)"
    by (simp add: validate_job_def)
  moreover have "is_ok (validate_block_size c) \<longleftrightarrow>
      0 < unat (jc_block_size c) \<and> unat (jc_alignment c) dvd unat (jc_block_size c)"
    by (simp add: validate_block_size_def mod64_eq_0_iff unat_gt_0)
  moreover have "is_ok (validate_file_size c) \<longleftrightarrow>
      unat (jc_block_size c) \<le> unat (jc_file_size c) \<and> unat (jc_alignment c) dvd unat (jc_file_size c)"
    by (simp add: validate_file_size_def mod64_eq_0_iff word_less_nat_alt not_less)
  moreover have "is_ok (validate_engine c) \<longleftrightarrow> jc_engine c \<in> set known_engines"
    by (simp add: validate_engine_def is_known_engine_def)
  moreover have "is_ok (validate_rwmixread c) \<longleftrightarrow> jc_rwmixread c \<in> {0..100}"
    by (auto simp: validate_rwmixread_def)
  moreover have "is_ok (validate_iodepth c) \<longleftrightarrow> 1 \<le> jc_iodepth c"
    by (simp add: validate_iodepth_def)
  ultimately show ?thesis
    by (auto simp: valid_job_def validate_alignment_ok)
qed

lemma validate_each_ok: "is_ok (validate_each cs) \<longleftrightarrow> (\<forall>c \<in> set cs. valid_job c)"
  by (induction cs) (simp_all add: validate_job_ok)

lemma validate_unique_names_ok:
  "is_ok (validate_unique_names seen cs) \<longleftrightarrow>
     distinct (map jc_name cs) \<and> set (map jc_name cs) \<inter> seen = {}"
  by (induction cs arbitrary: seen) auto

text \<open>Every failure of a validation is a \<open>std::runtime_error\<close>.\<close>

definition runtime_only :: "'a result \<Rightarrow> bool" where
  "runtime_only r \<longleftrightarrow> (\<forall>e. r = Inl e \<longrightarrow> (\<exists>m. e = RuntimeError m))"

lemma runtime_only_simps [simp]:
  "runtime_only (Inr a)" "runtime_only (Inl (RuntimeError m))" "runtime_only (Inl (job_msg c m))"
  by (simp_all add: runtime_only_def job_msg_def)

lemma runtime_only_bindE [intro]:
  "runtime_only r \<Longrightarrow> (\<And>a. runtime_only (f a)) \<Longrightarrow> runtime_only (bindE r f)"
  by (cases r) (auto simp: runtime_only_def)

lemma runtime_only_bindE_const [simp]:
  "runtime_only r \<Longrightarrow> runtime_only q \<Longrightarrow> runtime_only (bindE r (\<lambda>_. q))"
  by (rule runtime_only_bindE)

lemma runtime_only_rules [simp]:
  "runtime_only (validate_alignment c)" "runtime_only (validate_block_size c)"
  "runtime_only (validate_file_size c)" "runtime_only (validate_engine c)"
  "runtime_only (validate_rwmixread c)" "runtime_only (validate_iodepth c)"
  by (simp_all add: validate_alignment_def validate_rule_defs)

lemma runtime_only_validate_job [simp]: "runtime_only (validate_job c)"
  by (simp add: validate_job_def)

lemma runtime_only_validate_each [simp]: "runtime_only (validate_each cs)"
  by (induction cs) simp_all

lemma runtime_only_validate_unique_names [simp]: "runtime_only (validate_unique_names seen cs)"
  by (induction cs arbitrary: seen) simp_all

lemma validate_all_ok_iff:
  "validate_all cs = Inr () \<longleftrightarrow> cs \<noteq> [] \<and> list_all valid_job cs \<and> distinct (map jc_name cs)"
proof -
  have "is_ok (validate_all cs) \<longleftrightarrow>
      cs \<noteq> [] \<and> (\<forall>c \<in> set cs. valid_job c) \<and> distinct (map jc_name cs)"
    by (simp add: validate_all_def validate_unique_names_ok validate_each_ok)
  then show ?thesis by (simp add: is_ok_unit list_all_iff)
qed

lemma runtime_only_validate_all: "runtime_only (validate_all cs)"
  by (simp add: validate_all_def)

section \<open>Properties\<close>

text \<open>
  C22. \<open>ValidateAll\<close> accepts a job list exactly when it is not empty, every job is valid over
  the numbers its fields stand for (alignment a power of two, block and file size nonzero
  multiples of it, block at most the file, a known engine, a percentage, a positive depth) and
  the names are distinct; every refusal is a \<open>std::runtime_error\<close>.
\<close>

theorem validate_all_correct:
  "(validate_all cs = Inr () \<longleftrightarrow> cs \<noteq> [] \<and> list_all valid_job cs \<and> distinct (map jc_name cs)) \<and>
   runtime_only (validate_all cs)"
  using validate_all_ok_iff runtime_only_validate_all by blast

end
