(* ===== verification/Size_Parser.thy ===== *)
theory Size_Parser
  imports Prelude
begin

text \<open>
  \<open>SizeParser\<close> (\<open>src/config/size_parser.cpp\<close>): byte counts such as \<open>4k\<close> or \<open>1G\<close> from text
  and back. Arithmetic is on 64-bit words; the overflow check is the code's division test.
\<close>

section \<open>The operations\<close>

datatype allowed_suffixes = kKM | kKMG

definition kKilo :: u64 where "kKilo = 1024"
definition kMega :: u64 where "kMega = 1024 * 1024"
definition kGiga :: u64 where "kGiga = 1024 * 1024 * 1024"

text \<open>The loop that finds where the digits end: the position of the first other character.\<close>

primrec digits_end :: "string \<Rightarrow> nat" where
  "digits_end [] = 0"
| "digits_end (c # cs) = (if is_digit c then Suc (digits_end cs) else 0)"

text \<open>\<open>std::stoull\<close> of a nonempty string of digits; \<open>None\<close> is \<open>std::out_of_range\<close>.\<close>

definition stoull :: "string \<Rightarrow> u64 option" where
  "stoull ds = (if dec_val ds < 2 ^ 64 then Some (of_nat (dec_val ds)) else None)"

text \<open>The switch on the suffix character.\<close>

definition suffix_multiplier :: "string \<Rightarrow> char \<Rightarrow> allowed_suffixes \<Rightarrow> u64 result" where
  "suffix_multiplier size_str suffix allowed =
     (if suffix = CHR ''k'' \<or> suffix = CHR ''K'' then Inr kKilo
      else if suffix = CHR ''m'' \<or> suffix = CHR ''M'' then Inr kMega
      else if suffix = CHR ''g'' \<or> suffix = CHR ''G'' then
        (if allowed = kKM then
           Inl (InvalidArgument (''suffix '' @ sq ''g'' @ '' not allowed for this field: '' @ sq size_str))
         else Inr kGiga)
      else Inl (InvalidArgument (''unknown size suffix '' @ sq [suffix] @ '' in: '' @ sq size_str)))"

definition size_parse :: "string \<Rightarrow> allowed_suffixes \<Rightarrow> u64 result" where
  "size_parse size_str allowed =
     (if size_str = [] then Inl (InvalidArgument ''size string is empty'')
      else if \<not> is_digit (hd size_str) then
        Inl (InvalidArgument (''size string must start with a digit: '' @ sq size_str))
      else let pos = digits_end size_str in
        case stoull (take pos size_str) of
          None \<Rightarrow> Inl (InvalidArgument (''numeric value out of range: '' @ sq size_str))
        | Some value \<Rightarrow>
            if pos = length size_str then Inr value
            else if pos + 1 \<noteq> length size_str then
              Inl (InvalidArgument (''unexpected characters after suffix: '' @ sq size_str))
            else bindE (suffix_multiplier size_str (size_str ! pos) allowed) (\<lambda>multiplier.
              if value > (- 1) div multiplier then
                Inl (InvalidArgument (''size value overflows: '' @ sq size_str))
              else Inr (value * multiplier)))"

definition size_format :: "u64 \<Rightarrow> string" where
  "size_format bytes =
     (if bytes = 0 then ''0''
      else if bytes mod kGiga = 0 then dec64 (bytes div kGiga) @ ''G''
      else if bytes mod kMega = 0 then dec64 (bytes div kMega) @ ''M''
      else if bytes mod kKilo = 0 then dec64 (bytes div kKilo) @ ''K''
      else dec64 bytes)"

section \<open>What a size string denotes\<close>

text \<open>
  The abstract grammar: a nonempty run of decimal digits, then nothing or one suffix letter.
  \<open>size_denotes allowed s n\<close> says that \<open>s\<close> is such a text and its value, over the unbounded
  naturals, is \<open>n\<close>.
\<close>

definition suffix_factor :: "allowed_suffixes \<Rightarrow> string \<Rightarrow> nat option" where
  "suffix_factor allowed suf =
     (if suf = [] then Some 1
      else if suf \<in> {''k'', ''K''} then Some (2 ^ 10)
      else if suf \<in> {''m'', ''M''} then Some (2 ^ 20)
      else if suf \<in> {''g'', ''G''} \<and> allowed = kKMG then Some (2 ^ 30)
      else None)"

definition size_denotes :: "allowed_suffixes \<Rightarrow> string \<Rightarrow> nat \<Rightarrow> bool" where
  "size_denotes allowed s n \<longleftrightarrow>
     (\<exists>ds suf f. s = ds @ suf \<and> ds \<noteq> [] \<and> (\<forall>c \<in> set ds. is_digit c) \<and>
        suffix_factor allowed suf = Some f \<and> n = dec_val ds * f)"

section \<open>Lemmas\<close>

lemma digits_end_takeWhile: "digits_end s = length (takeWhile is_digit s)"
  by (induction s) auto

lemma take_digits_end: "take (digits_end s) s = takeWhile is_digit s"
  by (metis digits_end_takeWhile takeWhile_eq_take)

lemma digits_end_append:
  assumes "\<forall>c \<in> set ds. is_digit c" "suf = [] \<or> \<not> is_digit (hd suf)"
  shows "digits_end (ds @ suf) = length ds"
proof -
  have "takeWhile is_digit suf = []"
    using assms(2) by (cases suf) auto
  then show ?thesis
    using assms(1) by (simp add: digits_end_takeWhile takeWhile_append2)
qed

lemma unat_kKilo [simp]: "unat kKilo = 2 ^ 10"
  and unat_kMega [simp]: "unat kMega = 2 ^ 20"
  and unat_kGiga [simp]: "unat kGiga = 2 ^ 30"
  by (simp_all add: kKilo_def kMega_def kGiga_def)

text \<open>The division test is exactly the overflow of the product.\<close>

lemma div_max_overflow:
  fixes v m :: u64
  assumes "m \<noteq> 0"
  shows "v > (- 1) div m \<longleftrightarrow> 2 ^ 64 \<le> unat v * unat m"
proof -
  have m: "0 < unat m" using assms by (simp add: unat_gt_0)
  have "v > (- 1) div m \<longleftrightarrow> (2 ^ 64 - 1) div unat m < unat v"
    by (simp add: word_less_nat_alt unat_div64 unat_max64)
  also have "\<dots> \<longleftrightarrow> 2 ^ 64 - 1 < unat v * unat m"
    using m by (simp add: div_less_iff_less_mult)
  finally show ?thesis by (simp add: less_eq_Suc_le)
qed

lemma suffix_multiplier_factor:
  "suffix_multiplier s c allowed = Inr m \<longleftrightarrow>
     (\<exists>f. suffix_factor allowed [c] = Some f \<and> m = of_nat f)"
  by (cases allowed) (simp_all add: suffix_multiplier_def suffix_factor_def kKilo_def kMega_def kGiga_def)

lemma suffix_letters_not_digits [simp]:
  "\<not> is_digit (CHR ''k'')" "\<not> is_digit (CHR ''K'')" "\<not> is_digit (CHR ''m'')"
  "\<not> is_digit (CHR ''M'')" "\<not> is_digit (CHR ''g'')" "\<not> is_digit (CHR ''G'')"
  by (simp_all add: is_digit_def)

lemma suffix_factor_not_digit:
  assumes "suffix_factor allowed suf = Some f" "suf \<noteq> []"
  shows "\<exists>c. suf = [c] \<and> \<not> is_digit c"
proof -
  have "suf \<in> {''k'', ''K'', ''m'', ''M'', ''g'', ''G''}"
    using assms unfolding suffix_factor_def by (metis insert_iff option.discI)
  then show ?thesis by force
qed

lemma suffix_factor_bound: "suffix_factor allowed suf = Some f \<Longrightarrow> 0 < f \<and> f \<le> 2 ^ 30"
  by (auto simp: suffix_factor_def split: if_splits)

text \<open>A string splits in one way into digits and a suffix.\<close>

lemma size_split:
  assumes "s = ds @ suf" "\<forall>c \<in> set ds. is_digit c" "suffix_factor allowed suf = Some f"
  shows "takeWhile is_digit s = ds \<and> digits_end s = length ds"
proof -
  have "suf = [] \<or> \<not> is_digit (hd suf)"
    using suffix_factor_not_digit [OF assms(3)] by force
  then have "takeWhile is_digit suf = []" by (cases suf) auto
  then show ?thesis
    using assms(1,2) by (simp add: takeWhile_append2 digits_end_takeWhile)
qed

text \<open>The parser on a text of the grammar: the value if it fits, an error otherwise.\<close>

lemma size_parse_denotes:
  assumes "s = ds @ suf" "ds \<noteq> []" "\<forall>c \<in> set ds. is_digit c"
    and f: "suffix_factor allowed suf = Some f"
  shows "if dec_val ds * f < 2 ^ 64 then size_parse s allowed = Inr (of_nat (dec_val ds * f))
         else \<exists>m. size_parse s allowed = Inl (InvalidArgument m)"
proof -
  have de: "digits_end s = length ds" and tk: "take (length ds) s = ds"
    using size_split [OF assms(1,3) f] assms(1) by simp_all
  have hd: "s \<noteq> []" "is_digit (hd s)" using assms(1-3) by (cases ds; simp)+
  have f0: "0 < f" using suffix_factor_bound [OF f] by simp
  show ?thesis
  proof (cases "dec_val ds < 2 ^ 64")
    case False
    have "dec_val ds \<le> dec_val ds * f" using f0 by simp
    with False have "\<not> dec_val ds * f < 2 ^ 64" by (meson order_le_less_trans)
    then show ?thesis using hd False by (simp add: size_parse_def de tk stoull_def Let_def)
  next
    case True
    define v :: u64 where "v = of_nat (dec_val ds)"
    have uv: "unat v = dec_val ds" using True by (simp add: v_def unat_of_nat64)
    show ?thesis
    proof (cases suf)
      case Nil
      then have "f = 1" "length s = length ds"
        using f assms(1) by (simp_all add: suffix_factor_def)
      then show ?thesis
        using hd True by (simp add: size_parse_def de tk stoull_def Let_def)
    next
      case (Cons c rest)
      with suffix_factor_not_digit [OF f] have suf: "suf = [c]" by auto
      define m :: u64 where "m = of_nat f"
      have um: "unat m = f"
        unfolding m_def by (rule unat_of_nat64) (use suffix_factor_bound [OF f] in simp)
      have "suffix_multiplier s c allowed = Inr m"
        using f suf by (simp add: suffix_multiplier_factor m_def)
      moreover have "s ! length ds = c" "length s = length ds + 1" using assms(1) suf by simp_all
      moreover have "m \<noteq> 0" using um f0 by auto
      ultimately show ?thesis
        using hd True uv um div_max_overflow [of m v]
        by (simp add: size_parse_def de tk stoull_def Let_def flip: v_def)
           (simp add: v_def m_def)
    qed
  qed
qed

text \<open>Whatever the parser accepts is a text of the grammar.\<close>

lemma size_parse_accepts:
  assumes "size_parse s allowed = Inr v"
  shows "\<exists>n. size_denotes allowed s n"
proof -
  let ?ds = "takeWhile is_digit s" and ?suf = "dropWhile is_digit s"
  have s: "s = ?ds @ ?suf" by simp
  have ne: "s \<noteq> []" "is_digit (hd s)" using assms by (auto simp: size_parse_def split: if_splits)
  then have ds: "?ds \<noteq> []" by (cases s) auto
  have dig: "\<forall>c \<in> set ?ds. is_digit c" by (auto dest: set_takeWhileD)
  have len: "length s = length ?ds + length ?suf" by (metis s length_append)
  have "\<exists>f. suffix_factor allowed ?suf = Some f"
  proof (cases "digits_end s = length s")
    case True
    then have "?suf = []" using len by (simp add: digits_end_takeWhile)
    then show ?thesis by (simp add: suffix_factor_def)
  next
    case False
    then have one: "digits_end s + 1 = length s"
      and ok: "\<exists>m. suffix_multiplier s (s ! digits_end s) allowed = Inr m"
      using assms ne
      by (auto simp: size_parse_def Let_def bindE_Inr_iff split: if_splits option.splits)
    from one have "length ?suf = 1" using len by (simp add: digits_end_takeWhile)
    then obtain c where c: "?suf = [c]" by (auto simp: length_Suc_conv)
    have "s ! digits_end s = c"
      using c by (metis s digits_end_takeWhile nth_append_length)
    with ok c show ?thesis by (auto simp: suffix_multiplier_factor)
  qed
  with s ds dig show ?thesis unfolding size_denotes_def by blast
qed

section \<open>Properties\<close>

text \<open>
  C25. \<open>SizeParser::Parse\<close> accepts exactly the texts of the size grammar whose value fits 64
  bits, and returns that value: no accepted text is misread, no overflow slips through the
  division test, and no fitting text is refused.
\<close>

theorem size_parse_correct:
  "size_parse s allowed = Inr v \<longleftrightarrow> size_denotes allowed s (unat v)"
proof
  assume p: "size_parse s allowed = Inr v"
  then obtain ds suf f where
    d: "s = ds @ suf" "ds \<noteq> []" "\<forall>c \<in> set ds. is_digit c" "suffix_factor allowed suf = Some f"
    using size_parse_accepts [OF p] by (auto simp: size_denotes_def)
  have "dec_val ds * f < 2 ^ 64" and "v = of_nat (dec_val ds * f)"
    using size_parse_denotes [OF d] p by (auto split: if_splits)
  then have "unat v = dec_val ds * f" by (simp only: unat_of_nat64)
  with d show "size_denotes allowed s (unat v)" by (auto simp: size_denotes_def)
next
  assume "size_denotes allowed s (unat v)"
  then obtain ds suf f where
    d: "s = ds @ suf" "ds \<noteq> []" "\<forall>c \<in> set ds. is_digit c" "suffix_factor allowed suf = Some f"
    and v: "unat v = dec_val ds * f"
    by (auto simp: size_denotes_def)
  have "dec_val ds * f < 2 ^ 64" using v unat_lt_2p64 [of v] by simp
  then have "size_parse s allowed = Inr (of_nat (dec_val ds * f))"
    using size_parse_denotes [OF d] by simp
  then show "size_parse s allowed = Inr v" by (simp flip: v)
qed

text \<open>
  C26. Formatting a byte count and parsing the text back gives the byte count, for every
  64-bit value.
\<close>

theorem size_format_roundtrip: "size_parse (size_format b) kKMG = Inr b"
proof -
  have go: "size_denotes kKMG (dec (unat b div f) @ suf) (unat b)"
    if "suffix_factor kKMG suf = Some f" "unat b mod f = 0" for suf f
    unfolding size_denotes_def
    using that dec_digits by (intro exI [of _ "dec (unat b div f)"] exI [of _ suf] exI [of _ f]) auto
  have m: "(b mod k = 0) = (unat b mod unat k = 0)" for k
    by (simp add: unat_0_iff64 unat_mod64)
  have z: "size_denotes kKMG ''0'' 0" if "b = 0"
    using go [of "[]" 1] that by (simp add: suffix_factor_def)
  show ?thesis
    unfolding size_parse_correct size_format_def m
    using go [of "''G''" "2 ^ 30"] go [of "''M''" "2 ^ 20"] go [of "''K''" "2 ^ 10"] go [of "[]" 1] z
    by (simp add: suffix_factor_def unat_div64)
qed

end
