(* ===== verification/Config_Parsers.thy ===== *)
theory Config_Parsers
  imports Config_Validator Size_Parser
begin

text \<open>
  The configuration front end: \<open>ParserFactory\<close> (\<open>src/config/parser_factory.cpp\<close>), the JSON and
  the CSV parser (\<open>src/config/json_parser.cpp\<close>, \<open>src/config/csv_parser.cpp\<close>) behind the
  interface \<open>IConfigParser\<close>, and the part of \<open>main\<close> (\<open>src/main.cpp\<close>) that loads, overrides and
  validates the jobs.

  The JSON and CSV libraries are not part of the repository: each is a record of the operations
  the parsers call, an argument of the definitions. An operation that throws gives \<open>Inl\<close> of the
  text of the exception.
\<close>

section \<open>Choosing a parser\<close>

datatype parser_kind = JsonParser | CsvParser

text \<open>
  \<open>std::filesystem::path::extension\<close>: from the last dot of the last component, empty when the
  component is one or two dots, has no dot, or has its only dot in front.
\<close>

definition path_filename :: "string \<Rightarrow> string" where
  "path_filename p = rev (takeWhile (\<lambda>c. c \<noteq> CHR ''/'') (rev p))"

definition path_extension :: "string \<Rightarrow> string" where
  "path_extension p =
     (let f = path_filename p; e = rev (takeWhile (\<lambda>c. c \<noteq> CHR ''.'') (rev f)) in
        if f = ''.'' \<or> f = ''..'' \<or> CHR ''.'' \<notin> set f \<or> length e + 1 = length f then []
        else CHR ''.'' # e)"

definition parser_create :: "string \<Rightarrow> parser_kind result" where
  "parser_create config_path =
     (let ext = map to_lower (path_extension config_path) in
        if ext = ''.json'' then Inr JsonParser
        else if ext = ''.csv'' then Inr CsvParser
        else Inl (InvalidArgument (''unsupported config file extension: '' @ sq ext)))"

section \<open>Shared by both parsers\<close>

definition target_filename :: "string \<Rightarrow> string \<Rightarrow> string" where
  "target_filename name filename_str =
     (if filename_str = [] then ''./cfio-'' @ name @ ''.dat'' else filename_str)"

text \<open>
  The handlers of \<open>ParseJob\<close>: an \<open>invalid_argument\<close> stays one, every other \<open>std::exception\<close>
  becomes a \<open>runtime_error\<close>; the context goes in front.
\<close>

definition with_context :: "string \<Rightarrow> 'a result \<Rightarrow> 'a result" where
  "with_context ctx r =
     (case r of
        Inr a \<Rightarrow> Inr a
      | Inl NonStdError \<Rightarrow> Inl NonStdError
      | Inl (InvalidArgument m) \<Rightarrow> Inl (InvalidArgument (ctx @ m))
      | Inl e \<Rightarrow> Inl (RuntimeError (ctx @ what e)))"

definition lift_lib :: "string + 'a \<Rightarrow> 'a result" where
  "lift_lib r = (case r of Inl m \<Rightarrow> Inl (LibraryError m) | Inr a \<Rightarrow> Inr a)"

section \<open>The JSON parser\<close>

record 'j json_api =
  js_parse :: "string \<Rightarrow> string + 'j"
  js_is_object :: "'j \<Rightarrow> bool"
  js_contains :: "'j \<Rightarrow> string \<Rightarrow> bool"
  js_at :: "'j \<Rightarrow> string \<Rightarrow> string + 'j"
  js_is_array :: "'j \<Rightarrow> bool"
  js_elems :: "'j \<Rightarrow> 'j list"
  js_get_string :: "'j \<Rightarrow> string + string"
  js_value_int :: "'j \<Rightarrow> string \<Rightarrow> int \<Rightarrow> string + int"
  js_value_bool :: "'j \<Rightarrow> string \<Rightarrow> bool \<Rightarrow> string + bool"
  js_value_string :: "'j \<Rightarrow> string \<Rightarrow> string \<Rightarrow> string + string"

definition js_at_string :: "'j json_api \<Rightarrow> 'j \<Rightarrow> string \<Rightarrow> string result" where
  "js_at_string api job key = bindE (lift_lib (js_at api job key)) (\<lambda>v. lift_lib (js_get_string api v))"

text \<open>The second \<open>try\<close> block of \<open>ParseJob\<close>.\<close>

definition json_job_fields :: "'j json_api \<Rightarrow> 'j \<Rightarrow> string \<Rightarrow> job_config result" where
  "json_job_fields api job name =
     bindE (js_at_string api job ''engine'') (\<lambda>engine.
     bindE (js_at_string api job ''rw'') (\<lambda>rw_str.
     bindE (parse_rw_mode rw_str) (\<lambda>mode.
     bindE (js_at_string api job ''bs'') (\<lambda>bs_str.
     bindE (size_parse bs_str kKM) (\<lambda>bs.
     bindE (js_at_string api job ''size'') (\<lambda>size_str.
     bindE (size_parse size_str kKMG) (\<lambda>size.
     bindE (lift_lib (js_value_int api job ''iodepth'' 1)) (\<lambda>iodepth.
     bindE (lift_lib (js_value_bool api job ''direct'' True)) (\<lambda>direct.
     bindE (lift_lib (js_value_int api job ''rwmixread'' 50)) (\<lambda>rwmixread.
     bindE (lift_lib (js_value_string api job ''filename'' [])) (\<lambda>filename_str.
     bindE (lift_lib (js_value_string api job ''align'' ''4k'')) (\<lambda>align_str.
     bindE (size_parse align_str kKM) (\<lambda>align.
       Inr \<lparr>jc_name = name, jc_engine = engine, jc_rw_mode = mode,
            jc_access_pattern = derive_access_pattern mode,
            jc_block_size = bs, jc_file_size = size, jc_iodepth = iodepth, jc_direct = direct,
            jc_rwmixread = rwmixread,
            jc_filename = target_filename name filename_str,
            jc_alignment = align\<rparr>)))))))))))))"

definition json_parse_job :: "'j json_api \<Rightarrow> 'j \<Rightarrow> nat \<Rightarrow> job_config result" where
  "json_parse_job api job index =
     (case js_at_string api job ''name'' of
        Inl e \<Rightarrow> Inl (RuntimeError (''job['' @ dec index @ '']: missing or invalid '' @ sq ''name'' @
          '': '' @ what e))
      | Inr name \<Rightarrow>
          with_context (''job['' @ dec index @ ''] '' @ sq name @ '': '') (json_job_fields api job name))"

fun json_parse_jobs :: "'j json_api \<Rightarrow> nat \<Rightarrow> 'j list \<Rightarrow> job_config list result" where
  "json_parse_jobs api i [] = Inr []"
| "json_parse_jobs api i (j # js) =
     bindE (json_parse_job api j i) (\<lambda>c.
     bindE (json_parse_jobs api (Suc i) js) (\<lambda>cs. Inr (c # cs)))"

text \<open>\<open>files p\<close> is the text of the file \<open>p\<close>, \<open>None\<close> when it cannot be opened.\<close>

definition json_parser_parse :: "'j json_api \<Rightarrow> (string \<Rightarrow> string option) \<Rightarrow> string \<Rightarrow> job_config list result" where
  "json_parser_parse api files path =
     (case files path of
        None \<Rightarrow> Inl (RuntimeError (''cannot open config file: '' @ sq path))
      | Some text \<Rightarrow>
        (case js_parse api text of
           Inl m \<Rightarrow> Inl (RuntimeError (''JSON parse error in '' @ sq path @ '': '' @ m))
         | Inr doc \<Rightarrow>
             if \<not> js_is_object api doc then
               Inl (RuntimeError (''config root must be a JSON object in '' @ sq path))
             else if \<not> js_contains api doc ''jobs'' then
               Inl (RuntimeError (''missing '' @ sq ''jobs'' @ '' key in '' @ sq path))
             else bindE (lift_lib (js_at api doc ''jobs'')) (\<lambda>jobs_value.
               if \<not> js_is_array api jobs_value then
                 Inl (RuntimeError (sq ''jobs'' @ '' must be an array in '' @ sq path))
               else json_parse_jobs api 0 (js_elems api jobs_value))))"

section \<open>The CSV parser\<close>

text \<open>\<open>cs_open\<close> gives the header's column names and the data rows.\<close>

record 'r csv_api =
  cs_open :: "string \<Rightarrow> string + string list \<times> 'r list"
  cs_field :: "'r \<Rightarrow> string \<Rightarrow> string + string"

definition kRequiredColumns :: "string list" where
  "kRequiredColumns = [''name'', ''engine'', ''rw'', ''bs'', ''size'']"

text \<open>
  \<open>std::stoi\<close>: leading white space, a sign, decimal digits. The result is the value and the
  number of characters read, or which exception it throws.
\<close>

datatype stoi_error = StoiOutOfRange | StoiInvalid

definition is_space :: "char \<Rightarrow> bool" where
  "is_space c \<longleftrightarrow> (of_char c :: nat) = 32 \<or> 9 \<le> (of_char c :: nat) \<and> (of_char c :: nat) \<le> 13"

definition stoi :: "string \<Rightarrow> stoi_error + int \<times> nat" where
  "stoi s =
     (let ws = takeWhile is_space s; r = dropWhile is_space s;
          neg = (r \<noteq> [] \<and> hd r = CHR ''-'');
          sgn = (r \<noteq> [] \<and> (hd r = CHR ''-'' \<or> hd r = CHR ''+''));
          ds = takeWhile is_digit (if sgn then tl r else r);
          v = (if neg then - int (dec_val ds) else int (dec_val ds)) in
        if ds = [] then Inl StoiInvalid
        else if v < - (2 ^ 31) \<or> v > 2 ^ 31 - 1 then Inl StoiOutOfRange
        else Inr (v, length ws + (if sgn then 1 else 0) + length ds))"

definition parse_int :: "string \<Rightarrow> string \<Rightarrow> int result" where
  "parse_int str field_name =
     (case stoi str of
        Inl StoiOutOfRange \<Rightarrow>
          Inl (InvalidArgument (sq field_name @ '' value out of range: '' @ sq str))
      | Inl StoiInvalid \<Rightarrow>
          Inl (InvalidArgument (sq field_name @ '' is not a valid integer: '' @ sq str))
      | Inr (value, pos) \<Rightarrow>
          if pos \<noteq> length str then
            Inl (InvalidArgument (sq field_name @ '' has trailing characters: '' @ sq str))
          else Inr value)"

definition parse_bool :: "string \<Rightarrow> string \<Rightarrow> bool result" where
  "parse_bool str field_name =
     (let lower = map to_lower str in
        if lower = ''true'' \<or> lower = ''1'' then Inr True
        else if lower = ''false'' \<or> lower = ''0'' then Inr False
        else Inl (InvalidArgument (sq field_name @ '' must be true/false/1/0, got: '' @ sq str)))"

text \<open>The lambda \<open>get_opt\<close>: an absent column reads as an empty field.\<close>

definition csv_get_opt :: "'r csv_api \<Rightarrow> 'r \<Rightarrow> string set \<Rightarrow> string \<Rightarrow> string result" where
  "csv_get_opt api row columns field =
     (if field \<notin> columns then Inr [] else lift_lib (cs_field api row field))"

definition csv_required :: "'r csv_api \<Rightarrow> 'r \<Rightarrow> string \<Rightarrow> string result" where
  "csv_required api row field =
     bindE (lift_lib (cs_field api row field)) (\<lambda>s.
       if s = [] then Inl (RuntimeError (sq field @ '' is empty'')) else Inr s)"

definition csv_job_fields :: "'r csv_api \<Rightarrow> 'r \<Rightarrow> string set \<Rightarrow> string \<Rightarrow> job_config result" where
  "csv_job_fields api row columns name =
     bindE (csv_required api row ''engine'') (\<lambda>engine.
     bindE (csv_required api row ''rw'') (\<lambda>rw_str.
     bindE (parse_rw_mode rw_str) (\<lambda>mode.
     bindE (csv_required api row ''bs'') (\<lambda>bs_str.
     bindE (size_parse bs_str kKM) (\<lambda>bs.
     bindE (csv_required api row ''size'') (\<lambda>size_str.
     bindE (size_parse size_str kKMG) (\<lambda>size.
     bindE (csv_get_opt api row columns ''iodepth'') (\<lambda>iodepth_str.
     bindE (if iodepth_str = [] then Inr 1 else parse_int iodepth_str ''iodepth'') (\<lambda>iodepth.
     bindE (csv_get_opt api row columns ''direct'') (\<lambda>direct_str.
     bindE (if direct_str = [] then Inr True else parse_bool direct_str ''direct'') (\<lambda>direct.
     bindE (csv_get_opt api row columns ''rwmixread'') (\<lambda>rwmix_str.
     bindE (if rwmix_str = [] then Inr 50 else parse_int rwmix_str ''rwmixread'') (\<lambda>rwmixread.
     bindE (csv_get_opt api row columns ''filename'') (\<lambda>filename_str.
     bindE (csv_get_opt api row columns ''align'') (\<lambda>align_str.
     bindE (size_parse (if align_str = [] then ''4k'' else align_str) kKM) (\<lambda>align.
       Inr \<lparr>jc_name = name, jc_engine = engine, jc_rw_mode = mode,
            jc_access_pattern = derive_access_pattern mode,
            jc_block_size = bs, jc_file_size = size, jc_iodepth = iodepth, jc_direct = direct,
            jc_rwmixread = rwmixread,
            jc_filename = target_filename name filename_str,
            jc_alignment = align\<rparr>))))))))))))))))"

definition csv_parse_job :: "'r csv_api \<Rightarrow> 'r \<Rightarrow> nat \<Rightarrow> string set \<Rightarrow> job_config result" where
  "csv_parse_job api row index columns =
     (case cs_field api row ''name'' of
        Inl m \<Rightarrow> Inl (RuntimeError (''row['' @ dec index @ '']: error reading '' @ sq ''name'' @
          '': '' @ m))
      | Inr name \<Rightarrow>
          if name = [] then
            Inl (RuntimeError (''row['' @ dec index @ '']: '' @ sq ''name'' @ '' is empty''))
          else with_context (''row['' @ dec index @ ''] '' @ sq name @ '': '')
                 (csv_job_fields api row columns name))"

fun csv_parse_rows :: "'r csv_api \<Rightarrow> string set \<Rightarrow> nat \<Rightarrow> 'r list \<Rightarrow> job_config list result" where
  "csv_parse_rows api columns i [] = Inr []"
| "csv_parse_rows api columns i (r # rs) =
     bindE (csv_parse_job api r i columns) (\<lambda>c.
     bindE (csv_parse_rows api columns (Suc i) rs) (\<lambda>cs. Inr (c # cs)))"

fun csv_check_columns :: "string \<Rightarrow> string set \<Rightarrow> string list \<Rightarrow> unit result" where
  "csv_check_columns path columns [] = Inr ()"
| "csv_check_columns path columns (r # rs) =
     (if r \<notin> columns then
        Inl (RuntimeError (''missing required column '' @ sq r @ '' in '' @ sq path))
      else csv_check_columns path columns rs)"

definition csv_parser_parse :: "'r csv_api \<Rightarrow> string \<Rightarrow> job_config list result" where
  "csv_parser_parse api path =
     (case cs_open api path of
        Inl m \<Rightarrow> Inl (RuntimeError (''cannot open config file: '' @ sq path @ '': '' @ m))
      | Inr (col_names, rows) \<Rightarrow>
          bindE (csv_check_columns path (set col_names) kRequiredColumns) (\<lambda>_.
            csv_parse_rows api (set col_names) 0 rows))"

section \<open>Loading the jobs of a run\<close>

text \<open>
  The overrides of the command line: the flags \<open>--direct\<close> and \<open>--no-direct\<close> as the library parsed them, and
  the engine when \<open>--engine\<close> was given.
\<close>

definition set_overrides :: "bool \<Rightarrow> bool \<Rightarrow> string option \<Rightarrow> cli_options \<Rightarrow> cli_options" where
  "set_overrides direct_flag no_direct_flag engine_opt opts =
     (let opts1 = (if direct_flag then opts\<lparr>opt_direct_override := Some True\<rparr>
            else if no_direct_flag then opts\<lparr>opt_direct_override := Some False\<rparr> else opts)
      in case engine_opt of None \<Rightarrow> opts1 | Some e \<Rightarrow> opts1\<lparr>opt_engine_override := Some e\<rparr>)"

text \<open>The override loop of \<open>main\<close>.\<close>

definition apply_overrides :: "cli_options \<Rightarrow> job_config \<Rightarrow> job_config" where
  "apply_overrides opts job =
     (let job1 = (case opt_direct_override opts of None \<Rightarrow> job | Some d \<Rightarrow> job\<lparr>jc_direct := d\<rparr>) in
        case opt_engine_override opts of None \<Rightarrow> job1 | Some e \<Rightarrow> job1\<lparr>jc_engine := e\<rparr>)"

lemma set_overrides_apply:
  assumes "opt_direct_override opts = None" "opt_engine_override opts = None"
  shows "apply_overrides (set_overrides d n e opts) job =
    job\<lparr>jc_direct := (if d then True else if n then False else jc_direct job),
        jc_engine := (case e of None \<Rightarrow> jc_engine job | Some x \<Rightarrow> x)\<rparr>"
  using assms by (cases job) (simp add: apply_overrides_def set_overrides_def Let_def split: option.split)

text \<open>Everything after a parser was chosen: parse, override, validate.\<close>

definition load_with :: "(string \<Rightarrow> job_config list result) \<Rightarrow> cli_options \<Rightarrow> job_config list result" where
  "load_with parse opts =
     bindE (parse (opt_config_path opts)) (\<lambda>jobs.
       let jobs' = map (apply_overrides opts) jobs in
         bindE (validate_all jobs') (\<lambda>_. Inr jobs'))"

definition main_load ::
  "'j json_api \<Rightarrow> (string \<Rightarrow> string option) \<Rightarrow> 'r csv_api \<Rightarrow> cli_options \<Rightarrow> job_config list result" where
  "main_load japi files capi opts =
     bindE (parser_create (opt_config_path opts)) (\<lambda>kind.
       case kind of
         JsonParser \<Rightarrow> load_with (json_parser_parse japi files) opts
       | CsvParser \<Rightarrow> load_with (csv_parser_parse capi) opts)"

section \<open>The contract of a parser\<close>

text \<open>
  \<open>well_derived\<close> is what a parser owes besides the fields it reads: the access pattern follows
  the mode and the target file has a name. \<open>IConfigParser\<close> promises that of every job it
  returns, and that a failure is a \<open>std::exception\<close>, which is all \<open>main\<close> catches.
\<close>

definition well_derived :: "job_config \<Rightarrow> bool" where
  "well_derived c \<longleftrightarrow>
     jc_access_pattern c = derive_access_pattern (jc_rw_mode c) \<and> jc_filename c \<noteq> []"

definition overridden :: "cli_options \<Rightarrow> job_config \<Rightarrow> bool" where
  "overridden opts c \<longleftrightarrow>
     opt_direct_override opts \<in> {None, Some (jc_direct c)} \<and>
     opt_engine_override opts \<in> {None, Some (jc_engine c)}"

text \<open>What the rest of the program may rely on once the jobs are loaded.\<close>

definition runnable_jobs :: "cli_options \<Rightarrow> job_config list \<Rightarrow> bool" where
  "runnable_jobs opts cs \<longleftrightarrow>
     cs \<noteq> [] \<and> distinct (map jc_name cs) \<and>
     list_all (\<lambda>c. valid_job c \<and> well_derived c \<and> overridden opts c) cs"

locale config_parser =
  fixes parse :: "string \<Rightarrow> job_config list result"
  assumes parse_derived: "parse p = Inr cs \<Longrightarrow> c \<in> set cs \<Longrightarrow> well_derived c"
    and parse_std_error: "parse p \<noteq> Inl NonStdError"
begin

lemma load_runnable:
  assumes "load_with parse opts = Inr cs"
  shows "runnable_jobs opts cs"
proof -
  obtain jobs where p: "parse (opt_config_path opts) = Inr jobs"
    and cs: "cs = map (apply_overrides opts) jobs" and v: "validate_all cs = Inr ()"
    using assms by (auto simp: load_with_def bindE_Inr_iff Let_def)
  have "well_derived (apply_overrides opts c) \<and> overridden opts (apply_overrides opts c)"
    if "c \<in> set jobs" for c
    using parse_derived [OF p that]
    by (auto simp: well_derived_def overridden_def apply_overrides_def Let_def split: option.splits)
  with cs v show ?thesis
    using validate_all_ok_iff [of cs] by (auto simp: runnable_jobs_def list_all_iff)
qed

lemma load_std_error: "load_with parse opts \<noteq> Inl NonStdError"
proof
  assume "load_with parse opts = Inl NonStdError"
  with parse_std_error show False
    using runtime_only_validate_all by (auto simp: load_with_def bindE_Inl_iff Let_def runtime_only_def)
qed

end

section \<open>Both parsers keep the contract\<close>

lemma with_context_Inr_iff [simp]: "with_context ctx r = Inr a \<longleftrightarrow> r = Inr a"
  by (simp add: with_context_def split: sum.split exn.split)

lemma with_context_NonStd_iff [simp]: "with_context ctx r = Inl NonStdError \<longleftrightarrow> r = Inl NonStdError"
  by (simp add: with_context_def split: sum.split exn.split)

lemma lift_lib_Inr_iff [simp]: "lift_lib r = Inr a \<longleftrightarrow> r = Inr a"
  by (simp add: lift_lib_def split: sum.split)

lemma lift_lib_std [simp]: "lift_lib r \<noteq> Inl NonStdError"
  by (simp add: lift_lib_def split: sum.split)

lemma size_parse_std [simp]: "size_parse s a \<noteq> Inl NonStdError"
  by (auto simp: size_parse_def suffix_multiplier_def bindE_Inl_iff Let_def split: option.splits if_splits)

lemma parse_rw_mode_std [simp]: "parse_rw_mode s \<noteq> Inl NonStdError"
  by (auto dest: parse_rw_mode_Inl)

lemma parse_int_std [simp]: "parse_int s f \<noteq> Inl NonStdError"
  by (simp add: parse_int_def split: sum.split stoi_error.split)

lemma parse_bool_std [simp]: "parse_bool s f \<noteq> Inl NonStdError"
  by (simp add: parse_bool_def Let_def)

lemma target_filename_not_Nil [simp]: "target_filename n f \<noteq> []"
  by (simp add: target_filename_def)

lemma json_job_fields_derived: "json_job_fields api j n = Inr c \<Longrightarrow> well_derived c"
  by (auto simp: json_job_fields_def bindE_Inr_iff well_derived_def)

lemma csv_job_fields_derived: "csv_job_fields api r cols n = Inr c \<Longrightarrow> well_derived c"
  by (auto simp: csv_job_fields_def bindE_Inr_iff well_derived_def)

lemma json_parse_job_derived: "json_parse_job api j i = Inr c \<Longrightarrow> well_derived c"
  by (auto simp: json_parse_job_def dest: json_job_fields_derived split: sum.splits)

lemma csv_parse_job_derived: "csv_parse_job api r i cols = Inr c \<Longrightarrow> well_derived c"
  by (auto simp: csv_parse_job_def dest: csv_job_fields_derived split: sum.splits if_splits)

lemma json_parse_jobs_derived:
  "json_parse_jobs api i js = Inr cs \<Longrightarrow> c \<in> set cs \<Longrightarrow> well_derived c"
  by (induction js arbitrary: i cs) (auto simp: bindE_Inr_iff dest: json_parse_job_derived)

lemma csv_parse_rows_derived:
  "csv_parse_rows api cols i rs = Inr cs \<Longrightarrow> c \<in> set cs \<Longrightarrow> well_derived c"
  by (induction rs arbitrary: i cs) (auto simp: bindE_Inr_iff dest: csv_parse_job_derived)

lemma js_at_string_std [simp]: "js_at_string api j k \<noteq> Inl NonStdError"
  by (simp add: js_at_string_def bindE_Inl_iff)

lemma csv_get_opt_std [simp]: "csv_get_opt api r cols f \<noteq> Inl NonStdError"
  by (simp add: csv_get_opt_def)

lemma csv_required_std [simp]: "csv_required api r f \<noteq> Inl NonStdError"
  by (simp add: csv_required_def bindE_Inl_iff)

lemma json_job_fields_std [simp]: "json_job_fields api j n \<noteq> Inl NonStdError"
  by (simp add: json_job_fields_def bindE_Inl_iff)

lemma csv_job_fields_std [simp]: "csv_job_fields api r cols n \<noteq> Inl NonStdError"
  by (simp add: csv_job_fields_def bindE_Inl_iff)

lemma json_parse_jobs_std [simp]: "json_parse_jobs api i js \<noteq> Inl NonStdError"
  by (induction js arbitrary: i) (auto simp: bindE_Inl_iff json_parse_job_def split: sum.splits)

lemma csv_parse_rows_std [simp]: "csv_parse_rows api cols i rs \<noteq> Inl NonStdError"
  by (induction rs arbitrary: i) (auto simp: bindE_Inl_iff csv_parse_job_def split: sum.splits if_splits)

lemma csv_check_columns_std [simp]: "csv_check_columns p cols rs \<noteq> Inl NonStdError"
  by (induction rs) simp_all

interpretation json_source: config_parser "json_parser_parse japi files" for japi files
proof
  show "well_derived c" if "json_parser_parse japi files p = Inr cs" "c \<in> set cs" for p cs c
    using that json_parse_jobs_derived
    by (fastforce simp: json_parser_parse_def bindE_Inr_iff split: option.splits sum.splits if_splits)
  show "json_parser_parse japi files p \<noteq> Inl NonStdError" for p
    by (simp add: json_parser_parse_def bindE_Inl_iff split: option.split sum.split)
qed

interpretation csv_source: config_parser "csv_parser_parse capi" for capi
proof
  show "well_derived c" if "csv_parser_parse capi p = Inr cs" "c \<in> set cs" for p cs c
    using that csv_parse_rows_derived
    by (fastforce simp: csv_parser_parse_def bindE_Inr_iff split: sum.splits)
  show "csv_parser_parse capi p \<noteq> Inl NonStdError" for p
    by (simp add: csv_parser_parse_def bindE_Inl_iff split: sum.split)
qed

lemma main_load_cases:
  assumes "main_load japi files capi opts = r"
  shows "(\<exists>e. r = Inl e \<and> parser_create (opt_config_path opts) = Inl e) \<or> (\<exists>parse. config_parser parse \<and> load_with parse opts = r)"
  using assms json_source.config_parser_axioms csv_source.config_parser_axioms
  by (cases "parser_create (opt_config_path opts)") (auto simp: main_load_def split: parser_kind.splits)

lemma main_load_runs: "main_load japi files capi opts = Inr jobs \<Longrightarrow> runnable_jobs opts jobs"
  by (drule main_load_cases) (auto dest: config_parser.load_runnable)

lemma main_load_std_error: "main_load japi files capi opts \<noteq> Inl NonStdError"
  by (auto dest!: main_load_cases config_parser.load_std_error simp: parser_create_def Let_def split: if_splits)

section \<open>Properties\<close>

text \<open>
  C14. Whatever configuration file \<open>main\<close> loads, through either parser and whatever the JSON and
  CSV libraries return, the jobs it goes on with are runnable: not empty, distinctly named, each
  valid, with its access pattern derived from its mode, a target file, and the command line
  overrides in force. A failure is a \<open>std::exception\<close>, so the handler of \<open>main\<close> reports it.
\<close>

theorem main_load_runnable:
  "case main_load japi files capi opts of
     Inr jobs \<Rightarrow> runnable_jobs opts jobs
   | Inl e \<Rightarrow> e \<noteq> NonStdError"
  using main_load_runs main_load_std_error by (fastforce split: sum.split)

end
