(* ===== verification/Engine_Api.thy ===== *)
theory Engine_Api
  imports Job_Config "HOL-Library.AList"
begin

text \<open>
  The interface \<open>IEngineIO\<close> (\<open>src/engine/i_engine_io.h\<close>), the bookkeeping entry \<open>SubmitInfo\<close>
  (\<open>src/engine/submit_info.h\<close>) and the helpers of \<open>src/engine/engine_utils.h\<close>. The calls into the
  kernel are the fields of a record of functions on the state of the world.
\<close>

section \<open>The system calls\<close>

text \<open>A call returns its result and the \<open>errno\<close> it left, which counts when the result is negative.\<close>

record 'w os_api =
  os_strerror :: "int \<Rightarrow> string"
  os_open :: "string \<Rightarrow> bool \<Rightarrow> 'w \<Rightarrow> (int \<times> int) \<times> 'w"
  os_close :: "int \<Rightarrow> 'w \<Rightarrow> (int \<times> int) \<times> 'w"
  os_pread :: "int \<Rightarrow> u64 \<Rightarrow> u64 \<Rightarrow> int \<Rightarrow> 'w \<Rightarrow> (int \<times> int) \<times> 'w"
  os_pwrite :: "int \<Rightarrow> u64 \<Rightarrow> u64 \<Rightarrow> int \<Rightarrow> 'w \<Rightarrow> (int \<times> int) \<times> 'w"
  os_lseek :: "int \<Rightarrow> int \<Rightarrow> 'w \<Rightarrow> (int \<times> int) \<times> 'w"
  os_read :: "int \<Rightarrow> u64 \<Rightarrow> u64 \<Rightarrow> 'w \<Rightarrow> (int \<times> int) \<times> 'w"
  os_write :: "int \<Rightarrow> u64 \<Rightarrow> u64 \<Rightarrow> 'w \<Rightarrow> (int \<times> int) \<times> 'w"

text \<open>\<open>RetryOnEintr\<close>: a call that is interrupted for ever does not return.\<close>

partial_function (option) retry_on_eintr ::
    "('w \<Rightarrow> (int \<times> int) \<times> 'w) \<Rightarrow> 'w \<Rightarrow> ((int \<times> int) \<times> 'w) option" where
  "retry_on_eintr fn w =
     (case fn w of ((r, errno), w') \<Rightarrow>
        if r = - 1 \<and> errno = EINTR then retry_on_eintr fn w' else Some ((r, errno), w'))"

declare retry_on_eintr.simps [code]

text \<open>
  \<open>OpenFileWithDirectFallback\<close>: \<open>os_open path True\<close> is the call with \<open>O_DIRECT\<close>. The result is the
  descriptor and whether direct IO is in effect.
\<close>

definition open_file_with_direct_fallback ::
    "'w os_api \<Rightarrow> string \<Rightarrow> bool \<Rightarrow> 'w \<Rightarrow> (int \<times> bool) result \<times> 'w" where
  "open_file_with_direct_fallback os path direct_requested w =
     (if direct_requested then
        (case os_open os path True w of ((fd, errno), w1) \<Rightarrow>
           if fd < 0 then
             if errno = EINVAL \<or> errno = EOPNOTSUPP then
               (case os_open os path False w1 of ((fd2, errno2), w2) \<Rightarrow>
                  if fd2 < 0
                  then (Inl (system_error (os_strerror os) errno2 (''failed to open file '' @ sq path)), w2)
                  else (Inr (fd2, False), w2))
             else (Inl (system_error (os_strerror os) errno
                     (''failed to open file '' @ sq path @ '' with O_DIRECT'')), w1)
           else (Inr (fd, True), w1))
      else
        (case os_open os path False w of ((fd, errno), w1) \<Rightarrow>
           if fd < 0
           then (Inl (system_error (os_strerror os) errno (''failed to open file '' @ sq path)), w1)
           else (Inr (fd, False), w1)))"

text \<open>\<open>do r = call(); while (again(r));\<close>, the loop around the waiting calls of the asynchronous engines.\<close>

partial_function (option) do_while :: "('r \<Rightarrow> bool) \<Rightarrow> ('w \<Rightarrow> 'r \<times> 'w) \<Rightarrow> 'w \<Rightarrow> ('r \<times> 'w) option" where
  "do_while again call w =
     (case call w of (r, w') \<Rightarrow> if again r then do_while again call w' else Some (r, w'))"

declare do_while.simps [code]

section \<open>The interface\<close>

record submit_info =
  si_submit_time :: time_point
  si_direction :: io_direction
  si_length :: u64

definition info_of :: "io_request \<Rightarrow> submit_info" where
  "info_of rq =
     \<lparr>si_submit_time = rq_submit_time rq, si_direction = rq_direction rq, si_length = rq_length rq\<rparr>"

text \<open>
  The virtual functions. The state is the engine object with the world it runs in.
  \<open>PollCompletions\<close> returns what it appends to \<open>out\<close>.
\<close>

record 's engine_ops =
  eo_open :: "job_config \<Rightarrow> ('s, unit) prog"
  eo_submit :: "io_request \<Rightarrow> ('s, unit) prog"
  eo_poll :: "int \<Rightarrow> int \<Rightarrow> ('s, io_completion list) prog"
  eo_close :: "('s, unit) prog"
  eo_direct :: "'s \<Rightarrow> bool"

text \<open>
  How a completion reports the result of an operation: the transferred bytes when the kernel
  returned a count, success when the count is the whole request, \<open>EIO\<close> for a short transfer.
\<close>

definition completes :: "submit_info \<Rightarrow> io_completion \<Rightarrow> bool" where
  "completes info c \<longleftrightarrow>
     cp_submit_time c = si_submit_time info \<and> cp_direction c = si_direction info \<and>
     0 \<le> cp_bytes c \<and>
     (cp_success c \<longrightarrow> cp_error c = 0 \<and> (0 \<le> sint (si_length info) \<longrightarrow> cp_bytes c = sint (si_length info)))"

section \<open>The contract of an engine\<close>

lemma restrict_all [simp]: "m |` UNIV = m"
  by (simp add: restrict_map_def)

text \<open>
  What a worker relies on. \<open>rep s p\<close> says that \<open>p\<close> maps the id of every request submitted and not yet
  reported to its submit info. A submission that returns adds its request, whose id was not
  pending; one that throws changes nothing. A poll reports pending requests only, each once, with
  its own submit info, and removes them.
\<close>

locale io_engine =
  fixes ops :: "'s engine_ops"
    and rep :: "'s \<Rightarrow> (u64 \<Rightarrow> submit_info option) \<Rightarrow> bool"
  assumes submit_ok: "rep s p \<Longrightarrow> eo_submit ops rq s = Some (Inr (), s') \<Longrightarrow>
      p (rq_id rq) = None \<and> rep s' (p(rq_id rq \<mapsto> info_of rq))"
    and submit_throws: "rep s p \<Longrightarrow> eo_submit ops rq s = Some (Inl e, s') \<Longrightarrow> rep s' p"
    and poll_ok: "rep s p \<Longrightarrow> eo_poll ops mn mx s = Some (Inr cs, s') \<Longrightarrow>
      distinct (map cp_id cs) \<and> (\<forall>c \<in> set cs. \<exists>info. p (cp_id c) = Some info \<and> completes info c) \<and>
      rep s' (p |` (- cp_id ` set cs))"
    and poll_throws: "rep s p \<Longrightarrow> eo_poll ops mn mx s = Some (Inl e, s') \<Longrightarrow> rep s' p"
begin

lemma poll_subset:
  "rep s p \<Longrightarrow> eo_poll ops mn mx s = Some (Inr cs, s') \<Longrightarrow> cp_id ` set cs \<subseteq> dom p"
  using poll_ok [of s p mn mx cs s'] by auto

lemma poll_unpending:
  "rep s p \<Longrightarrow> eo_poll ops mn mx s = Some (Inr cs, s') \<Longrightarrow> c \<in> set cs \<Longrightarrow>
    (p |` (- cp_id ` set cs)) (cp_id c) = None"
  by (simp add: restrict_map_def)

end

text \<open>
  More than safety needs: while requests are pending, a poll that waits for one event reports some.
  The synchronous loop relies on it, and the end of a run.
\<close>

locale prompt_engine = io_engine +
  assumes poll_prompt: "rep s p \<Longrightarrow> p \<noteq> Map.empty \<Longrightarrow> 1 \<le> mx \<Longrightarrow>
      eo_poll ops 1 mx s = Some (Inr cs, s') \<Longrightarrow> cs \<noteq> []"
begin

lemma poll_single:
  assumes "rep s [i \<mapsto> info]" "eo_poll ops 1 1 s = Some (Inr cs, s')"
  shows "\<exists>c. cs = [c] \<and> cp_id c = i \<and> completes info c \<and> rep s' Map.empty"
proof -
  have ne: "cs \<noteq> []" using poll_prompt [OF assms(1) _ _ assms(2)] by simp
  have p: "distinct (map cp_id cs)" "\<forall>c \<in> set cs. \<exists>i'. [i \<mapsto> info] (cp_id c) = Some i' \<and> completes i' c"
    "rep s' ([i \<mapsto> info] |` (- cp_id ` set cs))"
    using poll_ok [OF assms] by blast+
  then have all: "\<forall>c \<in> set cs. cp_id c = i \<and> completes info c" by (auto split: if_splits)
  then have "map cp_id cs = replicate (length cs) i" by (simp add: map_replicate_const [symmetric])
  then have "distinct (replicate (length cs) i)" using p(1) by metis
  then have "length cs = 1" using ne by (cases cs) auto
  then obtain c where c: "cs = [c]" by (auto simp: length_Suc_conv)
  moreover have "[i \<mapsto> info] |` (- cp_id ` set cs) = Map.empty" using c all by (auto simp: restrict_map_def)
  ultimately show ?thesis using all p(3) by auto
qed

end

section \<open>Lemmas on the helpers\<close>

text \<open>The requests in flight of the asynchronous engines: a map as an association list.\<close>

type_synonym flight = "(u64 \<times> submit_info) list"

lemma map_of_delete [simp]: "map_of (AList.delete k fl) = (map_of fl)(k := None)"
  by (rule delete_conv')

lemma delete_fresh: "map_of fl k = None \<Longrightarrow> AList.delete k ((k, v) # fl) = fl"
  by (simp add: AList.delete_eq filter_id_conv map_of_eq_None_iff) force

text \<open>The world after \<open>n\<close> attempts of a call.\<close>

fun after_attempts :: "('w \<Rightarrow> (int \<times> int) \<times> 'w) \<Rightarrow> nat \<Rightarrow> 'w \<Rightarrow> 'w" where
  "after_attempts fn 0 w = w"
| "after_attempts fn (Suc n) w = after_attempts fn n (snd (fn w))"

definition interrupted :: "('w \<Rightarrow> (int \<times> int) \<times> 'w) \<Rightarrow> 'w \<Rightarrow> bool" where
  "interrupted fn w \<longleftrightarrow> fst (fn w) = (- 1, EINTR)"

lemma retry_step:
  "retry_on_eintr fn w = (if interrupted fn w then retry_on_eintr fn (snd (fn w)) else Some (fn w))"
  by (subst retry_on_eintr.simps) (auto simp: interrupted_def split: prod.splits)

lemma retry_finds:
  "(\<forall>i < n. interrupted fn (after_attempts fn i w)) \<Longrightarrow> \<not> interrupted fn (after_attempts fn n w) \<Longrightarrow>
    retry_on_eintr fn w = Some (fn (after_attempts fn n w))"
proof (induction n arbitrary: w)
  case 0
  then show ?case by (simp add: retry_step)
next
  case (Suc n)
  then have "interrupted fn w" by (metis after_attempts.simps(1) zero_less_Suc)
  moreover have "\<forall>i < n. interrupted fn (after_attempts fn i (snd (fn w)))"
    using Suc.prems(1) by (metis after_attempts.simps(2) Suc_less_eq)
  ultimately show ?case using Suc.IH [of "snd (fn w)"] Suc.prems(2) by (simp add: retry_step [of fn w])
qed

definition first_attempt ::
    "('w \<Rightarrow> (int \<times> int) \<times> 'w) \<Rightarrow> 'w \<Rightarrow> (int \<times> int) \<times> 'w \<Rightarrow> bool" where
  "first_attempt fn w r \<longleftrightarrow>
     (\<exists>n. (\<forall>i < n. interrupted fn (after_attempts fn i w)) \<and>
       \<not> interrupted fn (after_attempts fn n w) \<and> r = fn (after_attempts fn n w))"

lemma first_attempt_next:
  assumes "interrupted fn w" "first_attempt fn (snd (fn w)) r"
  shows "first_attempt fn w r"
proof -
  have step: "after_attempts fn (Suc i) w = after_attempts fn i (snd (fn w))" for i by simp
  obtain n where n: "\<forall>i < n. interrupted fn (after_attempts fn (Suc i) w)"
    "\<not> interrupted fn (after_attempts fn (Suc n) w)" "r = fn (after_attempts fn (Suc n) w)"
    using assms(2) unfolding first_attempt_def step by blast
  have "interrupted fn (after_attempts fn i w)" if "i < Suc n" for i
    using n(1) that assms(1) by (cases i) (simp_all only: after_attempts.simps(1) Suc_less_eq)
  with n(2,3) show ?thesis unfolding first_attempt_def by blast
qed

lemma retry_found:
  assumes "retry_on_eintr fn w = Some r"
  shows "first_attempt fn w r"
proof (rule retry_on_eintr.raw_induct [OF _ assms, where P = first_attempt])
  fix retry :: "('w \<Rightarrow> (int \<times> int) \<times> 'w) \<Rightarrow> 'w \<Rightarrow> ((int \<times> int) \<times> 'w) option" and fn w r
  assume ih: "\<And>fn w r. retry fn w = Some r \<Longrightarrow> first_attempt fn w r"
    and eq: "(case fn w of ((r, errno), w') \<Rightarrow>
      if r = - 1 \<and> errno = EINTR then retry fn w' else Some ((r, errno), w')) = Some r"
  show "first_attempt fn w r"
  proof (cases "interrupted fn w")
    case True
    with eq have "retry fn (snd (fn w)) = Some r" by (auto simp: interrupted_def split: prod.splits)
    from first_attempt_next [OF True ih [OF this]] show ?thesis .
  next
    case False
    with eq have "r = fn w" by (auto simp: interrupted_def split: prod.splits if_splits)
    with False show ?thesis unfolding first_attempt_def by (intro exI [of _ 0]) simp
  qed
qed

text \<open>
  \<open>RetryOnEintr\<close> returns exactly when some attempt is not interrupted, and then with the result of
  the first such attempt, in the world all attempts before it led to; it never reports \<open>EINTR\<close>.
\<close>

lemma retry_on_eintr_correct:
  "(retry_on_eintr fn w = Some r \<longleftrightarrow>
     (\<exists>n. (\<forall>i \<in> {..<n}. interrupted fn (after_attempts fn i w)) \<and>
        \<not> interrupted fn (after_attempts fn n w) \<and> r = fn (after_attempts fn n w))) \<and>
   (retry_on_eintr fn w = None \<longleftrightarrow> (\<forall>n. interrupted fn (after_attempts fn n w)))"
proof
  show iff: "retry_on_eintr fn w = Some r \<longleftrightarrow>
      (\<exists>n. (\<forall>i \<in> {..<n}. interrupted fn (after_attempts fn i w)) \<and>
        \<not> interrupted fn (after_attempts fn n w) \<and> r = fn (after_attempts fn n w))" for r
    using retry_found [of fn w r] retry_finds [of _ fn w] unfolding first_attempt_def lessThan_iff Ball_def by metis
  show "retry_on_eintr fn w = None \<longleftrightarrow> (\<forall>n. interrupted fn (after_attempts fn n w))"
  proof
    assume none: "retry_on_eintr fn w = None"
    show "\<forall>n. interrupted fn (after_attempts fn n w)"
    proof
      fix n show "interrupted fn (after_attempts fn n w)"
      proof (induction n rule: less_induct)
        case (less n)
        then show ?case using retry_finds [of n fn w] none by force
      qed
    qed
  next
    assume "\<forall>n. interrupted fn (after_attempts fn n w)"
    then show "retry_on_eintr fn w = None" using retry_found [of fn w] unfolding first_attempt_def by (cases "retry_on_eintr fn w") blast+
  qed
qed

lemma retry_on_eintr_correct_example:
  "retry_on_eintr (\<lambda>k :: nat. ((if k < 2 then - 1 else 512, EINTR), Suc k)) 0 = Some ((512, EINTR), 3)"
proof -
  let ?f = "\<lambda>k :: nat. ((if k < 2 then - 1 else 512, EINTR), Suc k)"
  have a: "after_attempts ?f n k = n + k" for n k by (induction n arbitrary: k) simp_all
  show ?thesis
    by (subst conjunct1 [OF retry_on_eintr_correct])
      (auto simp: a interrupted_def intro!: exI [of _ "2 :: nat"])
qed

text \<open>An operating system whose transfers all return the same result; the world counts them.\<close>

definition quiet_os :: "int \<Rightarrow> nat os_api" where
  "quiet_os r =
     \<lparr>os_strerror = (\<lambda>_. ''error''), os_open = (\<lambda>_ _ w. ((3, 0), w)), os_close = (\<lambda>_ w. ((0, 0), w)),
      os_pread = (\<lambda>_ _ _ _ w. ((r, EINVAL), w + 1)), os_pwrite = (\<lambda>_ _ _ _ w. ((r, EINVAL), w + 1)),
      os_lseek = (\<lambda>_ off w. ((off, 0), w)), os_read = (\<lambda>_ _ _ w. ((r, EINVAL), w + 1)),
      os_write = (\<lambda>_ _ _ w. ((r, EINVAL), w + 1))\<rparr>"

end
