(* ===== verification/Buffer_Pool.thy ===== *)
theory Buffer_Pool
  imports Prelude
begin

text \<open>
  \<open>AlignedBuffer\<close> (\<open>src/telemetry/aligned_buffer.cpp\<close>) and \<open>BufferPool\<close>
  (\<open>src/telemetry/buffer_pool.cpp\<close>): one aligned allocation cut into blocks, and the stack of the
  free blocks. The allocator of the C library and the random engine are parameters. The
  build flag \<open>NDEBUG\<close> decides whether the checks are compiled in, so it is an argument too.
\<close>

section \<open>AlignedBuffer\<close>

record aligned_buffer =
  ab_data :: u64
  ab_size :: u64
  ab_alignment :: u64

text \<open>\<open>alloc alignment size\<close> is the address \<open>std::aligned_alloc\<close> returns, 0 for a null pointer.\<close>

definition aligned_buffer_create ::
    "(u64 \<Rightarrow> u64 \<Rightarrow> u64) \<Rightarrow> u64 \<Rightarrow> u64 \<Rightarrow> aligned_buffer result" where
  "aligned_buffer_create alloc alignment sz =
     (if alignment = 0 \<or> alignment AND (alignment - 1) \<noteq> 0
      then Inl (InvalidArgument (''alignment must be a positive power of 2, got '' @ dec64 alignment))
      else if sz = 0 then Inl (InvalidArgument ''size must be greater than 0'')
      else if sz mod alignment \<noteq> 0
      then Inl (InvalidArgument (''size ('' @ dec64 sz @ '') must be a multiple of alignment ('' @
             dec64 alignment @ ''), required by aligned_alloc''))
      else let data = alloc alignment sz in
             if data = 0 then Inl BadAlloc
             else Inr \<lparr>ab_data = data, ab_size = sz, ab_alignment = alignment\<rparr>)"

definition moved_from :: aligned_buffer where
  "moved_from = \<lparr>ab_data = 0, ab_size = 0, ab_alignment = 0\<rparr>"

text \<open>Move construction and move assignment give the new value of both operands.\<close>

definition aligned_buffer_move :: "aligned_buffer \<Rightarrow> aligned_buffer \<times> aligned_buffer" where
  "aligned_buffer_move other = (other, moved_from)"

definition aligned_buffer_assign ::
    "aligned_buffer \<Rightarrow> aligned_buffer \<Rightarrow> aligned_buffer \<times> aligned_buffer" where
  "aligned_buffer_assign this other = (other, this)"

definition aligned_buffer_empty :: "aligned_buffer \<Rightarrow> bool" where
  "aligned_buffer_empty b \<longleftrightarrow> ab_data b = 0"

text \<open>
  The destructor frees the block. The heap is the list of the live allocations; freeing an
  address that is not live is undefined, \<open>None\<close>; freeing the null pointer does nothing.
\<close>

definition aligned_buffer_destroy :: "u64 list \<Rightarrow> aligned_buffer \<Rightarrow> u64 list option" where
  "aligned_buffer_destroy live b =
     (if ab_data b = 0 then Some live
      else if ab_data b \<in> set live then Some (remove1 (ab_data b) live) else None)"

section \<open>BufferPool\<close>

datatype 'a outcome = Done 'a | AssertFail string | Undefined

definition bindO :: "'a outcome \<Rightarrow> ('a \<Rightarrow> 'b outcome) \<Rightarrow> 'b outcome" where
  "bindO r f = (case r of Done a \<Rightarrow> f a | AssertFail m \<Rightarrow> AssertFail m | Undefined \<Rightarrow> Undefined)"

lemma bindO_simps [simp]:
  "bindO (Done a) f = f a"
  "bindO (AssertFail m) f = AssertFail m"
  "bindO Undefined f = Undefined"
  by (simp_all add: bindO_def)

lemma bindO_Done_iff: "bindO r f = Done b \<longleftrightarrow> (\<exists>a. r = Done a \<and> f a = Done b)"
  by (cases r) simp_all

record buffer_pool =
  bp_storage :: aligned_buffer
  bp_contents :: "8 word list"
  bp_block_size :: u64
  bp_capacity :: u64
  bp_free_slots :: "u32 list"
  bp_in_use :: "bool list"

text \<open>The bytes of a word in memory order, and the fill with successive words of the engine.\<close>

definition bytes_of_word :: "u64 \<Rightarrow> 8 word list" where
  "bytes_of_word w = map (\<lambda>i. ucast (drop_bit (8 * i) w)) [0..<8]"

function fill_random :: "(nat \<Rightarrow> u64) \<Rightarrow> nat \<Rightarrow> nat \<Rightarrow> nat \<Rightarrow> 8 word list" where
  "fill_random rng k offset sz =
     (if offset + 8 \<le> sz then bytes_of_word (rng k) @ fill_random rng (Suc k) (offset + 8) sz
      else if offset < sz then take (sz - offset) (bytes_of_word (rng k)) else [])"
  by pat_completeness auto
termination by (relation "measure (\<lambda>(rng, k, offset, sz). sz - offset)") auto

declare fill_random.simps [simp del]

definition total_size :: "u64 \<Rightarrow> u64 \<Rightarrow> u64 result" where
  "total_size block_size capacity =
     (if block_size \<noteq> 0 \<and> capacity > (- 1) div block_size
      then Inl (InvalidArgument (''buffer pool size overflows: block_size '' @ dec64 block_size @
             '' times capacity '' @ dec64 capacity))
      else Inr (block_size * capacity))"

definition check_capacity :: "u64 \<Rightarrow> u64 result" where
  "check_capacity capacity =
     (if capacity = 0 then Inl (InvalidArgument ''buffer pool capacity must be greater than 0'')
      else if capacity > 4294967295
      then Inl (InvalidArgument (''buffer pool capacity too large: '' @ dec64 capacity))
      else Inr capacity)"

text \<open>The loop of the constructor: the highest slot is pushed first, so slot 0 is on top.\<close>

definition initial_slots :: "u64 \<Rightarrow> u32 list" where
  "initial_slots capacity = map (\<lambda>i. of_nat (i - 1)) (rev [1..<unat capacity + 1])"

definition buffer_pool_create ::
    "(u64 \<Rightarrow> u64 \<Rightarrow> u64) \<Rightarrow> (nat \<Rightarrow> u64) \<Rightarrow> u64 \<Rightarrow> u64 \<Rightarrow> u64 \<Rightarrow> buffer_pool result" where
  "buffer_pool_create alloc rng alignment block_size capacity =
     bindE (check_capacity capacity) (\<lambda>cap.
     bindE (total_size block_size cap) (\<lambda>sz.
     bindE (aligned_buffer_create alloc alignment sz) (\<lambda>storage.
     Inr \<lparr>bp_storage = storage,
          bp_contents = fill_random rng 0 0 (unat (ab_size storage)),
          bp_block_size = block_size,
          bp_capacity = capacity,
          bp_free_slots = initial_slots capacity,
          bp_in_use = replicate (unat capacity) False\<rparr>)))"

text \<open>The free slots are a vector: \<open>back\<close> is the last element.\<close>

definition pool_acquire :: "bool \<Rightarrow> buffer_pool \<Rightarrow> (u32 \<times> buffer_pool) outcome" where
  "pool_acquire ndebug p =
     (if bp_free_slots p = []
      then if ndebug then Undefined
           else AssertFail ''buffer pool exhausted, more requests in flight than iodepth''
      else let slot = last (bp_free_slots p);
               p1 = p\<lparr>bp_free_slots := butlast (bp_free_slots p)\<rparr>
           in if ndebug then Done (slot, p1)
              else if unat slot < length (bp_in_use p)
              then Done (slot, p1\<lparr>bp_in_use := (bp_in_use p)[unat slot := True]\<rparr>)
              else Undefined)"

definition pool_release :: "bool \<Rightarrow> u32 \<Rightarrow> buffer_pool \<Rightarrow> buffer_pool outcome" where
  "pool_release ndebug slot p =
     (if unat slot \<ge> unat (bp_capacity p)
      then if ndebug then Done p else AssertFail ''buffer pool release of an out of range slot''
      else if ndebug then Done (p\<lparr>bp_free_slots := bp_free_slots p @ [slot]\<rparr>)
      else if bp_in_use p ! unat slot
      then Done (p\<lparr>bp_in_use := (bp_in_use p)[unat slot := False],
                   bp_free_slots := bp_free_slots p @ [slot]\<rparr>)
      else AssertFail ''buffer pool double release, engine emitted two completions'')"

definition pool_data :: "buffer_pool \<Rightarrow> u32 \<Rightarrow> u64" where
  "pool_data p slot =
     (if unat slot \<ge> unat (bp_capacity p) then 0
      else ab_data (bp_storage p) + ucast slot * bp_block_size p)"

definition pool_available :: "buffer_pool \<Rightarrow> nat" where
  "pool_available p = length (bp_free_slots p)"

definition pool_total_bytes :: "buffer_pool \<Rightarrow> u64" where
  "pool_total_bytes p = ab_size (bp_storage p)"

section \<open>The slot discipline\<close>

text \<open>The slots given out and not yet returned.\<close>

definition held :: "buffer_pool \<Rightarrow> u32 set" where
  "held p = {s. unat s < unat (bp_capacity p)} - set (bp_free_slots p)"

definition pool_inv :: "bool \<Rightarrow> buffer_pool \<Rightarrow> bool" where
  "pool_inv ndebug p \<longleftrightarrow>
     unat (bp_capacity p) < 2 ^ 32 \<and>
     distinct (bp_free_slots p) \<and>
     (\<forall>s \<in> set (bp_free_slots p). unat s < unat (bp_capacity p)) \<and>
     (ndebug \<or> length (bp_in_use p) = unat (bp_capacity p) \<and>
        (\<forall>s. unat s < unat (bp_capacity p) \<longrightarrow> bp_in_use p ! unat s = (s \<in> held p)))"

lemma card_slots: "n \<le> 2 ^ 32 \<Longrightarrow> card {s :: u32. unat s < n} = n"
proof -
  assume n: "n \<le> 2 ^ 32"
  have "{s :: u32. unat s < n} = of_nat ` {..<n}"
  proof (intro equalityI subsetI)
    fix s :: u32 assume "s \<in> {s. unat s < n}"
    then show "s \<in> of_nat ` {..<n}" by (intro image_eqI [of _ _ "unat s"]) auto
  next
    fix s :: u32 assume "s \<in> of_nat ` {..<n}"
    then show "s \<in> {s. unat s < n}" using n by (auto simp: unat_of_nat take_bit_eq_mod)
  qed
  moreover have "inj_on (of_nat :: nat \<Rightarrow> u32) {..<n}"
    using n by (intro inj_onI) (auto simp: word_of_nat_eq_iff take_bit_eq_mod)
  ultimately show ?thesis by (simp add: card_image)
qed

lemma card_held: "pool_inv ndebug p \<Longrightarrow> card (held p) + pool_available p = unat (bp_capacity p)"
proof -
  assume i: "pool_inv ndebug p"
  have "set (bp_free_slots p) \<subseteq> {s. unat s < unat (bp_capacity p)}" using i by (auto simp: pool_inv_def)
  then have "card (held p) = unat (bp_capacity p) - length (bp_free_slots p)"
    using i by (simp add: held_def card_Diff_subset card_slots distinct_card pool_inv_def)
  moreover have "length (bp_free_slots p) \<le> unat (bp_capacity p)"
    using i card_mono [OF _ \<open>set (bp_free_slots p) \<subseteq> _\<close>]
    by (simp add: card_slots distinct_card pool_inv_def)
  ultimately show ?thesis by (simp add: pool_available_def)
qed

lemma held_subset: "s \<in> held p \<Longrightarrow> unat s < unat (bp_capacity p)"
  by (simp add: held_def)

lemma acquire_done:
  assumes "pool_inv ndebug p" "bp_free_slots p \<noteq> []"
  shows "\<exists>s p'. pool_acquire ndebug p = Done (s, p') \<and> s = last (bp_free_slots p) \<and>
    bp_free_slots p' = butlast (bp_free_slots p) \<and> s \<notin> held p \<and>
    held p' = insert s (held p) \<and> pool_inv ndebug p' \<and> bp_capacity p' = bp_capacity p \<and>
    pool_data p' = pool_data p"
proof -
  define s where "s = last (bp_free_slots p)"
  have split: "bp_free_slots p = butlast (bp_free_slots p) @ [s]" using assms(2) by (simp add: s_def)
  then have mem: "s \<in> set (bp_free_slots p)" by (metis in_set_conv_decomp)
  then have c: "unat s < unat (bp_capacity p)" using assms(1) by (simp add: pool_inv_def)
  have dist: "distinct (butlast (bp_free_slots p))" "s \<notin> set (butlast (bp_free_slots p))"
    using assms(1) split unfolding pool_inv_def
    by (metis distinct_butlast, metis distinct_append disjoint_insert(1) list.simps(15))
  have sub: "set (bp_free_slots p) = insert s (set (butlast (bp_free_slots p)))"
    by (subst split) simp
  define p1 where "p1 = p\<lparr>bp_free_slots := butlast (bp_free_slots p)\<rparr>"
  define p2 where "p2 = p1\<lparr>bp_in_use := (bp_in_use p)[unat s := True]\<rparr>"
  define p' where "p' = (if ndebug then p1 else p2)"
  have f: "bp_free_slots p' = butlast (bp_free_slots p)" "bp_capacity p' = bp_capacity p"
    by (simp_all add: p'_def p1_def p2_def)
  have h: "held p' = insert s (held p)" using dist(2) sub c by (auto simp: held_def f)
  have use: "ndebug \<or> bp_in_use p' = (bp_in_use p)[unat s := True]" by (simp add: p'_def p2_def)
  have "pool_inv ndebug p'"
    using assms(1) use f h dist(1) sub unfolding pool_inv_def
    by (auto simp: nth_list_update word_unat_eq_iff)
  moreover have "pool_acquire ndebug p = Done (s, p')"
    using assms c unfolding pool_acquire_def pool_inv_def p'_def p2_def p1_def s_def
    by (auto simp: Let_def)
  moreover have "pool_data p' = pool_data p" by (simp add: fun_eq_iff pool_data_def p'_def p2_def p1_def)
  moreover have "s \<notin> held p" using mem by (simp add: held_def)
  ultimately show ?thesis using f h s_def by blast
qed

lemma release_done:
  assumes "pool_inv ndebug p" "s \<in> held p"
  shows "\<exists>p'. pool_release ndebug s p = Done p' \<and> bp_free_slots p' = bp_free_slots p @ [s] \<and>
    held p' = held p - {s} \<and> pool_inv ndebug p' \<and> bp_capacity p' = bp_capacity p \<and>
    pool_data p' = pool_data p"
proof -
  have c: "unat s < unat (bp_capacity p)" "s \<notin> set (bp_free_slots p)" using assms(2) by (simp_all add: held_def)
  define p1 where "p1 = p\<lparr>bp_free_slots := bp_free_slots p @ [s]\<rparr>"
  define p' where "p' = (if ndebug then p1 else p1\<lparr>bp_in_use := (bp_in_use p)[unat s := False]\<rparr>)"
  have f: "bp_free_slots p' = bp_free_slots p @ [s]" "bp_capacity p' = bp_capacity p"
    by (simp_all add: p'_def p1_def)
  have h: "held p' = held p - {s}" by (auto simp: held_def f)
  have use: "ndebug \<or> bp_in_use p' = (bp_in_use p)[unat s := False]" by (simp add: p'_def)
  have "pool_inv ndebug p'"
    using assms(1) use f h c unfolding pool_inv_def
    by (auto simp: nth_list_update word_unat_eq_iff split: if_splits)
  moreover have "pool_release ndebug s p = Done p'"
    using assms c unfolding pool_release_def pool_inv_def p'_def p1_def by auto
  moreover have "pool_data p' = pool_data p" by (simp add: fun_eq_iff pool_data_def p'_def p1_def)
  ultimately show ?thesis using f h by blast
qed

section \<open>The interface of a slot allocator\<close>

text \<open>
  What the worker relies on: a set of held slots that \<open>acquire\<close> extends by a new one, as long as
  it is smaller than the capacity, and that \<open>release\<close> shrinks by a held one.
\<close>

locale slot_allocator =
  fixes acquire :: "'p \<Rightarrow> ('s \<times> 'p) outcome" and release :: "'s \<Rightarrow> 'p \<Rightarrow> 'p outcome"
    and held_slots :: "'p \<Rightarrow> 's set" and slots :: "'p \<Rightarrow> nat" and ok :: "'p \<Rightarrow> bool"
  assumes acquire_ok: "ok p \<Longrightarrow> card (held_slots p) < slots p \<Longrightarrow>
      \<exists>s p'. acquire p = Done (s, p') \<and> s \<notin> held_slots p \<and> held_slots p' = insert s (held_slots p) \<and>
        slots p' = slots p \<and> ok p'"
    and release_ok: "ok p \<Longrightarrow> s \<in> held_slots p \<Longrightarrow>
      \<exists>p'. release s p = Done p' \<and> held_slots p' = held_slots p - {s} \<and> slots p' = slots p \<and> ok p'"
    and finite_held: "finite (held_slots p)"
begin

lemma release_each:
  "ok p \<Longrightarrow> distinct ss \<Longrightarrow> set ss \<subseteq> held_slots p \<Longrightarrow>
    \<exists>p'. foldl (\<lambda>r s. bindO r (release s)) (Done p) ss = Done p' \<and>
      held_slots p' = held_slots p - set ss \<and> slots p' = slots p \<and> ok p'"
proof (induction ss arbitrary: p)
  case (Cons s ss)
  then obtain p1 where p1: "release s p = Done p1" "held_slots p1 = held_slots p - {s}"
      "slots p1 = slots p" "ok p1"
    using release_ok [of p s] by auto
  moreover have "set ss \<subseteq> held_slots p1" using Cons.prems p1 by auto
  ultimately show ?case using Cons.IH [of p1] Cons.prems by auto
qed simp

lemma acquire_each:
  "ok p \<Longrightarrow> card (held_slots p) + n \<le> slots p \<Longrightarrow>
    \<exists>p'. ((\<lambda>r. bindO r (\<lambda>q. bindO (acquire q) (\<lambda>(s, q'). Done q'))) ^^ n) (Done p) = Done p' \<and>
      card (held_slots p') = card (held_slots p) + n \<and> held_slots p \<subseteq> held_slots p' \<and>
      slots p' = slots p \<and> ok p'"
proof (induction n arbitrary: p)
  case (Suc n)
  then obtain s p1 where p1: "acquire p = Done (s, p1)" "s \<notin> held_slots p"
      "held_slots p1 = insert s (held_slots p)" "slots p1 = slots p" "ok p1"
    using acquire_ok [of p] by auto
  then have "card (held_slots p1) = Suc (card (held_slots p))" using finite_held [of p] by simp
  then show ?case using Suc.IH [of p1] Suc.prems(2) p1 by (auto simp: funpow_Suc_right simp del: funpow.simps)
qed simp

end

lemma pool_allocator:
  "slot_allocator (pool_acquire ndebug) (pool_release ndebug) held
     (\<lambda>p. unat (bp_capacity p)) (pool_inv ndebug)"
proof
  fix p :: buffer_pool
  assume i: "pool_inv ndebug p" and "card (held p) < unat (bp_capacity p)"
  then have "bp_free_slots p \<noteq> []" using card_held [OF i] by (auto simp: pool_available_def)
  from acquire_done [OF i this]
  show "\<exists>s p'. pool_acquire ndebug p = Done (s, p') \<and> s \<notin> held p \<and> held p' = insert s (held p) \<and>
      unat (bp_capacity p') = unat (bp_capacity p) \<and> pool_inv ndebug p'"
    by metis
next
  fix p s
  assume "pool_inv ndebug p" "s \<in> held p"
  from release_done [OF this]
  show "\<exists>p'. pool_release ndebug s p = Done p' \<and> held p' = held p - {s} \<and>
      unat (bp_capacity p') = unat (bp_capacity p) \<and> pool_inv ndebug p'"
    by metis
qed (simp add: held_def)

interpretation debug_pool: slot_allocator "pool_acquire False" "pool_release False" held
    "\<lambda>p. unat (bp_capacity p)" "pool_inv False"
  by (rule pool_allocator)

interpretation release_pool: slot_allocator "pool_acquire True" "pool_release True" held
    "\<lambda>p. unat (bp_capacity p)" "pool_inv True"
  by (rule pool_allocator)

section \<open>Construction and the layout of the blocks\<close>

lemma length_bytes_of_word [simp]: "length (bytes_of_word w) = 8"
  by (simp add: bytes_of_word_def)

lemma fill_random_nth:
  "offset \<le> sz \<Longrightarrow> length (fill_random rng k offset sz) = sz - offset \<and>
     (\<forall>i < sz - offset. fill_random rng k offset sz ! i = bytes_of_word (rng (k + i div 8)) ! (i mod 8))"
proof (induction rng k offset sz rule: fill_random.induct)
  case (1 rng k offset sz)
  show ?case
  proof (cases "offset + 8 \<le> sz")
    case True
    then have ih: "length (fill_random rng (Suc k) (offset + 8) sz) = sz - (offset + 8)"
      "i < sz - (offset + 8) \<Longrightarrow> fill_random rng (Suc k) (offset + 8) sz ! i =
        bytes_of_word (rng (Suc k + i div 8)) ! (i mod 8)" for i
      using "1.IH" by simp_all
    have "fill_random rng k offset sz ! i = bytes_of_word (rng (k + i div 8)) ! (i mod 8)"
      if "i < sz - offset" for i
    proof (cases "i < 8")
      case False
      then have "i div 8 = Suc ((i - 8) div 8)" "i mod 8 = (i - 8) mod 8"
        by (simp_all add: le_div_geq le_mod_geq)
      then show ?thesis using True False that ih(2) [of "i - 8"]
        by (simp add: fill_random.simps [of rng k offset] nth_append)
    qed (simp add: fill_random.simps [of rng k offset] nth_append True)
    moreover have "length (fill_random rng k offset sz) = sz - offset"
      using True ih(1) by (simp add: fill_random.simps [of rng k offset])
    ultimately show ?thesis by blast
  next
    case False
    then show ?thesis using "1.prems" by (auto simp: fill_random.simps [of rng k offset])
  qed
qed

lemma initial_slots_eq: "initial_slots capacity = rev (map of_nat [0..<unat capacity])"
proof -
  have "map (\<lambda>i. of_nat (i - 1)) [1..<n + 1] = (map of_nat [0..<n] :: u32 list)" for n
    by (induction n) simp_all
  then show ?thesis by (simp add: initial_slots_def rev_map [symmetric])
qed

lemma total_size_no_overflow:
  "total_size block_size capacity = Inr sz \<longleftrightarrow>
     unat block_size * unat capacity < 2 ^ 64 \<and> sz = block_size * capacity"
proof (cases "block_size = 0")
  case False
  then have pos: "0 < unat block_size" by (simp add: unat_gt_0)
  have "capacity > (- 1) div block_size \<longleftrightarrow> 18446744073709551615 div unat block_size < unat capacity"
    by (simp add: word_less_nat_alt unat_div unat_max64)
  also have "\<dots> \<longleftrightarrow> \<not> unat capacity * unat block_size \<le> 18446744073709551615"
    using less_eq_div_iff_mult_less_eq [OF pos, of "unat capacity" 18446744073709551615] by linarith
  finally show ?thesis using False by (auto simp: total_size_def mult.commute)
qed (auto simp: total_size_def)

lemma aligned_buffer_create_ok:
  "aligned_buffer_create alloc alignment sz = Inr b \<longleftrightarrow>
     is_pow2 alignment \<and> sz \<noteq> 0 \<and> sz mod alignment = 0 \<and> alloc alignment sz \<noteq> 0 \<and>
     b = \<lparr>ab_data = alloc alignment sz, ab_size = sz, ab_alignment = alignment\<rparr>"
  by (auto simp: aligned_buffer_create_def is_pow2_iff_bits Let_def)

lemma check_capacity_ok:
  "check_capacity capacity = Inr c \<longleftrightarrow> c = capacity \<and> 0 < unat capacity \<and> unat capacity < 2 ^ 32"
  by (auto simp: check_capacity_def word_less_nat_alt unat_gt_0)

lemma buffer_pool_create_ok:
  "buffer_pool_create alloc rng alignment block_size capacity = Inr p \<longleftrightarrow>
     0 < unat capacity \<and> unat capacity < 2 ^ 32 \<and> unat block_size * unat capacity < 2 ^ 64 \<and>
     is_pow2 alignment \<and> block_size \<noteq> 0 \<and> block_size * capacity mod alignment = 0 \<and>
     alloc alignment (block_size * capacity) \<noteq> 0 \<and>
     p = \<lparr>bp_storage = \<lparr>ab_data = alloc alignment (block_size * capacity),
            ab_size = block_size * capacity, ab_alignment = alignment\<rparr>,
          bp_contents = fill_random rng 0 0 (unat block_size * unat capacity),
          bp_block_size = block_size, bp_capacity = capacity,
          bp_free_slots = initial_slots capacity, bp_in_use = replicate (unat capacity) False\<rparr>"
  (is "?l \<longleftrightarrow> ?r")
proof
  assume ?l
  then show ?r
    unfolding buffer_pool_create_def bindE_Inr_iff check_capacity_ok total_size_no_overflow
      aligned_buffer_create_ok
    by (auto simp: unat_mult64)
next
  assume r: ?r
  then have cap: "check_capacity capacity = Inr capacity" by (simp add: check_capacity_ok)
  have tot: "total_size block_size capacity = Inr (block_size * capacity)"
    using r by (simp add: total_size_no_overflow)
  have sz: "unat (block_size * capacity) = unat block_size * unat capacity"
    using r by (intro unat_mult64) simp
  then have "block_size * capacity \<noteq> 0" using r by (simp add: unat_0_iff64)
  then have "aligned_buffer_create alloc alignment (block_size * capacity) =
      Inr \<lparr>ab_data = alloc alignment (block_size * capacity),
        ab_size = block_size * capacity, ab_alignment = alignment\<rparr>"
    using r by (simp add: aligned_buffer_create_ok)
  then show ?l
    using r cap tot sz by (simp add: buffer_pool_create_def)
qed

lemma buffer_pool_create_inv:
  assumes "buffer_pool_create alloc rng alignment block_size capacity = Inr p"
  shows "pool_inv ndebug p \<and> held p = {} \<and> pool_available p = unat capacity"
proof -
  have c: "unat capacity < 2 ^ 32" "bp_capacity p = capacity" "bp_free_slots p = initial_slots capacity"
    "bp_in_use p = replicate (unat capacity) False"
    using assms by (auto simp: buffer_pool_create_ok)
  have s: "set (bp_free_slots p) = {s. unat s < unat capacity}"
  proof (intro equalityI subsetI)
    fix s assume "s \<in> {s :: u32. unat s < unat capacity}"
    then show "s \<in> set (bp_free_slots p)"
      unfolding c(3) initial_slots_eq by (auto intro!: image_eqI [of _ _ "unat s"])
  qed (use c in \<open>auto simp: initial_slots_eq unat_of_nat take_bit_eq_mod\<close>)
  have d: "distinct (bp_free_slots p)"
    unfolding c(3) initial_slots_eq using c(1)
    by (auto simp: distinct_map inj_on_def word_of_nat_eq_iff take_bit_eq_mod)
  have h: "held p = {}" using s c(2) by (simp add: held_def)
  show ?thesis using c d h s by (simp add: pool_inv_def pool_available_def initial_slots_eq)
qed

lemma pool_data_offset:
  assumes "buffer_pool_create alloc rng alignment block_size capacity = Inr p"
    and "unat (ab_data (bp_storage p)) + unat block_size * unat capacity \<le> 2 ^ 64"
    and "unat s < unat capacity"
  shows "unat (pool_data p s) = unat (ab_data (bp_storage p)) + unat s * unat block_size"
proof -
  have p: "bp_capacity p = capacity" "bp_block_size p = block_size" "0 < unat block_size"
    using assms(1) by (auto simp: buffer_pool_create_ok unat_gt_0)
  have "Suc (unat s) * unat block_size \<le> unat capacity * unat block_size"
    using assms(3) by (intro mult_le_mono1) simp
  then have le: "unat s * unat block_size + unat block_size \<le> unat block_size * unat capacity"
    by (simp add: mult.commute)
  have u: "unat (ucast s :: u64) = unat s"  by (rule unat_ucast_32_64)
  have m: "unat (ucast s * block_size) = unat s * unat block_size"
    using unat_mult64 [of "ucast s" block_size] u le assms(2) p(3) by simp
  then have "unat (ab_data (bp_storage p) + ucast s * block_size) =
      unat (ab_data (bp_storage p)) + unat s * unat block_size"
    using unat_add64 [of "ab_data (bp_storage p)" "ucast s * block_size"] le assms(2) p(3) by simp
  then show ?thesis using assms(3) p by (simp add: pool_data_def)
qed

text \<open>What the program relies on of \<open>std::aligned_alloc\<close>: the block is aligned and does not wrap.\<close>

definition alloc_aligned :: "(u64 \<Rightarrow> u64 \<Rightarrow> u64) \<Rightarrow> bool" where
  "alloc_aligned alloc \<longleftrightarrow>
     (\<forall>a n. alloc a n \<noteq> 0 \<longrightarrow> unat (alloc a n) mod unat a = 0 \<and> unat (alloc a n) + unat n \<le> 2 ^ 64)"

text \<open>
  C27. A constructed pool, of any capacity, is a partition of its storage: its size is computed without
  overflow, every byte of it is the next byte of the words the random engine gives, every slot is
  free, the block of each slot lies inside the storage and is aligned as the storage, and the blocks
  of two slots do not meet. The block size is a multiple of the alignment, as the header asks.
\<close>

theorem buffer_pool_layout:
  assumes "buffer_pool_create alloc rng alignment block_size capacity = Inr p" "alloc_aligned alloc"
    and "unat block_size mod unat alignment = 0"
  shows "pool_inv ndebug p \<and> held p = {} \<and> pool_available p = unat capacity \<and> 0 < unat capacity \<and>
    unat (pool_total_bytes p) = unat block_size * unat capacity \<and>
    length (bp_contents p) = unat block_size * unat capacity \<and>
    (\<forall>i < unat block_size * unat capacity.
       bp_contents p ! i = ucast (drop_bit (8 * (i mod 8)) (rng (i div 8)))) \<and>
    (\<forall>s. unat s < unat capacity \<longrightarrow>
       unat (pool_data p s) mod unat alignment = 0 \<and>
       unat (ab_data (bp_storage p)) \<le> unat (pool_data p s) \<and>
       unat (pool_data p s) + unat block_size \<le>
         unat (ab_data (bp_storage p)) + unat (pool_total_bytes p)) \<and>
    (\<forall>s t. unat s < unat t \<and> unat t < unat capacity \<longrightarrow>
       unat (pool_data p s) + unat block_size \<le> unat (pool_data p t))"
proof -
  let ?n = "unat block_size * unat capacity"
  have p: "0 < unat block_size" "?n < 2 ^ 64" "0 < unat capacity"
    using assms(1) by (auto simp: buffer_pool_create_ok unat_gt_0)
  then have sz: "unat (block_size * capacity) = ?n" by (intro unat_mult64)
  have st: "pool_total_bytes p = block_size * capacity"
    "ab_data (bp_storage p) = alloc alignment (block_size * capacity)"
    "alloc alignment (block_size * capacity) \<noteq> 0" "bp_contents p = fill_random rng 0 0 ?n"
    using assms(1) by (auto simp: buffer_pool_create_ok pool_total_bytes_def)
  have al: "unat (ab_data (bp_storage p)) mod unat alignment = 0" "unat (ab_data (bp_storage p)) + ?n \<le> 2 ^ 64"
    using assms(2) st(3) sz unfolding alloc_aligned_def st(2) by metis+
  have off: "unat (pool_data p s) = unat (ab_data (bp_storage p)) + unat s * unat block_size"
    if "unat s < unat capacity" for s
    using pool_data_offset [OF assms(1) al(2) that] .
  have block: "Suc (unat s) * unat block_size \<le> k * unat block_size" if "unat s < k" for s :: u32 and k
    using that by (intro mult_le_mono1) simp
  have bytes: "bp_contents p ! i = ucast (drop_bit (8 * (i mod 8)) (rng (i div 8)))" if "i < ?n" for i
    using fill_random_nth [of 0 ?n rng 0] that by (simp add: st(4) bytes_of_word_def)
  have len: "length (bp_contents p) = ?n" using fill_random_nth [of 0 ?n rng 0] by (simp add: st(4))
  have "unat alignment dvd unat s * unat block_size" for s :: u32
    using assms(3) by (simp add: mod_eq_0_iff_dvd)
  then have "unat (pool_data p s) mod unat alignment = 0" if "unat s < unat capacity" for s
    using al(1) by (simp add: off [OF that] mod_eq_0_iff_dvd)
  moreover have "unat (pool_data p s) + unat block_size \<le> unat (ab_data (bp_storage p)) + unat (pool_total_bytes p)"
    if "unat s < unat capacity" for s
    using block [OF that] by (simp add: off [OF that] st sz mult.commute)
  moreover have "unat (pool_data p s) + unat block_size \<le> unat (pool_data p t)"
    if "unat s < unat t \<and> unat t < unat capacity" for s t
    using block [of s "unat t"] that by (simp add: off)
  ultimately show ?thesis
    using buffer_pool_create_inv [OF assms(1)] p(3) bytes len by (simp add: off st(1) sz)
qed

theorem buffer_pool_layout_witness:
  "let p = \<lparr>bp_storage = \<lparr>ab_data = 8, ab_size = 16, ab_alignment = 8\<rparr>,
        bp_contents = fill_random of_nat 0 0 16, bp_block_size = 8, bp_capacity = 2,
        bp_free_slots = initial_slots 2, bp_in_use = [False, False]\<rparr>
   in bp_contents p ! 8 = 1 \<and> unat (pool_data p 1) mod 8 = 0 \<and>
      unat (pool_data p 0) + 8 \<le> unat (pool_data p 1) \<and> unat (pool_data p 1) + 8 \<le> 24"
proof -
  let ?p = "\<lparr>bp_storage = \<lparr>ab_data = 8, ab_size = 16, ab_alignment = 8\<rparr>,
        bp_contents = fill_random of_nat 0 0 16, bp_block_size = 8, bp_capacity = 2,
        bp_free_slots = initial_slots 2, bp_in_use = [False, False]\<rparr>"
  have two: "replicate 2 False = [False, False]" by (simp add: numeral_2_eq_2)
  have "is_pow2 8" unfolding is_pow2_def by (rule exI [of _ 3]) simp
  then have c: "buffer_pool_create (\<lambda>a n. if n = 16 \<and> a = 8 then 8 else 0) of_nat 8 8 2 = Inr ?p"
    unfolding buffer_pool_create_ok using two by simp
  have a: "alloc_aligned (\<lambda>a n. if n = 16 \<and> a = 8 then 8 else 0)" by (simp add: alloc_aligned_def)
  have "\<forall>i < 16. bp_contents ?p ! i = ucast (drop_bit (8 * (i mod 8)) (of_nat (i div 8) :: u64))"
    "\<forall>s. unat s < 2 \<longrightarrow> unat (pool_data ?p s) mod 8 = 0 \<and> unat (pool_data ?p s) + 8 \<le> 24"
    "\<forall>s t. unat s < unat t \<and> unat t < 2 \<longrightarrow> unat (pool_data ?p s) + 8 \<le> unat (pool_data ?p t)"
    using buffer_pool_layout [OF c a, of False] by (simp_all add: pool_total_bytes_def)
  from this(1) [rule_format, of 8] this(2) [rule_format, of 1] this(3) [rule_format, of 0 1]
  show ?thesis by (simp add: Let_def)
qed

text \<open>
  C19. The slot discipline in both builds: below the capacity \<open>Acquire\<close> gives a slot nobody holds,
  releasing a held slot is accepted and the next \<open>Acquire\<close> gives it back first, and no sequence of
  releases of distinct held slots fails. Each misuse stops the debug build on its own check: an
  \<open>Acquire\<close> of an exhausted pool, a release out of range, a second release. Without the checks the first is
  undefined and the second is ignored.
\<close>

theorem pool_discipline:
  assumes "pool_inv ndebug p"
  shows "(card (held p) < unat (bp_capacity p) \<longrightarrow>
      (\<exists>s p'. pool_acquire ndebug p = Done (s, p') \<and> s \<notin> held p \<and> held p' = insert s (held p) \<and>
         unat s < unat (bp_capacity p) \<and> pool_inv ndebug p'))
    \<and> (\<forall>s \<in> held p. \<exists>p'. pool_release ndebug s p = Done p' \<and> held p' = held p - {s} \<and>
         pool_inv ndebug p' \<and> (\<exists>p''. pool_acquire ndebug p' = Done (s, p'') \<and> held p'' = held p))
    \<and> (\<forall>ss. distinct ss \<and> set ss \<subseteq> held p \<longrightarrow>
         (\<exists>p'. foldl (\<lambda>r s. bindO r (pool_release ndebug s)) (Done p) ss = Done p' \<and>
            held p' = held p - set ss \<and> pool_inv ndebug p'))
    \<and> (\<forall>s. \<not> ndebug \<and> unat s < unat (bp_capacity p) \<and> s \<notin> held p \<longrightarrow>
         pool_release ndebug s p =
           AssertFail ''buffer pool double release, engine emitted two completions'')
    \<and> (card (held p) = unat (bp_capacity p) \<longrightarrow> pool_acquire ndebug p =
         (if ndebug then Undefined
          else AssertFail ''buffer pool exhausted, more requests in flight than iodepth''))
    \<and> (\<forall>s :: u32. unat (bp_capacity p) \<le> unat s \<longrightarrow> pool_release ndebug s p =
         (if ndebug then Done p else AssertFail ''buffer pool release of an out of range slot''))"
proof (intro conjI impI ballI allI)
  assume "card (held p) < unat (bp_capacity p)"
  then have "bp_free_slots p \<noteq> []" using card_held [OF assms] by (auto simp: pool_available_def)
  from acquire_done [OF assms this] obtain s p' where "pool_acquire ndebug p = Done (s, p')"
    "s \<notin> held p" "held p' = insert s (held p)" "pool_inv ndebug p'" "bp_capacity p' = bp_capacity p"
    by blast
  moreover from this have "unat s < unat (bp_capacity p)" using held_subset [of s p'] by simp
  ultimately show "\<exists>s p'. pool_acquire ndebug p = Done (s, p') \<and> s \<notin> held p \<and>
      held p' = insert s (held p) \<and> unat s < unat (bp_capacity p) \<and> pool_inv ndebug p'" by blast
next
  fix s assume s: "s \<in> held p"
  from release_done [OF assms this] obtain p' where r: "pool_release ndebug s p = Done p'"
    "bp_free_slots p' = bp_free_slots p @ [s]" "held p' = held p - {s}" "pool_inv ndebug p'" by blast
  moreover obtain p'' where "pool_acquire ndebug p' = Done (s, p'')" "held p'' = insert s (held p')"
    using acquire_done [OF r(4)] r(2) by auto
  ultimately show "\<exists>p'. pool_release ndebug s p = Done p' \<and> held p' = held p - {s} \<and>
      pool_inv ndebug p' \<and> (\<exists>p''. pool_acquire ndebug p' = Done (s, p'') \<and> held p'' = held p)"
    using s by (metis insert_Diff)
next
  fix ss assume "distinct ss \<and> set ss \<subseteq> held p"
  then show "\<exists>p'. foldl (\<lambda>r s. bindO r (pool_release ndebug s)) (Done p) ss = Done p' \<and>
      held p' = held p - set ss \<and> pool_inv ndebug p'"
    using debug_pool.release_each [of p ss] release_pool.release_each [of p ss] assms
    by (cases ndebug) auto
next
  fix s assume "\<not> ndebug \<and> unat s < unat (bp_capacity p) \<and> s \<notin> held p"
  then show "pool_release ndebug s p =
      AssertFail ''buffer pool double release, engine emitted two completions''"
    using assms by (simp add: pool_release_def pool_inv_def)
next
  assume "card (held p) = unat (bp_capacity p)"
  then have "bp_free_slots p = []" using card_held [OF assms] by (simp add: pool_available_def)
  then show "pool_acquire ndebug p = (if ndebug then Undefined
      else AssertFail ''buffer pool exhausted, more requests in flight than iodepth'')"
    by (simp add: pool_acquire_def)
next
  fix s :: u32 assume "unat (bp_capacity p) \<le> unat s"
  then show "pool_release ndebug s p =
      (if ndebug then Done p else AssertFail ''buffer pool release of an out of range slot'')"
    by (simp add: pool_release_def)
qed

theorem pool_discipline_witness:
  "let p = \<lparr>bp_storage = moved_from, bp_contents = [], bp_block_size = 8, bp_capacity = 2,
      bp_free_slots = [1, 0], bp_in_use = [False, False]\<rparr>
   in \<exists>s p'. pool_acquire False p = Done (s, p') \<and> s \<notin> held p \<and> pool_inv False p'"
proof -
  let ?p = "\<lparr>bp_storage = moved_from, bp_contents = [], bp_block_size = 8, bp_capacity = 2,
      bp_free_slots = [1, 0], bp_in_use = [False, False]\<rparr>"
  have lt: "unat (s :: u32) < 2 \<longleftrightarrow> s = 0 \<or> s = 1" for s
    by (auto simp: less_2_cases_iff word_unat_eq_iff)
  have h: "held ?p = {}" by (auto simp: held_def lt)
  then have "pool_inv False ?p" by (auto simp: pool_inv_def lt)
  from pool_discipline [OF this] h show ?thesis by (auto simp: Let_def)
qed

end
