(* ===== verification/File_Preparator.thy ===== *)
theory File_Preparator
  imports Engine_Api Buffer_Pool
begin

text \<open>
  \<open>FilePreparator\<close> (\<open>src/orchestrator/file_preparator.cpp\<close>): it creates the test files, fills them
  with random data, and deletes the ones it created. The system calls and the random words are
  parameters; the words of a file are numbered from the first one of its engine.
\<close>

section \<open>State and system calls\<close>

record 'w file_api =
  fa_strerror :: "int \<Rightarrow> string"
  fa_exists :: "string \<Rightarrow> 'w \<Rightarrow> bool \<times> 'w"
  fa_open :: "string \<Rightarrow> 'w \<Rightarrow> (int \<times> int) \<times> 'w"
  fa_write :: "int \<Rightarrow> 8 word list \<Rightarrow> 'w \<Rightarrow> (int \<times> int) \<times> 'w"
  fa_fallocate :: "int \<Rightarrow> int \<Rightarrow> 'w \<Rightarrow> (int \<times> int) \<times> 'w"
  fa_fsync :: "int \<Rightarrow> 'w \<Rightarrow> (int \<times> int) \<times> 'w"
  fa_close :: "int \<Rightarrow> 'w \<Rightarrow> (int \<times> int) \<times> 'w"
  fa_remove :: "string \<Rightarrow> 'w \<Rightarrow> 'w"
  fa_seed :: "'w \<Rightarrow> (nat \<Rightarrow> u64) \<times> 'w"

record file_preparator =
  fp_created :: "(string \<times> bool) list"
  fp_keep_files :: bool
  fp_cleaned :: bool

definition file_preparator_create :: "bool \<Rightarrow> file_preparator" where
  "file_preparator_create keep_files = \<lparr>fp_created = [], fp_keep_files = keep_files, fp_cleaned = False\<rparr>"

definition kChunkSize :: nat where "kChunkSize = 1048576"

section \<open>Filling a file\<close>

partial_function (option) write_fully ::
    "'w file_api \<Rightarrow> int \<Rightarrow> 8 word list \<Rightarrow> nat \<Rightarrow> 'w \<Rightarrow> (unit result \<times> 'w) option" where
  "write_fully api fd buf written w =
     (if written < length buf
      then case retry_on_eintr (fa_write api fd (drop written buf)) w of
          None \<Rightarrow> None
        | Some ((n, errno), w') \<Rightarrow>
            if n < 0
            then Some (Inl (system_error (fa_strerror api) errno ''write during file fill failed''), w')
            else write_fully api fd buf (written + nat n) w'
      else Some (Inr (), w))"

definition reserve_space :: "'w file_api \<Rightarrow> int \<Rightarrow> u64 \<Rightarrow> string \<Rightarrow> 'w \<Rightarrow> unit result \<times> 'w" where
  "reserve_space api fd file_size path w =
     (case fa_fallocate api fd (sint file_size) w of ((r, errno), w') \<Rightarrow>
        if r = 0 then (Inr (), w')
        else if errno = EOPNOTSUPP \<or> errno = ENOSYS then (Inr (), w')
        else (Inl (system_error (fa_strerror api) errno (''fallocate failed for '' @ sq path)), w'))"

text \<open>The random chunk: the next \<open>kChunkSize / sizeof(uint64_t)\<close> words, as bytes.\<close>

definition chunk_bytes :: "(nat \<Rightarrow> u64) \<Rightarrow> nat \<Rightarrow> 8 word list" where
  "chunk_bytes rng k = concat (map (\<lambda>i. bytes_of_word (rng i)) [k..<k + kChunkSize div 8])"

function fill_file ::
    "'w file_api \<Rightarrow> (nat \<Rightarrow> u64) \<Rightarrow> int \<Rightarrow> nat \<Rightarrow> nat \<Rightarrow> 'w \<Rightarrow> (unit result \<times> 'w) option" where
  "fill_file api rng fd k remaining w =
     (if remaining > 0
      then let to_write = min kChunkSize remaining in
           case write_fully api fd (take to_write (chunk_bytes rng k)) 0 w of
             None \<Rightarrow> None
           | Some (Inl e, w') \<Rightarrow> Some (Inl e, w')
           | Some (Inr _, w') \<Rightarrow> fill_file api rng fd (k + kChunkSize div 8) (remaining - to_write) w'
      else Some (Inr (), w))"
  by pat_completeness auto
termination
  by (relation "measure (\<lambda>(api, rng, fd, k, remaining, w). remaining)") (auto simp: kChunkSize_def)

declare fill_file.simps [simp del]

section \<open>Creating and cleaning up\<close>

text \<open>The \<open>try\<close> block of \<open>CreateAndFill\<close>.\<close>

definition fill_and_sync ::
    "'w file_api \<Rightarrow> int \<Rightarrow> job_config \<Rightarrow> 'w \<Rightarrow> (unit result \<times> 'w) option" where
  "fill_and_sync api fd config w =
     (case reserve_space api fd (jc_file_size config) (jc_filename config) w of
        (Inl e, w1) \<Rightarrow> Some (Inl e, w1)
      | (Inr _, w1) \<Rightarrow>
          (case fa_seed api w1 of (rng, w2) \<Rightarrow>
             case fill_file api rng fd 0 (unat (jc_file_size config)) w2 of
               None \<Rightarrow> None
             | Some (Inl e, w3) \<Rightarrow> Some (Inl e, w3)
             | Some (Inr _, w3) \<Rightarrow>
                 (case fa_fsync api fd w3 of ((r, errno), w4) \<Rightarrow>
                    if r \<noteq> 0
                    then Some (Inl (system_error (fa_strerror api) errno
                           (''fsync failed for '' @ sq (jc_filename config))), w4)
                    else Some (Inr (), w4))))"

definition create_and_fill ::
    "'w file_api \<Rightarrow> job_config \<Rightarrow> (file_preparator \<times> 'w, unit) prog" where
  "create_and_fill api config = (\<lambda>(p, w).
     case fa_exists api (jc_filename config) w of (pre_existed, w1) \<Rightarrow>
     case fa_open api (jc_filename config) w1 of ((fd, errno), w2) \<Rightarrow>
       if fd < 0
       then Some (Inl (system_error (fa_strerror api) errno
              (''failed to create file '' @ sq (jc_filename config))), (p, w2))
       else case fill_and_sync api fd config w2 of
           None \<Rightarrow> None
         | Some (Inl e, w3) \<Rightarrow> Some (Inl e, (p, snd (fa_close api fd w3)))
         | Some (Inr _, w3) \<Rightarrow>
             Some (Inr (), (p\<lparr>fp_created := fp_created p @ [(jc_filename config, pre_existed)]\<rparr>,
                            snd (fa_close api fd w3))))"

fun remove_created :: "'w file_api \<Rightarrow> bool \<Rightarrow> (string \<times> bool) list \<Rightarrow> 'w \<Rightarrow> 'w" where
  "remove_created api keep [] w = w"
| "remove_created api keep ((path, pre_existed) # files) w =
     (if keep then remove_created api keep files w
      else if pre_existed then remove_created api keep files w
      else remove_created api keep files (fa_remove api path w))"

definition file_cleanup :: "'w file_api \<Rightarrow> file_preparator \<times> 'w \<Rightarrow> file_preparator \<times> 'w" where
  "file_cleanup api = (\<lambda>(p, w).
     if fp_cleaned p then (p, w)
     else (p\<lparr>fp_cleaned := True\<rparr>, remove_created api (fp_keep_files p) (fp_created p) w))"

definition file_preparator_destroy :: "'w file_api \<Rightarrow> file_preparator \<times> 'w \<Rightarrow> 'w" where
  "file_preparator_destroy api = (\<lambda>(p, w).
     if fp_cleaned p \<or> fp_keep_files p then w else remove_created api False (fp_created p) w)"

section \<open>Writing is complete and in order\<close>

text \<open>
  What the program relies on of \<open>write\<close> on a regular file: \<open>holds bytes w\<close> says what the descriptor
  has been given; a count that is returned is positive, at most what was asked, and says how much of
  the buffer was appended; an error appends nothing.
\<close>

definition appends :: "'w file_api \<Rightarrow> int \<Rightarrow> (8 word list \<Rightarrow> 'w \<Rightarrow> bool) \<Rightarrow> bool" where
  "appends api fd holds \<longleftrightarrow>
     (\<forall>bs data w n err w'. holds bs w \<longrightarrow> data \<noteq> [] \<longrightarrow> fa_write api fd data w = ((n, err), w') \<longrightarrow>
        (n < 0 \<longrightarrow> holds bs w') \<and>
        (0 \<le> n \<longrightarrow> 1 \<le> n \<and> n \<le> int (length data) \<and> holds (bs @ take (nat n) data) w'))"

lemma appends_after_attempts:
  assumes "appends api fd holds" "holds bs w" "data \<noteq> []"
    and "\<forall>i \<in> {..<n}. interrupted (fa_write api fd data) (after_attempts (fa_write api fd data) i w)"
  shows "holds bs (after_attempts (fa_write api fd data) n w)"
  using assms(2,4)
proof (induction n arbitrary: w)
  case (Suc n)
  have "interrupted (fa_write api fd data) (after_attempts (fa_write api fd data) 0 w)" using Suc.prems(2) by blast
  then obtain w' where w': "fa_write api fd data w = ((- 1, EINTR), w')"
    by (cases "fa_write api fd data w") (auto simp: interrupted_def)
  then have h: "holds bs w'" using assms(1,3) Suc.prems(1) unfolding appends_def by force
  have step: "after_attempts (fa_write api fd data) (Suc i) w = after_attempts (fa_write api fd data) i w'" for i
    using w' by simp
  have "\<forall>i \<in> {..<n}. interrupted (fa_write api fd data) (after_attempts (fa_write api fd data) i w')"
    using Suc.prems(2) unfolding step [symmetric] by blast
  from Suc.IH [OF h this] show ?case by (simp only: step)
qed simp

lemma appends_retry:
  assumes "appends api fd holds" "holds bs w" "data \<noteq> []"
    and "retry_on_eintr (fa_write api fd data) w = Some ((n, err), w')"
  shows "(n < 0 \<longrightarrow> holds bs w') \<and>
    (0 \<le> n \<longrightarrow> 1 \<le> n \<and> n \<le> int (length data) \<and> holds (bs @ take (nat n) data) w')"
proof -
  let ?f = "fa_write api fd data"
  obtain k where k: "\<forall>i < k. interrupted ?f (after_attempts ?f i w)"
    "((n, err), w') = ?f (after_attempts ?f k w)"
    using retry_found [OF assms(4)] unfolding first_attempt_def by blast
  have "holds bs (after_attempts ?f k w)"
    by (rule appends_after_attempts [OF assms(1,2,3)]) (use k(1) in blast)
  with k(2) show ?thesis using assms(1,3) unfolding appends_def by metis
qed

text \<open>A call that is not interrupted for ever returns.\<close>

definition returns :: "('w \<Rightarrow> (int \<times> int) \<times> 'w) \<Rightarrow> bool" where
  "returns fn \<longleftrightarrow> (\<forall>w. retry_on_eintr fn w \<noteq> None)"

lemma write_fully_appends:
  assumes ap: "appends api fd holds" and ret: "\<And>data. returns (fa_write api fd data)"
  shows "holds bs w \<Longrightarrow> written \<le> length buf \<Longrightarrow>
    \<exists>r w'. write_fully api fd buf written w = Some (r, w') \<and>
      (case r of
         Inr _ \<Rightarrow> holds (bs @ drop written buf) w'
       | Inl e \<Rightarrow> (\<exists>k m x. k < length buf - written \<and> holds (bs @ take k (drop written buf)) w' \<and> e = SystemError m x))"
proof (induction "length buf - written" arbitrary: written bs w rule: less_induct)
  case less
  show ?case
  proof (cases "written < length buf")
    case False
    then show ?thesis using less.prems by (simp add: write_fully.simps)
  next
    case True
    let ?data = "drop written buf"
    have ne: "?data \<noteq> []" using True by simp
    obtain n err w1 where c: "retry_on_eintr (fa_write api fd ?data) w = Some ((n, err), w1)"
      using ret [of ?data] unfolding returns_def by (metis not_None_eq prod.collapse)
    note a = appends_retry [OF ap less.prems(1) ne c]
    show ?thesis
    proof (cases "n < 0")
      case True
      then show ?thesis using \<open>written < length buf\<close> c a
        by (auto simp: write_fully.simps [of api fd buf written w] system_error_def intro!: exI [of _ 0])
    next
      case False
      define n' where "n' = nat n"
      have n': "1 \<le> n'" "n' \<le> length ?data" "holds (bs @ take n' ?data) w1"
        using a False by (auto simp: n'_def)
      have lt: "length buf - (written + n') < length buf - written" "written + n' \<le> length buf"
        using n' True by auto
      have split: "take n' ?data @ drop (written + n') buf = ?data"
        by (metis append_take_drop_id drop_drop add.commute)
      have wf: "write_fully api fd buf written w = write_fully api fd buf (written + n') w1"
        using True False c by (simp add: write_fully.simps [of api fd buf written w] n'_def)
      obtain r w' where r: "write_fully api fd buf (written + n') w1 = Some (r, w')"
        "case r of
           Inr _ \<Rightarrow> holds ((bs @ take n' ?data) @ drop (written + n') buf) w'
         | Inl e \<Rightarrow> (\<exists>k m x. k < length buf - (written + n') \<and>
             holds ((bs @ take n' ?data) @ take k (drop (written + n') buf)) w' \<and> e = SystemError m x)"
        using less.hyps [OF lt(1) n'(3) lt(2)] by blast
      show ?thesis
      proof (cases r)
        case (Inr u)
        then have "holds (bs @ ?data) w'" using r(2) split by simp
        then show ?thesis using r(1) wf Inr by simp
      next
        case (Inl e)
        then obtain k m x where k: "k < length buf - (written + n')"
          "holds (bs @ take n' ?data @ take k (drop (written + n') buf)) w'" "e = SystemError m x"
          using r(2) by auto
        have "take n' ?data @ take k (drop (written + n') buf) = take (n' + k) ?data"
          by (simp only: take_add drop_drop add.commute [of written n'])
        then have "holds (bs @ take (n' + k) ?data) w' \<and> n' + k < length buf - written"
          using k lt(2) by simp
        then show ?thesis using r(1) wf Inl k(3) by auto
      qed
    qed
  qed
qed

text \<open>The bytes of a file of a given size: the words of the engine, the last one cut off.\<close>

lemma length_chunk_bytes: "length (chunk_bytes rng k) = kChunkSize"
proof -
  have "length (concat (map (\<lambda>i. bytes_of_word (rng i)) xs)) = 8 * length xs" for xs
    by (induction xs) simp_all
  then show ?thesis by (simp add: chunk_bytes_def kChunkSize_def)
qed

definition file_bytes :: "(nat \<Rightarrow> u64) \<Rightarrow> nat \<Rightarrow> nat \<Rightarrow> 8 word list" where
  "file_bytes rng k n = take n (concat (map (\<lambda>i. bytes_of_word (rng i)) [k..<k + (n + 7) div 8]))"

lemma length_words: "length (concat (map (\<lambda>i. bytes_of_word (rng i)) xs)) = 8 * length xs"
  by (induction xs) simp_all

lemma round_up_bound: "n \<le> 8 * ((n + 7) div 8)" for n :: nat
  by presburger

lemma length_file_bytes [simp]: "length (file_bytes rng k n) = n"
  using round_up_bound [of n] by (simp add: file_bytes_def length_words min_def)

lemma file_bytes_small:
  assumes "n \<le> kChunkSize"
  shows "take n (chunk_bytes rng k) = file_bytes rng k n"
proof -
  let ?c = "kChunkSize div 8" and ?m = "(n + 7) div 8"
  have m: "?m \<le> ?c" using assms by (simp add: kChunkSize_def)
  then have "[k..<k + ?c] = [k..<k + ?m] @ [k + ?m..<k + ?c]"
    using upt_add_eq_append [of k "k + ?m" "?c - ?m"] by simp
  moreover have "n \<le> 8 * ?m" by (rule round_up_bound)
  ultimately show ?thesis
    by (simp add: chunk_bytes_def file_bytes_def length_words)
qed

lemma file_bytes_chunk:
  assumes "kChunkSize < n"
  shows "file_bytes rng k n = chunk_bytes rng k @ file_bytes rng (k + kChunkSize div 8) (n - kChunkSize)"
proof -
  let ?c = "kChunkSize div 8"
  have m: "(n + 7) div 8 = ?c + (n - kChunkSize + 7) div 8"
    using assms by (simp add: kChunkSize_def)
  have "[k..<k + (n + 7) div 8] = [k..<k + ?c] @ [k + ?c..<k + ?c + (n - kChunkSize + 7) div 8]"
    unfolding m add.assoc [symmetric] by (rule upt_add_eq_append) (simp only: le_add1)
  then show ?thesis
    using assms length_chunk_bytes [of rng k]
    by (simp add: file_bytes_def chunk_bytes_def)
qed

lemma fill_file_appends:
  assumes ap: "appends api fd holds" and ret: "\<And>data. returns (fa_write api fd data)"
  shows "holds bs w \<Longrightarrow>
    \<exists>r w'. fill_file api rng fd k n w = Some (r, w') \<and>
      (case r of
         Inr _ \<Rightarrow> holds (bs @ file_bytes rng k n) w'
       | Inl e \<Rightarrow> (\<exists>j m x. j < n \<and> holds (bs @ take j (file_bytes rng k n)) w' \<and> e = SystemError m x))"
proof (induction n arbitrary: bs k w rule: less_induct)
  case (less n)
  consider "n = 0" | "0 < n" "n \<le> kChunkSize" | "kChunkSize < n" by linarith
  then show ?case
  proof cases
    case 1
    then show ?thesis using less.prems by (simp add: fill_file.simps file_bytes_def)
  next
    case 2
    then have mn: "min kChunkSize n = n" "n - n = 0" by simp_all
    have chunk: "take n (chunk_bytes rng k) = file_bytes rng k n" by (rule file_bytes_small [OF 2(2)])
    obtain r w' where
      r: "write_fully api fd (file_bytes rng k n) 0 w = Some (r, w')"
      "case r of
         Inr _ \<Rightarrow> holds (bs @ file_bytes rng k n) w'
       | Inl e \<Rightarrow> (\<exists>j m x. j < n \<and> holds (bs @ take j (file_bytes rng k n)) w' \<and> e = SystemError m x)"
      using write_fully_appends [OF ap ret less.prems, of 0 "file_bytes rng k n"]
      by (simp only: drop_0 diff_zero length_file_bytes le0 simp_thms) blast
    have "fill_file api rng fd k n w = Some (r, w')"
      using 2(1) r(1) unfolding fill_file.simps [of api rng fd k n] Let_def mn chunk
      by (cases r) (simp_all add: fill_file.simps [of _ _ _ _ 0])
    then show ?thesis using r(2) by blast
  next
    case 3
    let ?k = "k + kChunkSize div 8" and ?n = "n - kChunkSize" and ?c = "chunk_bytes rng k"
    have mn: "min kChunkSize n = kChunkSize" using 3 by simp
    have chunk: "take kChunkSize ?c = ?c" using length_chunk_bytes [of rng k] by simp
    obtain r w1 where
      r: "write_fully api fd ?c 0 w = Some (r, w1)"
      "case r of
         Inr _ \<Rightarrow> holds (bs @ ?c) w1
       | Inl e \<Rightarrow> (\<exists>j m x. j < length ?c \<and> holds (bs @ take j ?c) w1 \<and> e = SystemError m x)"
      using write_fully_appends [OF ap ret less.prems, of 0 ?c]
      by (simp only: drop_0 diff_zero le0 simp_thms) blast
    have pos: "0 < n" using 3 by simp
    show ?thesis
    proof (cases r)
      case (Inl e)
      then obtain j m x where j: "j < kChunkSize" "holds (bs @ take j ?c) w1" "e = SystemError m x"
        using r(2) by (auto simp: length_chunk_bytes)
      have "take j (file_bytes rng k n) = take j ?c"
        using j(1) by (simp add: file_bytes_chunk [OF 3] length_chunk_bytes)
      then have "j < n \<and> holds (bs @ take j (file_bytes rng k n)) w1" using j 3 by simp
      moreover have "fill_file api rng fd k n w = Some (Inl e, w1)"
        using pos r(1) Inl unfolding fill_file.simps [of api rng fd k n] Let_def mn chunk by simp
      ultimately show ?thesis using j(3) by auto
    next
      case (Inr u)
      then have h: "holds (bs @ ?c) w1" using r(2) by simp
      have lt: "?n < n" using 3 by (simp add: kChunkSize_def)
      have ff: "fill_file api rng fd k n w = fill_file api rng fd ?k ?n w1"
        using pos r(1) Inr unfolding fill_file.simps [of api rng fd k n] Let_def mn chunk by simp
      from less.IH [OF lt h, of ?k] obtain r' w' where
        r': "fill_file api rng fd ?k ?n w1 = Some (r', w')"
        "case r' of
           Inr _ \<Rightarrow> holds ((bs @ ?c) @ file_bytes rng ?k ?n) w'
         | Inl e \<Rightarrow> (\<exists>j m x. j < ?n \<and> holds ((bs @ ?c) @ take j (file_bytes rng ?k ?n)) w' \<and>
             e = SystemError m x)"
        by blast
      show ?thesis
      proof (cases r')
        case (Inr u')
        then show ?thesis using r' ff by (simp add: file_bytes_chunk [OF 3])
      next
        case (Inl e)
        then obtain j m x where j: "j < ?n" "holds (bs @ ?c @ take j (file_bytes rng ?k ?n)) w'"
          "e = SystemError m x" using r'(2) by auto
        have "take (kChunkSize + j) (file_bytes rng k n) = ?c @ take j (file_bytes rng ?k ?n)"
          by (simp add: file_bytes_chunk [OF 3] length_chunk_bytes)
        then have "kChunkSize + j < n \<and> holds (bs @ take (kChunkSize + j) (file_bytes rng k n)) w'"
          using j by simp
        then show ?thesis using r'(1) ff Inl j(3) by auto
      qed
    qed
  qed
qed

section \<open>Creating a file\<close>

text \<open>
  What the program relies on of the file system. \<open>table\<close> maps the open descriptors to paths, and
  \<open>stored path bs w\<close> says that the file starts with the bytes \<open>bs\<close> and that the next write through a
  descriptor opened for it goes behind them.
\<close>

definition posix_files ::
    "'w file_api \<Rightarrow> ('w \<Rightarrow> int \<Rightarrow> string option) \<Rightarrow> (string \<Rightarrow> 8 word list \<Rightarrow> 'w \<Rightarrow> bool) \<Rightarrow> bool" where
  "posix_files api table stored \<longleftrightarrow>
     (\<forall>path w. table (snd (fa_exists api path w)) = table w) \<and>
     (\<forall>path w fd e w'. fa_open api path w = ((fd, e), w') \<longrightarrow>
        (if fd < 0 then table w' = table w
         else table w fd = None \<and> table w' = (table w)(fd \<mapsto> path) \<and> stored path [] w')) \<and>
     (\<forall>fd path bs data w n e w'. table w fd = Some path \<longrightarrow> stored path bs w \<longrightarrow> data \<noteq> [] \<longrightarrow>
        fa_write api fd data w = ((n, e), w') \<longrightarrow> table w' = table w \<and>
          (if n < 0 then stored path bs w'
           else 1 \<le> n \<and> n \<le> int (length data) \<and> stored path (bs @ take (nat n) data) w')) \<and>
     (\<forall>fd size w. table (snd (fa_fallocate api fd size w)) = table w \<and>
        (\<forall>path bs. stored path bs w \<longrightarrow> stored path bs (snd (fa_fallocate api fd size w)))) \<and>
     (\<forall>w. table (snd (fa_seed api w)) = table w \<and>
        (\<forall>path bs. stored path bs w \<longrightarrow> stored path bs (snd (fa_seed api w)))) \<and>
     (\<forall>fd w. table (snd (fa_fsync api fd w)) = table w \<and>
        (\<forall>path bs. stored path bs w \<longrightarrow> stored path bs (snd (fa_fsync api fd w)))) \<and>
     (\<forall>fd w. table (snd (fa_close api fd w)) = (table w)(fd := None) \<and>
        (\<forall>path bs. stored path bs w \<longrightarrow> stored path bs (snd (fa_close api fd w))))"

lemma posix_files_open:
  assumes "posix_files api table stored" "fa_open api path w = ((fd, e), w')"
  shows "if fd < 0 then table w' = table w
    else table w fd = None \<and> table w' = (table w)(fd \<mapsto> path) \<and> stored path [] w'"
  using assms unfolding posix_files_def by metis

lemma posix_files_close:
  assumes "posix_files api table stored"
  shows "table (snd (fa_close api fd w)) = (table w)(fd := None)"
    and "stored path bs w \<Longrightarrow> stored path bs (snd (fa_close api fd w))"
  using assms unfolding posix_files_def by metis+

lemma posix_files_appends:
  assumes "posix_files api table stored" "T fd = Some path"
  shows "appends api fd (\<lambda>bs w. table w = T \<and> stored path bs w)"
  unfolding appends_def
proof (intro allI impI)
  fix bs data w n err w'
  assume h: "table w = T \<and> stored path bs w" and ne: "data \<noteq> []" and c: "fa_write api fd data w = ((n, err), w')"
  have "table w fd = Some path" using h assms(2) by simp
  with assms(1) h ne c have
    "table w' = table w \<and> (if n < 0 then stored path bs w'
       else 1 \<le> n \<and> n \<le> int (length data) \<and> stored path (bs @ take (nat n) data) w')"
    unfolding posix_files_def by metis
  then show "(n < 0 \<longrightarrow> table w' = T \<and> stored path bs w') \<and>
    (0 \<le> n \<longrightarrow> 1 \<le> n \<and> n \<le> int (length data) \<and> table w' = T \<and> stored path (bs @ take (nat n) data) w')"
    using h by (cases "n < 0") simp_all
qed

lemma fill_and_sync_stores:
  assumes fs: "posix_files api table stored" and ret: "\<And>data. returns (fa_write api fd data)"
    and fd: "table w fd = Some (jc_filename config)" and start: "stored (jc_filename config) [] w"
  shows "\<exists>r w'. fill_and_sync api fd config w = Some (r, w') \<and> table w' = table w \<and>
    (case r of
       Inr _ \<Rightarrow> (\<exists>ws. stored (jc_filename config)
                    (file_bytes (fst (fa_seed api ws)) 0 (unat (jc_file_size config))) w')
     | Inl e \<Rightarrow> (\<exists>m x. e = SystemError m x))"
proof -
  let ?path = "jc_filename config" and ?n = "unat (jc_file_size config)"
  obtain a errno w1 where al: "fa_fallocate api fd (sint (jc_file_size config)) w = ((a, errno), w1)"
    by (metis prod.collapse)
  have t1: "table w1 = table w" "stored ?path [] w1"
    using fs start al unfolding posix_files_def by (metis snd_conv)+
  show ?thesis
  proof (cases "reserve_space api fd (jc_file_size config) ?path w")
    case (Pair r1 w1')
    have w1': "w1' = w1" using Pair al by (auto simp: reserve_space_def split: if_splits)
    show ?thesis
    proof (cases r1)
      case (Inl e)
      then have "\<exists>m x. e = SystemError m x"
        using Pair al by (auto simp: reserve_space_def system_error_def split: if_splits)
      then show ?thesis using Pair Inl w1' t1(1) by (simp add: fill_and_sync_def)
    next
      case (Inr u)
      obtain rng w2 where sd: "fa_seed api w1 = (rng, w2)" by (metis prod.collapse)
      have t2: "table w2 = table w" "stored ?path [] w2"
        using fs t1 sd unfolding posix_files_def by (metis snd_conv)+
      obtain r3 w3 where ff: "fill_file api rng fd 0 ?n w2 = Some (r3, w3)" "table w3 = table w"
        "case r3 of Inr _ \<Rightarrow> stored ?path (file_bytes rng 0 ?n) w3
         | Inl e \<Rightarrow> (\<exists>m x. e = SystemError m x)"
        using fill_file_appends [OF posix_files_appends [where T = "table w" and fd = fd, OF fs fd] ret,
            where bs = "[]" and w = w2 and rng = rng and k = 0 and n = ?n] t2
        by (fastforce split: sum.splits)
      obtain r4 errno4 w4 where sy: "fa_fsync api fd w3 = ((r4, errno4), w4)" by (metis prod.collapse)
      have t4: "table w4 = table w3" "\<And>bs. stored ?path bs w3 \<Longrightarrow> stored ?path bs w4"
        using fs sy unfolding posix_files_def by (metis snd_conv)+
      have rng: "rng = fst (fa_seed api w1)" using sd by simp
      show ?thesis
      proof (cases r3)
        case (Inl e)
        then show ?thesis using Pair Inr w1' sd ff by (simp add: fill_and_sync_def)
      next
        case r3: (Inr u')
        have eq: "fill_and_sync api fd config w =
          (if r4 \<noteq> 0 then Some (Inl (system_error (fa_strerror api) errno4 (''fsync failed for '' @ sq ?path)), w4)
           else Some (Inr (), w4))"
          using Pair Inr r3 w1' sd ff(1) sy by (simp add: fill_and_sync_def)
        show ?thesis
        proof (cases "r4 = 0")
          case True
          then show ?thesis using eq r3 ff(2,3) t4 rng by auto
        next
          case False
          then show ?thesis using eq ff(2) t4(1) by (simp add: system_error_def)
        qed
      qed
    qed
  qed
qed

lemma create_and_fill_outcome:
  assumes fs: "posix_files api table stored" and ret: "\<And>fd data. returns (fa_write api fd data)"
  shows "\<exists>r p' w'. create_and_fill api config (p, w) = Some (r, (p', w')) \<and> table w' = table w \<and>
    (case r of
       Inr _ \<Rightarrow> p' = p\<lparr>fp_created := fp_created p @ [(jc_filename config, fst (fa_exists api (jc_filename config) w))]\<rparr> \<and>
         (\<exists>ws. stored (jc_filename config)
                 (file_bytes (fst (fa_seed api ws)) 0 (unat (jc_file_size config))) w')
     | Inl e \<Rightarrow> p' = p \<and> (\<exists>m x. e = SystemError m x))"
proof -
  let ?path = "jc_filename config"
  obtain pre w1 where ex: "fa_exists api ?path w = (pre, w1)" by (metis prod.collapse)
  obtain fd errno w2 where op: "fa_open api ?path w1 = ((fd, errno), w2)" by (metis prod.collapse)
  have t1: "table w1 = table w" using fs ex unfolding posix_files_def by (metis snd_conv)
  have o: "if fd < 0 then table w2 = table w1
    else table w1 fd = None \<and> table w2 = (table w1)(fd \<mapsto> ?path) \<and> stored ?path [] w2"
    by (rule posix_files_open [OF fs op])
  show ?thesis
  proof (cases "fd < 0")
    case True
    then show ?thesis using o t1 ex op by (simp add: create_and_fill_def system_error_def)
  next
    case False
    with o have o': "table w1 fd = None" "table w2 = (table w1)(fd \<mapsto> ?path)" "stored ?path [] w2" by simp_all
    have at: "table w2 fd = Some ?path" using o'(2) by simp
    obtain r w3 where r: "fill_and_sync api fd config w2 = Some (r, w3)" "table w3 = table w2"
      "case r of
         Inr _ \<Rightarrow> (\<exists>ws. stored ?path (file_bytes (fst (fa_seed api ws)) 0 (unat (jc_file_size config))) w3)
       | Inl e \<Rightarrow> (\<exists>m x. e = SystemError m x)"
      using fill_and_sync_stores [OF fs ret at o'(3)] by blast
    let ?w = "snd (fa_close api fd w3)"
    have close: "table ?w = (table w3)(fd := None)" "\<And>bs. stored ?path bs w3 \<Longrightarrow> stored ?path bs ?w"
      by (rule posix_files_close [OF fs])+
    have t: "table ?w = table w" using close(1) r(2) o'(1,2) t1 by (auto simp: fun_eq_iff)
    show ?thesis
    proof (cases r)
      case (Inl e)
      then show ?thesis using ex op False r(1,3) t by (simp add: create_and_fill_def)
    next
      case (Inr u)
      then have "\<exists>ws. stored ?path (file_bytes (fst (fa_seed api ws)) 0 (unat (jc_file_size config))) ?w"
        using r(3) close(2) by auto
      then show ?thesis using ex op False r(1) Inr t by (simp add: create_and_fill_def)
    qed
  qed
qed

text \<open>
  C10. \<open>CreateAndFill\<close> returns or throws, leaving no descriptor open either way. When it returns, the
  file starts with exactly \<open>file_size\<close> bytes of one stream of random words and the path is tracked with
  the flag of whether it was there before the call. When it throws, it is \<open>std::system_error\<close>, and
  nothing is tracked, although the file may have been created.
\<close>

theorem create_and_fill_correct:
  assumes fs: "posix_files api table stored" and ret: "\<And>fd data. returns (fa_write api fd data)"
  shows "\<exists>r p' w'. create_and_fill api config (p, w) = Some (r, (p', w')) \<and> table w' = table w \<and>
    (case r of
       Inr _ \<Rightarrow> p' = p\<lparr>fp_created := fp_created p @ [(jc_filename config, fst (fa_exists api (jc_filename config) w))]\<rparr> \<and>
         (\<exists>ws. stored (jc_filename config)
                 (file_bytes (fst (fa_seed api ws)) 0 (unat (jc_file_size config))) w')
     | Inl e \<Rightarrow> p' = p \<and> (\<exists>m x. e = SystemError m x))"
  using create_and_fill_outcome [OF fs ret] .

text \<open>A file system with one descriptor, whose writes take five bytes at a time.\<close>

definition demo_files :: "((int \<Rightarrow> string option) \<times> (string \<Rightarrow> 8 word list)) file_api" where
  "demo_files =
     \<lparr>fa_strerror = (\<lambda>_. ''error''),
      fa_exists = (\<lambda>path w. (False, w)),
      fa_open = (\<lambda>path (t, c). if t 3 = None then ((3, 0), (t(3 \<mapsto> path), c(path := []))) else ((- 1, 24), (t, c))),
      fa_write = (\<lambda>fd data (t, c). case t fd of
          None \<Rightarrow> ((- 1, 9), (t, c))
        | Some path \<Rightarrow> ((int (min 5 (length data)), 0), (t, c(path := c path @ take 5 data)))),
      fa_fallocate = (\<lambda>fd size w. ((0, 0), w)),
      fa_fsync = (\<lambda>fd w. ((0, 0), w)),
      fa_close = (\<lambda>fd (t, c). ((0, 0), (t(fd := None), c))),
      fa_remove = (\<lambda>path (t, c). (t, c(path := []))),
      fa_seed = (\<lambda>w. (\<lambda>i. 7, w))\<rparr>"

theorem create_and_fill_correct_witness:
  "\<exists>r p' w'. create_and_fill demo_files default_job (file_preparator_create False, (\<lambda>_. None, \<lambda>_. [])) =
       Some (r, (p', w')) \<and> fst w' = (\<lambda>_. None) \<and>
     (case r of
        Inr _ \<Rightarrow> p' = (file_preparator_create False)\<lparr>fp_created := [(jc_filename default_job, False)]\<rparr> \<and>
          (\<exists>ws. snd w' (jc_filename default_job) =
             file_bytes (fst (fa_seed demo_files ws)) 0 (unat (jc_file_size default_job)))
      | Inl e \<Rightarrow> p' = file_preparator_create False \<and> (\<exists>m x. e = SystemError m x))"
proof -
  have fs: "posix_files demo_files fst (\<lambda>path bs w. snd w path = bs)"
    by (auto simp: posix_files_def demo_files_def min_def Suc_le_eq
        split: if_splits option.splits)
  have ret: "returns (fa_write demo_files fd data)" for fd data
    by (auto simp: returns_def demo_files_def retry_on_eintr.simps split: option.splits)
  have ex: "fst (fa_exists demo_files path w) = False" for path w by (simp add: demo_files_def)
  have created: "fp_created (file_preparator_create False) = []" by (simp add: file_preparator_create_def)
  show ?thesis
    using create_and_fill_correct [OF fs ret, of default_job "file_preparator_create False" "(\<lambda>_. None, \<lambda>_. [])"]
    by (simp only: ex created append_Nil fst_conv)
qed

section \<open>Cleaning up\<close>

text \<open>The tracked files that were not there before.\<close>

definition created_paths :: "file_preparator \<Rightarrow> string list" where
  "created_paths p = map fst (filter (\<lambda>f. \<not> snd f) (fp_created p))"

lemma remove_created_fold:
  "remove_created api keep files w =
     fold (fa_remove api) (if keep then [] else map fst (filter (\<lambda>f. \<not> snd f) files)) w"
  by (induction api keep files w rule: remove_created.induct) simp_all

text \<open>
  \<open>Cleanup\<close> removes, in order of creation, exactly the tracked files that did not exist before,
  and none with \<open>keep_files\<close>. A second \<open>Cleanup\<close> does nothing, nor does the destructor after a
  \<open>Cleanup\<close>; without one the destructor removes the same files.
\<close>

lemma cleanup_removes_created:
  "file_cleanup api (p, w) =
     (p\<lparr>fp_cleaned := True\<rparr>,
      fold (fa_remove api) (if fp_cleaned p \<or> fp_keep_files p then [] else created_paths p) w) \<and>
   file_cleanup api (file_cleanup api (p, w)) = file_cleanup api (p, w) \<and>
   file_preparator_destroy api (file_cleanup api (p, w)) = snd (file_cleanup api (p, w)) \<and>
   file_preparator_destroy api (p, w) = snd (file_cleanup api (p, w))"
  by (cases p) (auto simp: file_cleanup_def file_preparator_destroy_def remove_created_fold created_paths_def)

end
