(* ===== verification/Blocking_Engines.thy ===== *)
theory Blocking_Engines
  imports Engine_Api
begin

text \<open>
  \<open>PsyncEngine\<close> (\<open>src/engine/psync_engine.cpp\<close>) and \<open>SyncEngine\<close> (\<open>src/engine/sync_engine.cpp\<close>): the
  system call runs inside \<open>SubmitIO\<close> and its completion waits for the next poll. The two classes
  have the same fields and, but for \<open>SubmitIO\<close>, the same text with their own name in the messages,
  which is the argument \<open>cls\<close>. The \<open>default\<close> branch of the switch over the direction has no
  counterpart: the enumeration has two values.
\<close>

section \<open>State\<close>

record blocking_engine =
  be_fd :: int
  be_direct_effective :: bool
  be_has_completion :: bool
  be_last_completion :: io_completion

definition no_completion :: io_completion where
  "no_completion = \<lparr>cp_id = 0, cp_bytes = 0, cp_direction = Dir_kRead, cp_success = False,
     cp_error = 0, cp_submit_time = 0\<rparr>"

definition new_blocking_engine :: blocking_engine where
  "new_blocking_engine = \<lparr>be_fd = - 1, be_direct_effective = False, be_has_completion = False,
     be_last_completion = no_completion\<rparr>"

type_synonym 'w blocking_state = "blocking_engine \<times> 'w"

section \<open>Operations of both engines\<close>

definition blocking_open :: "string \<Rightarrow> 'w os_api \<Rightarrow> job_config \<Rightarrow> ('w blocking_state, unit) prog" where
  "blocking_open cls os config = (\<lambda>(e, w).
     if be_fd e \<ge> 0 then Some (Inl (RuntimeError (cls @ ''::Open -- engine is already open'')), (e, w))
     else case open_file_with_direct_fallback os (jc_filename config) (jc_direct config) w of
         (Inl ex, w') \<Rightarrow> Some (Inl ex, (e, w'))
       | (Inr (fd, direct_effective), w') \<Rightarrow>
           Some (Inr (), (e\<lparr>be_fd := fd, be_direct_effective := direct_effective\<rparr>, w')))"

text \<open>The completion of a call that returned \<open>r\<close>; \<open>static_cast<ssize_t>\<close> reads the length as signed.\<close>

definition call_completion :: "io_request \<Rightarrow> int \<Rightarrow> int \<Rightarrow> io_completion" where
  "call_completion rq r saved_errno =
     \<lparr>cp_id = rq_id rq, cp_bytes = (if r \<ge> 0 then r else 0), cp_direction = rq_direction rq,
      cp_success = (if r = - 1 then False else if r \<noteq> sint (rq_length rq) then False else True),
      cp_error = (if r = - 1 then saved_errno else if r \<noteq> sint (rq_length rq) then EIO else 0),
      cp_submit_time = rq_submit_time rq\<rparr>"

definition psync_submit :: "'w os_api \<Rightarrow> io_request \<Rightarrow> ('w blocking_state, unit) prog" where
  "psync_submit os rq = (\<lambda>(e, w).
     if be_fd e < 0 then Some (Inl (RuntimeError ''PsyncEngine::SubmitIO -- engine is not open''), (e, w))
     else if be_has_completion e
     then Some (Inl (LogicError ''PsyncEngine::SubmitIO -- previous completion not yet polled''), (e, w))
     else case retry_on_eintr (case rq_direction rq of
              Dir_kRead \<Rightarrow> os_pread os (be_fd e) (rq_buffer rq) (rq_length rq) (rq_offset rq)
            | Dir_kWrite \<Rightarrow> os_pwrite os (be_fd e) (rq_buffer rq) (rq_length rq) (rq_offset rq)) w of
         None \<Rightarrow> None
       | Some ((r, saved_errno), w') \<Rightarrow>
           Some (Inr (), (e\<lparr>be_last_completion := call_completion rq r saved_errno,
                           be_has_completion := True\<rparr>, w')))"

definition sync_submit :: "'w os_api \<Rightarrow> io_request \<Rightarrow> ('w blocking_state, unit) prog" where
  "sync_submit os rq = (\<lambda>(e, w).
     if be_fd e < 0 then Some (Inl (RuntimeError ''SyncEngine::SubmitIO -- engine is not open''), (e, w))
     else if be_has_completion e
     then Some (Inl (LogicError ''SyncEngine::SubmitIO -- previous completion not yet polled''), (e, w))
     else case os_lseek os (be_fd e) (rq_offset rq) w of ((seek_result, seek_errno), w1) \<Rightarrow>
       if seek_result = - 1
       then Some (Inr (), (e\<lparr>be_last_completion :=
              \<lparr>cp_id = rq_id rq, cp_bytes = 0, cp_direction = rq_direction rq, cp_success = False,
               cp_error = seek_errno, cp_submit_time = rq_submit_time rq\<rparr>,
              be_has_completion := True\<rparr>, w1))
       else case retry_on_eintr (case rq_direction rq of
              Dir_kRead \<Rightarrow> os_read os (be_fd e) (rq_buffer rq) (rq_length rq)
            | Dir_kWrite \<Rightarrow> os_write os (be_fd e) (rq_buffer rq) (rq_length rq)) w1 of
         None \<Rightarrow> None
       | Some ((r, saved_errno), w') \<Rightarrow>
           Some (Inr (), (e\<lparr>be_last_completion := call_completion rq r saved_errno,
                           be_has_completion := True\<rparr>, w')))"

definition blocking_poll :: "int \<Rightarrow> int \<Rightarrow> ('w blocking_state, io_completion list) prog" where
  "blocking_poll min_events max_events = (\<lambda>(e, w).
     if \<not> be_has_completion e \<or> max_events < 1 then Some (Inr [], (e, w))
     else Some (Inr [be_last_completion e], (e\<lparr>be_has_completion := False\<rparr>, w)))"

definition blocking_close :: "'w os_api \<Rightarrow> ('w blocking_state, unit) prog" where
  "blocking_close os = (\<lambda>(e, w).
     let w' = (if be_fd e \<ge> 0 then snd (os_close os (be_fd e) w) else w);
         e' = (if be_fd e \<ge> 0 then e\<lparr>be_fd := - 1\<rparr> else e)
     in Some (Inr (), (e'\<lparr>be_has_completion := False, be_direct_effective := False\<rparr>, w')))"

definition psync_engine :: "'w os_api \<Rightarrow> 'w blocking_state engine_ops" where
  "psync_engine os =
     \<lparr>eo_open = blocking_open ''PsyncEngine'' os, eo_submit = psync_submit os, eo_poll = blocking_poll,
      eo_close = blocking_close os, eo_direct = (\<lambda>(e, w). be_direct_effective e)\<rparr>"

definition sync_engine :: "'w os_api \<Rightarrow> 'w blocking_state engine_ops" where
  "sync_engine os =
     \<lparr>eo_open = blocking_open ''SyncEngine'' os, eo_submit = sync_submit os, eo_poll = blocking_poll,
      eo_close = blocking_close os, eo_direct = (\<lambda>(e, w). be_direct_effective e)\<rparr>"

section \<open>They fulfil the contract\<close>

definition blocking_rep :: "'w blocking_state \<Rightarrow> (u64 \<Rightarrow> submit_info option) \<Rightarrow> bool" where
  "blocking_rep s p \<longleftrightarrow>
     (if be_has_completion (fst s)
      then \<exists>info. p = [cp_id (be_last_completion (fst s)) \<mapsto> info] \<and>
             completes info (be_last_completion (fst s))
      else p = Map.empty)"

lemma call_completion_completes: "completes (info_of rq) (call_completion rq r err)"
  by (auto simp: completes_def call_completion_def info_of_def)

lemma call_completion_id [simp]: "cp_id (call_completion rq r err) = rq_id rq"
  by (simp add: call_completion_def)

lemma blocking_submitted:
  "blocking_rep (e, w) Map.empty \<Longrightarrow> completes (info_of rq) c \<Longrightarrow> cp_id c = rq_id rq \<Longrightarrow>
    blocking_rep (e\<lparr>be_last_completion := c, be_has_completion := True\<rparr>, w') [rq_id rq \<mapsto> info_of rq]"
  by (auto simp: blocking_rep_def)

lemma psync_submit_cases:
  assumes "psync_submit os rq (e, w) = Some (r, (e', w'))"
  shows "(\<exists>x. r = Inl x \<and> e' = e \<and> w' = w) \<or>
    r = Inr () \<and> \<not> be_has_completion e \<and>
      (\<exists>c. e' = e\<lparr>be_last_completion := c, be_has_completion := True\<rparr> \<and> cp_id c = rq_id rq \<and>
         completes (info_of rq) c)"
  using assms unfolding psync_submit_def
  by (auto simp: call_completion_completes split: if_splits option.splits)

lemma seek_failure_completes:
  "completes (info_of rq) \<lparr>cp_id = rq_id rq, cp_bytes = 0, cp_direction = rq_direction rq,
     cp_success = False, cp_error = err, cp_submit_time = rq_submit_time rq\<rparr>"
  by (simp add: completes_def info_of_def)

lemma sync_submit_cases:
  assumes "sync_submit os rq (e, w) = Some (r, (e', w'))"
  shows "(\<exists>x. r = Inl x \<and> e' = e \<and> w' = w) \<or>
    r = Inr () \<and> \<not> be_has_completion e \<and>
      (\<exists>c. e' = e\<lparr>be_last_completion := c, be_has_completion := True\<rparr> \<and> cp_id c = rq_id rq \<and>
         completes (info_of rq) c)"
proof -
  obtain x err w1 where l: "os_lseek os (be_fd e) (rq_offset rq) w = ((x, err), w1)" by (metis prod.exhaust)
  consider "be_fd e < 0 \<or> be_has_completion e" | "\<not> be_fd e < 0" "\<not> be_has_completion e" "x = - 1"
    | "\<not> be_fd e < 0" "\<not> be_has_completion e" "x \<noteq> - 1" by blast
  then show ?thesis
  proof cases
    case 1
    then show ?thesis using assms by (auto simp: sync_submit_def split: if_splits)
  next
    case 2
    then show ?thesis using assms l seek_failure_completes [of rq err] by (auto simp: sync_submit_def)
  next
    case 3
    then show ?thesis using assms l unfolding sync_submit_def
      by (auto simp: call_completion_completes split: option.splits)
  qed
qed

lemma restrict_single [simp]: "[i \<mapsto> x] |` (- {i}) = Map.empty"
  by (simp add: restrict_map_def fun_eq_iff)

lemma blocking_contract:
  assumes sub: "\<And>rq e w r e' w'. eo_submit ops rq (e, w) = Some (r, (e', w')) \<Longrightarrow>
      (\<exists>x. r = Inl x \<and> e' = e \<and> w' = w) \<or>
      r = Inr () \<and> \<not> be_has_completion e \<and>
        (\<exists>c. e' = e\<lparr>be_last_completion := c, be_has_completion := True\<rparr> \<and> cp_id c = rq_id rq \<and>
           completes (info_of rq) c)"
    and poll: "eo_poll ops = blocking_poll"
  shows "prompt_engine ops blocking_rep"
proof
  fix s s' :: "'a blocking_state" and p rq
  assume r: "blocking_rep s p" and "eo_submit ops rq s = Some (Inr (), s')"
  with sub [of rq "fst s" "snd s" "Inr ()" "fst s'" "snd s'"]
  obtain c where "\<not> be_has_completion (fst s)" "cp_id c = rq_id rq" "completes (info_of rq) c"
    "fst s' = (fst s)\<lparr>be_last_completion := c, be_has_completion := True\<rparr>" by auto
  with r show "p (rq_id rq) = None \<and> blocking_rep s' (p(rq_id rq \<mapsto> info_of rq))"
    by (auto simp: blocking_rep_def)
next
  fix s s' :: "'a blocking_state" and p rq ex
  assume r: "blocking_rep s p" and "eo_submit ops rq s = Some (Inl ex, s')"
  with sub [of rq "fst s" "snd s" "Inl ex" "fst s'" "snd s'"] show "blocking_rep s' p"
    by (auto simp: blocking_rep_def)
next
  fix s s' :: "'a blocking_state" and p mn mx cs
  assume r: "blocking_rep s p" and e: "eo_poll ops mn mx s = Some (Inr cs, s')"
  show "distinct (map cp_id cs) \<and>
      (\<forall>c \<in> set cs. \<exists>info. p (cp_id c) = Some info \<and> completes info c) \<and>
      blocking_rep s' (p |` (- cp_id ` set cs))"
  proof (cases "\<not> be_has_completion (fst s) \<or> mx < 1")
    case True
    then have "cs = []" "s' = s" using e by (auto simp: poll blocking_poll_def split: prod.splits if_splits)
    then show ?thesis using r by simp
  next
    case False
    then have "cs = [be_last_completion (fst s)]" "\<not> be_has_completion (fst s')"
      using e by (auto simp: poll blocking_poll_def split: prod.splits)
    moreover obtain info where "p = [cp_id (be_last_completion (fst s)) \<mapsto> info]"
      "completes info (be_last_completion (fst s))"
      using r False by (auto simp: blocking_rep_def)
    ultimately show ?thesis by (simp add: blocking_rep_def)
  qed
next
  fix s s' :: "'a blocking_state" and p mn mx ex
  assume "blocking_rep s p" "eo_poll ops mn mx s = Some (Inl ex, s')"
  then show "blocking_rep s' p" by (cases s) (auto simp: poll blocking_poll_def split: if_splits)
next
  fix s s' :: "'a blocking_state" and p mx cs
  assume "blocking_rep s p" "p \<noteq> Map.empty" "1 \<le> mx" "eo_poll ops 1 mx s = Some (Inr cs, s')"
  then show "cs \<noteq> []"
    by (cases s) (auto simp: poll blocking_poll_def blocking_rep_def split: if_splits)
qed

interpretation psync: prompt_engine "psync_engine os" blocking_rep for os
  by (rule blocking_contract; simp only: psync_engine_def engine_ops.select_convs) (rule psync_submit_cases)

interpretation sync: prompt_engine "sync_engine os" blocking_rep for os
  by (rule blocking_contract; simp only: sync_engine_def engine_ops.select_convs) (rule sync_submit_cases)

section \<open>Properties\<close>

text \<open>The call a request turns into, and the outcome the caller must see for what it returned.\<close>

definition psync_call :: "'w os_api \<Rightarrow> int \<Rightarrow> io_request \<Rightarrow> 'w \<Rightarrow> (int \<times> int) \<times> 'w" where
  "psync_call os fd rq =
     (case rq_direction rq of
        Dir_kRead \<Rightarrow> os_pread os fd (rq_buffer rq) (rq_length rq) (rq_offset rq)
      | Dir_kWrite \<Rightarrow> os_pwrite os fd (rq_buffer rq) (rq_length rq) (rq_offset rq))"

definition sync_call :: "'w os_api \<Rightarrow> int \<Rightarrow> io_request \<Rightarrow> 'w \<Rightarrow> (int \<times> int) \<times> 'w" where
  "sync_call os fd rq =
     (case rq_direction rq of
        Dir_kRead \<Rightarrow> os_read os fd (rq_buffer rq) (rq_length rq)
      | Dir_kWrite \<Rightarrow> os_write os fd (rq_buffer rq) (rq_length rq))"

definition reports :: "io_request \<Rightarrow> int \<Rightarrow> int \<Rightarrow> io_completion \<Rightarrow> bool" where
  "reports rq r err c \<longleftrightarrow>
     cp_id c = rq_id rq \<and> cp_direction c = rq_direction rq \<and> cp_submit_time c = rq_submit_time rq \<and>
     (r = - 1 \<longrightarrow> \<not> cp_success c \<and> cp_error c = err \<and> cp_bytes c = 0) \<and>
     (0 \<le> r \<and> r < int (unat (rq_length rq)) \<longrightarrow> \<not> cp_success c \<and> cp_error c = EIO \<and> cp_bytes c = r) \<and>
     (r = int (unat (rq_length rq)) \<longrightarrow> cp_success c \<and> cp_error c = 0 \<and> cp_bytes c = r)"

lemma call_completion_reports:
  assumes "unat (rq_length rq) < 2 ^ 63"
  shows "reports rq r err (call_completion rq r err)"
proof -
  have "sint (rq_length rq) = int (unat (rq_length rq))" using assms by (rule sint_small)
  moreover have "int (unat (rq_length rq)) \<noteq> - 1" using of_nat_0_le_iff [of "unat (rq_length rq)"] by linarith
  ultimately show ?thesis unfolding reports_def call_completion_def by simp
qed

text \<open>
  One round of \<open>PsyncEngine\<close>: on an open engine with no unread completion, a submission whose
  system call returns is followed by a poll that reports exactly that request, with an error, a
  short transfer or a success as the kernel returned; a second submission before the poll is
  refused, and so is any submission to a closed engine.
\<close>

lemma psync_round:
  assumes "0 \<le> be_fd e" "\<not> be_has_completion e" "unat (rq_length rq) < 2 ^ 63"
    and "retry_on_eintr (psync_call os (be_fd e) rq) w = Some ((r, err), w')"
  shows "\<exists>c e1 e2. eo_submit (psync_engine os) rq (e, w) = Some (Inr (), (e1, w')) \<and>
      eo_poll (psync_engine os) 1 1 (e1, w') = Some (Inr [c], (e2, w')) \<and>
      reports rq r err c \<and> \<not> be_has_completion e2 \<and> be_fd e2 = be_fd e \<and>
      eo_submit (psync_engine os) rq2 (e1, w') =
        Some (Inl (LogicError ''PsyncEngine::SubmitIO -- previous completion not yet polled''), (e1, w')) \<and>
      (\<exists>e3 w3. eo_close (psync_engine os) (e1, w') = Some (Inr (), (e3, w3)) \<and>
         eo_poll (psync_engine os) 1 1 (e3, w3) = Some (Inr [], (e3, w3)) \<and>
         eo_submit (psync_engine os) rq2 (e3, w3) =
           Some (Inl (RuntimeError ''PsyncEngine::SubmitIO -- engine is not open''), (e3, w3)))"
  using assms call_completion_reports [OF assms(3), of r err]
  by (simp add: psync_engine_def psync_submit_def psync_call_def blocking_poll_def blocking_close_def Let_def)

lemma psync_round_example:
  "let rq = \<lparr>rq_offset = 0, rq_buffer = 4096, rq_length = 512, rq_direction = Dir_kRead,
             rq_submit_time = 7, rq_id = 0\<rparr>;
       e = new_blocking_engine\<lparr>be_fd := 3\<rparr>
   in \<exists>c e1 e2. eo_submit (psync_engine (quiet_os 100)) rq (e, 0) = Some (Inr (), (e1, 1)) \<and>
        eo_poll (psync_engine (quiet_os 100)) 1 1 (e1, 1) = Some (Inr [c], (e2, 1)) \<and>
        reports rq 100 EINVAL c"
  unfolding Let_def
  using psync_round [of "new_blocking_engine\<lparr>be_fd := 3\<rparr>"
      "\<lparr>rq_offset = 0, rq_buffer = 4096, rq_length = 512, rq_direction = Dir_kRead,
        rq_submit_time = 7, rq_id = 0\<rparr>" "quiet_os 100" 0 100 EINVAL 1]
  by (simp add: new_blocking_engine_def quiet_os_def psync_call_def retry_on_eintr.simps) blast

text \<open>
  One round of \<open>SyncEngine\<close>: the file position is set first; a failed seek is reported by the next
  poll as the failure of the request, and otherwise the round reports what the call after the seek
  returned.
\<close>

lemma sync_round:
  assumes "0 \<le> be_fd e" "\<not> be_has_completion e" "unat (rq_length rq) < 2 ^ 63"
    and "os_lseek os (be_fd e) (rq_offset rq) w = ((pos, seek_errno), w1)"
    and "retry_on_eintr (sync_call os (be_fd e) rq) w1 = Some ((r, err), w')"
  shows "\<exists>c e1 e2. eo_submit (sync_engine os) rq (e, w) =
        Some (Inr (), (e1, if pos = - 1 then w1 else w')) \<and>
      (\<forall>w''. eo_poll (sync_engine os) 1 1 (e1, w'') = Some (Inr [c], (e2, w''))) \<and>
      (if pos = - 1 then reports rq (- 1) seek_errno c else reports rq r err c) \<and>
      \<not> be_has_completion e2 \<and> be_fd e2 = be_fd e \<and>
      eo_submit (sync_engine os) rq2 (e1, w') =
        Some (Inl (LogicError ''SyncEngine::SubmitIO -- previous completion not yet polled''), (e1, w'))"
proof (cases "pos = - 1")
  case True
  moreover have "- 1 \<noteq> int (unat (rq_length rq))" using of_nat_0_le_iff [of "unat (rq_length rq)"] by linarith
  ultimately show ?thesis using assms
    by (simp add: sync_engine_def sync_submit_def blocking_poll_def reports_def)
next
  case False
  then show ?thesis using assms call_completion_reports [OF assms(3), of r err]
    by (simp add: sync_engine_def sync_submit_def sync_call_def blocking_poll_def)
qed

lemma sync_round_witness:
  "let rq = \<lparr>rq_offset = 1024, rq_buffer = 4096, rq_length = 512, rq_direction = Dir_kWrite,
             rq_submit_time = 7, rq_id = 0\<rparr>;
       e = new_blocking_engine\<lparr>be_fd := 3\<rparr>
   in \<exists>c e1 e2. eo_submit (sync_engine (quiet_os 512)) rq (e, 0) = Some (Inr (), (e1, 1)) \<and>
        (\<forall>w''. eo_poll (sync_engine (quiet_os 512)) 1 1 (e1, w'') = Some (Inr [c], (e2, w''))) \<and>
        reports rq 512 EINVAL c"
  unfolding Let_def
  using sync_round [of "new_blocking_engine\<lparr>be_fd := 3\<rparr>"
      "\<lparr>rq_offset = 1024, rq_buffer = 4096, rq_length = 512, rq_direction = Dir_kWrite,
        rq_submit_time = 7, rq_id = 0\<rparr>" "quiet_os 512" 0 1024 0 0 512 EINVAL 1]
  by (simp add: new_blocking_engine_def quiet_os_def sync_call_def retry_on_eintr.simps) blast

end
