(* ===== verification/Io_Uring_Engine.thy ===== *)
theory Io_Uring_Engine
  imports Engine_Api
begin

text \<open>
  \<open>IoUringEngine\<close> (\<open>src/engine/io_uring_engine.cpp\<close>). The functions of liburing are the fields of a
  record on the state of the world, which holds the ring. The map of the requests in flight is
  an association list without repeated keys.
\<close>

section \<open>The ring and the engine\<close>

record uring_cqe =
  cqe_user_data :: u64
  cqe_res :: "32 word"

record uring_sqe =
  sqe_direction :: io_direction
  sqe_fd :: int
  sqe_buffer :: u64
  sqe_nbytes :: u32
  sqe_offset :: int
  sqe_user_data :: u64

record 'w ring_api =
  ra_queue_init :: "int \<Rightarrow> 'w \<Rightarrow> int \<times> 'w"
  ra_queue_exit :: "'w \<Rightarrow> 'w"
  ra_get_sqe :: "'w \<Rightarrow> bool \<times> 'w"
  ra_prep :: "uring_sqe \<Rightarrow> 'w \<Rightarrow> 'w"
  ra_submit :: "'w \<Rightarrow> int \<times> 'w"
  ra_wait_cqe_nr :: "nat \<Rightarrow> 'w \<Rightarrow> int \<times> 'w"
  ra_wait_cqe :: "'w \<Rightarrow> (int \<times> uring_cqe) \<times> 'w"
  ra_peek_batch_cqe :: "nat \<Rightarrow> 'w \<Rightarrow> uring_cqe list \<times> 'w"
  ra_cq_advance :: "nat \<Rightarrow> 'w \<Rightarrow> 'w"

record io_uring_engine =
  ur_fd :: int
  ur_direct_effective :: bool
  ur_ring_initialized :: bool
  ur_iodepth :: int
  ur_in_flight :: flight
  ur_cqe_batch :: nat

definition new_io_uring_engine :: io_uring_engine where
  "new_io_uring_engine = \<lparr>ur_fd = - 1, ur_direct_effective = False, ur_ring_initialized = False,
     ur_iodepth = 0, ur_in_flight = [], ur_cqe_batch = 0\<rparr>"

type_synonym 'w uring_state = "io_uring_engine \<times> 'w"

section \<open>Operations\<close>

definition uring_open :: "'w os_api \<Rightarrow> 'w ring_api \<Rightarrow> job_config \<Rightarrow> ('w uring_state, unit) prog" where
  "uring_open os ring config = (\<lambda>(e, w).
     if ur_fd e \<ge> 0 \<or> ur_ring_initialized e
     then Some (Inl (RuntimeError ''IoUringEngine::Open -- engine is already open''), (e, w))
     else if jc_iodepth config < 1
     then Some (Inl (RuntimeError (''IoUringEngine::Open -- iodepth must be >= 1, got '' @
            dec_int (jc_iodepth config))), (e, w))
     else case open_file_with_direct_fallback os (jc_filename config) (jc_direct config) w of
         (Inl ex, w1) \<Rightarrow> Some (Inl ex, (e, w1))
       | (Inr (fd, direct_effective), w1) \<Rightarrow>
           (case ra_queue_init ring (jc_iodepth config) w1 of (ret, w2) \<Rightarrow>
              if ret < 0
              then Some (Inl (system_error (os_strerror os) (- ret) ''io_uring_queue_init failed''),
                         (e\<lparr>ur_fd := - 1, ur_direct_effective := False\<rparr>, snd (os_close os fd w2)))
              else Some (Inr (), (e\<lparr>ur_fd := fd, ur_direct_effective := direct_effective,
                         ur_ring_initialized := True, ur_iodepth := jc_iodepth config,
                         ur_cqe_batch := nat (jc_iodepth config)\<rparr>, w2))))"

definition uring_submit :: "'w os_api \<Rightarrow> 'w ring_api \<Rightarrow> io_request \<Rightarrow> ('w uring_state, unit) prog" where
  "uring_submit os ring rq = (\<lambda>(e, w).
     if ur_fd e < 0 \<or> \<not> ur_ring_initialized e
     then Some (Inl (RuntimeError ''IoUringEngine::SubmitIO -- engine is not open''), (e, w))
     else if rq_length rq > 4294967295
     then Some (Inl (RuntimeError
            ''IoUringEngine::SubmitIO -- request.length exceeds unsigned int range''), (e, w))
     else if map_of (ur_in_flight e) (rq_id rq) \<noteq> None
     then Some (Inl (LogicError (''IoUringEngine::SubmitIO -- duplicate request id '' @
            dec64 (rq_id rq))), (e, w))
     else case ra_get_sqe ring w of (got, w1) \<Rightarrow>
       if \<not> got
       then Some (Inl (LogicError
              ''IoUringEngine::SubmitIO -- SQ ring full, iodepth contract violated''), (e, w1))
       else
         let w2 = ra_prep ring \<lparr>sqe_direction = rq_direction rq, sqe_fd = ur_fd e,
                    sqe_buffer = rq_buffer rq, sqe_nbytes = ucast (rq_length rq),
                    sqe_offset = rq_offset rq, sqe_user_data = rq_id rq\<rparr> w1;
             e1 = e\<lparr>ur_in_flight := (rq_id rq, info_of rq) # ur_in_flight e\<rparr>
         in case ra_submit ring w2 of (ret, w3) \<Rightarrow>
              if ret < 0
              then Some (Inl (system_error (os_strerror os) (- ret) ''io_uring_submit failed''),
                         (e1\<lparr>ur_in_flight := AList.delete (rq_id rq) (ur_in_flight e1)\<rparr>, w3))
              else Some (Inr (), (e1, w3)))"

text \<open>The completion a CQE reports, and the loop over the batch.\<close>

definition cqe_completion :: "submit_info \<Rightarrow> uring_cqe \<Rightarrow> io_completion" where
  "cqe_completion info c =
     (let res = sint (cqe_res c); whole = ((word_of_int res :: u64) = si_length info) in
       \<lparr>cp_id = cqe_user_data c,
        cp_bytes = (if res < 0 then 0 else res),
        cp_direction = si_direction info,
        cp_success = (if res < 0 then False else whole),
        cp_error = (if res < 0 then - res else if whole then 0 else EIO),
        cp_submit_time = si_submit_time info\<rparr>)"

fun reap_cqes :: "uring_cqe list \<Rightarrow> flight \<Rightarrow> io_completion list \<times> flight" where
  "reap_cqes [] fl = ([], fl)"
| "reap_cqes (c # cs) fl =
     (case map_of fl (cqe_user_data c) of
        None \<Rightarrow> reap_cqes cs fl
      | Some info \<Rightarrow>
          (let (out, fl') = reap_cqes cs (AList.delete (cqe_user_data c) fl)
           in (cqe_completion info c # out, fl')))"

definition uring_poll ::
    "'w os_api \<Rightarrow> 'w ring_api \<Rightarrow> int \<Rightarrow> int \<Rightarrow> ('w uring_state, io_completion list) prog" where
  "uring_poll os ring min_events max_events = (\<lambda>(e, w).
     if \<not> ur_ring_initialized e \<or> max_events < 1 then Some (Inr [], (e, w))
     else
       let mn = (if min_events < 0 then 0 else min_events) in
       case (if mn > 0
             then do_while (\<lambda>ret. ret = - EINTR \<or> ret = - EAGAIN) (ra_wait_cqe_nr ring (nat mn)) w
             else Some (0, w)) of
         None \<Rightarrow> None
       | Some (ret, w1) \<Rightarrow>
           if ret < 0
           then Some (Inl (system_error (os_strerror os) (- ret) ''io_uring_wait_cqe_nr failed''), (e, w1))
           else
             let batch_limit = (if nat max_events > ur_cqe_batch e then ur_cqe_batch e
                                else nat max_events)
             in case ra_peek_batch_cqe ring batch_limit w1 of (batch, w2) \<Rightarrow>
                (case reap_cqes batch (ur_in_flight e) of (out, fl) \<Rightarrow>
                   Some (Inr out, (e\<lparr>ur_in_flight := fl\<rparr>, ra_cq_advance ring (length batch) w2))))"

partial_function (option) uring_drain ::
    "'w ring_api \<Rightarrow> flight \<Rightarrow> 'w \<Rightarrow> (flight \<times> 'w) option" where
  "uring_drain ring fl w =
     (if fl = [] then Some (fl, w)
      else case do_while (\<lambda>(ret, cqe). ret = - EINTR) (ra_wait_cqe ring) w of
          None \<Rightarrow> None
        | Some ((ret, cqe), w1) \<Rightarrow>
            if ret < 0 then Some (fl, w1)
            else uring_drain ring (AList.delete (cqe_user_data cqe) fl) (ra_cq_advance ring 1 w1))"

definition uring_close :: "'w os_api \<Rightarrow> 'w ring_api \<Rightarrow> ('w uring_state, unit) prog" where
  "uring_close os ring = (\<lambda>(e, w).
     case (if ur_ring_initialized e then uring_drain ring (ur_in_flight e) w
           else Some (ur_in_flight e, w)) of
       None \<Rightarrow> None
     | Some (fl, w1) \<Rightarrow>
         let w2 = (if ur_ring_initialized e then ra_queue_exit ring w1 else w1);
             w3 = (if ur_fd e \<ge> 0 then snd (os_close os (ur_fd e) w2) else w2);
             fd = (if ur_fd e \<ge> 0 then - 1 else ur_fd e)
         in Some (Inr (), (\<lparr>ur_fd = fd, ur_direct_effective = False, ur_ring_initialized = False,
              ur_iodepth = 0, ur_in_flight = [], ur_cqe_batch = 0\<rparr>, w3)))"

definition io_uring_engine :: "'w os_api \<Rightarrow> 'w ring_api \<Rightarrow> 'w uring_state engine_ops" where
  "io_uring_engine os ring =
     \<lparr>eo_open = uring_open os ring, eo_submit = uring_submit os ring, eo_poll = uring_poll os ring,
      eo_close = uring_close os ring, eo_direct = (\<lambda>(e, w). ur_direct_effective e)\<rparr>"

section \<open>It fulfils the contract\<close>

definition uring_rep :: "'w uring_state \<Rightarrow> (u64 \<Rightarrow> submit_info option) \<Rightarrow> bool" where
  "uring_rep s p \<longleftrightarrow> p = map_of (ur_in_flight (fst s)) \<and> distinct (map fst (ur_in_flight (fst s)))"

lemma word_of_int_length:
  "0 \<le> sint (r :: 32 word) \<Longrightarrow> (word_of_int (sint r) :: u64) = len \<Longrightarrow> sint r = sint len"
proof -
  assume r: "0 \<le> sint r" and l: "(word_of_int (sint r) :: u64) = len"
  have "sint r < 2 ^ 31" using sint_lt [of r] by simp
  then have "sint (word_of_int (sint r) :: u64) = sint r" using r by (intro sint_word_of_int64) simp_all
  then show ?thesis unfolding l by simp
qed

lemma cqe_completion_completes: "completes info (cqe_completion info c)"
  unfolding completes_def cqe_completion_def Let_def
  using word_of_int_length [of "cqe_res c" "si_length info"] by (auto simp: not_less)

lemma cqe_completion_id [simp]: "cp_id (cqe_completion info c) = cqe_user_data c"
  by (simp add: cqe_completion_def Let_def)

lemma reap_cqes_sound:
  "distinct (map fst fl) \<Longrightarrow> reap_cqes cs fl = (out, fl') \<Longrightarrow>
    distinct (map cp_id out) \<and> distinct (map fst fl') \<and>
    (\<forall>c \<in> set out. \<exists>info. map_of fl (cp_id c) = Some info \<and> completes info c) \<and>
    map_of fl' = map_of fl |` (- cp_id ` set out)"
proof (induction cs fl arbitrary: out fl' rule: reap_cqes.induct)
  case (2 c cs fl)
  show ?case
  proof (cases "map_of fl (cqe_user_data c)")
    case None
    then have "reap_cqes cs fl = (out, fl')" using "2.prems"(2) by simp
    from "2.IH"(1) [OF None "2.prems"(1) this] show ?thesis .
  next
    case (Some info)
    let ?id = "cqe_user_data c" and ?fl1 = "AList.delete (cqe_user_data c) fl"
    obtain out1 where o: "reap_cqes cs ?fl1 = (out1, fl')" "out = cqe_completion info c # out1"
      using "2.prems"(2) Some by (auto split: prod.splits)
    have "distinct (map fst ?fl1)" using "2.prems"(1) by (rule distinct_delete)
    note step = "2.IH"(2) [OF Some this o(1)]
    then have ih: "distinct (map cp_id out1)" "distinct (map fst fl')"
      "\<forall>c \<in> set out1. \<exists>i. map_of ?fl1 (cp_id c) = Some i \<and> completes i c"
      "map_of fl' = map_of ?fl1 |` (- cp_id ` set out1)" by blast+
    have other: "cp_id c' \<noteq> ?id \<and> (\<exists>i. map_of fl (cp_id c') = Some i \<and> completes i c')"
      if "c' \<in> set out1" for c'
      using ih(3) that by (auto split: if_splits)
    moreover have "map_of fl' = map_of fl |` (- insert ?id (cp_id ` set out1))"
      unfolding ih(4) map_of_delete by (auto simp: restrict_map_def fun_eq_iff)
    moreover have "?id \<notin> cp_id ` set out1"
    proof
      assume "?id \<in> cp_id ` set out1"
      then obtain c' where "c' \<in> set out1" "cp_id c' = ?id" by (metis imageE)
      then show False using other [of c'] by simp
    qed
    ultimately show ?thesis
      using ih(1,2) Some cqe_completion_completes [of info c] unfolding o(2) by auto
  qed
qed simp

interpretation uring: io_engine "io_uring_engine os ring" uring_rep for os ring
proof
  fix s s' :: "'a uring_state" and p rq
  assume r: "uring_rep s p" and "eo_submit (io_uring_engine os ring) rq s = Some (Inr (), s')"
  then have "uring_submit os ring rq (fst s, snd s) = Some (Inr (), s')" by (simp add: io_uring_engine_def)
  then have "map_of (ur_in_flight (fst s)) (rq_id rq) = None"
    "ur_in_flight (fst s') = (rq_id rq, info_of rq) # ur_in_flight (fst s)"
    by (auto simp: uring_submit_def Let_def split: if_splits prod.splits)
  then show "p (rq_id rq) = None \<and> uring_rep s' (p(rq_id rq \<mapsto> info_of rq))"
    using r by (auto simp: uring_rep_def map_of_eq_None_iff)
next
  fix s s' :: "'a uring_state" and p rq ex
  assume r: "uring_rep s p" and "eo_submit (io_uring_engine os ring) rq s = Some (Inl ex, s')"
  then have "uring_submit os ring rq (fst s, snd s) = Some (Inl ex, s')" by (simp add: io_uring_engine_def)
  then have "ur_in_flight (fst s') = ur_in_flight (fst s) \<or>
      map_of (ur_in_flight (fst s)) (rq_id rq) = None \<and>
      ur_in_flight (fst s') = AList.delete (rq_id rq) ((rq_id rq, info_of rq) # ur_in_flight (fst s))"
    by (auto simp: uring_submit_def Let_def split: if_splits prod.splits)
  then show "uring_rep s' p" using r by (auto simp: uring_rep_def delete_fresh simp del: delete_simps)
next
  fix s s' :: "'a uring_state" and p mn mx cs
  assume r: "uring_rep s p" and "eo_poll (io_uring_engine os ring) mn mx s = Some (Inr cs, s')"
  then have "uring_poll os ring mn mx (fst s, snd s) = Some (Inr cs, s')" by (simp add: io_uring_engine_def)
  then consider "cs = []" "s' = s" | batch where
      "reap_cqes batch (ur_in_flight (fst s)) = (cs, ur_in_flight (fst s'))"
    by (cases s) (auto simp: uring_poll_def Let_def split: if_splits option.splits prod.splits)
  then show "distinct (map cp_id cs) \<and>
      (\<forall>c \<in> set cs. \<exists>info. p (cp_id c) = Some info \<and> completes info c) \<and>
      uring_rep s' (p |` (- cp_id ` set cs))"
    using r reap_cqes_sound by cases (force simp: uring_rep_def)+
next
  fix s s' :: "'a uring_state" and p mn mx ex
  assume r: "uring_rep s p" and "eo_poll (io_uring_engine os ring) mn mx s = Some (Inl ex, s')"
  then have "uring_poll os ring mn mx (fst s, snd s) = Some (Inl ex, s')" by (simp add: io_uring_engine_def)
  then have "fst s' = fst s"
    by (auto simp: uring_poll_def Let_def split: if_splits option.splits prod.splits)
  then show "uring_rep s' p" using r by (simp add: uring_rep_def)
qed

section \<open>Properties\<close>

text \<open>
  The entries of a batch that answer a request in flight: of the entries of one id the first, and none of an
  id that is not in flight.
\<close>

definition answering :: "flight \<Rightarrow> uring_cqe list \<Rightarrow> uring_cqe list" where
  "answering fl cs = nths cs {i. map_of fl (cqe_user_data (cs ! i)) \<noteq> None \<and>
     cqe_user_data (cs ! i) \<notin> cqe_user_data ` set (take i cs)}"

lemma answering_Nil [simp]: "answering fl [] = []"
  by (simp add: answering_def)

lemma answering_Cons:
  "answering fl (c # cs) =
     (if map_of fl (cqe_user_data c) = None then answering fl cs
      else c # answering (AList.delete (cqe_user_data c) fl) cs)"
  by (auto simp: answering_def nths_Cons intro!: arg_cong [where f = "nths cs"])

lemma answering_first:
  assumes "c \<in> set cs" "map_of fl (cqe_user_data c) \<noteq> None"
  shows "cqe_user_data c \<in> cqe_user_data ` set (answering fl cs)"
  using assms
proof (induction cs arbitrary: fl)
  case (Cons d cs)
  then show ?case by (cases "cqe_user_data c = cqe_user_data d") (auto simp: answering_Cons)
qed simp

lemma reap_cqes_all:
  "fst (reap_cqes cs fl) = map (\<lambda>c. cqe_completion (the (map_of fl (cqe_user_data c))) c) (answering fl cs) \<and>
   map_of (snd (reap_cqes cs fl)) = map_of fl |` (- cqe_user_data ` set cs)"
proof (induction cs fl rule: reap_cqes.induct)
  case (2 c cs fl)
  let ?id = "cqe_user_data c" and ?fl1 = "AList.delete (cqe_user_data c) fl"
  have other: "cqe_user_data x \<noteq> ?id" if "x \<in> set (answering ?fl1 cs)" for x
    using that by (auto simp: answering_def set_nths split: if_splits)
  show ?case
  proof (cases "map_of fl ?id")
    case None
    then show ?thesis using "2.IH"(1) [OF None]
      by (auto simp: answering_Cons restrict_map_def fun_eq_iff)
  next
    case (Some info)
    have "map (\<lambda>c. cqe_completion (the (map_of ?fl1 (cqe_user_data c))) c) (answering ?fl1 cs) =
        map (\<lambda>c. cqe_completion (the (map_of fl (cqe_user_data c))) c) (answering ?fl1 cs)"
      using other by (intro map_cong) auto
    then show ?thesis using Some "2.IH"(2) [OF Some]
      by (auto simp: answering_Cons case_prod_beta Let_def restrict_map_def fun_eq_iff)
  qed
qed simp

text \<open>
  C24. A poll of the ring waits over interruptions and asks for no more entries than \<open>max_events\<close> and the
  queue depth allow. Of the batch it gets, whatever the kernel put there, it reports exactly the first
  entry of each request in flight, in the order of the completion queue, with the submit time and
  the direction of its own request, a negative result as an error code, a short count as \<open>EIO\<close>. The
  requests reported, and no others, are forgotten, and every entry read goes back to the ring.
\<close>

theorem uring_poll_reports:
  assumes "ur_ring_initialized e" "1 \<le> mn" "1 \<le> mx"
    and "do_while (\<lambda>ret. ret = - EINTR \<or> ret = - EAGAIN) (ra_wait_cqe_nr ring (nat mn)) w = Some (ret, w1)"
    and "0 \<le> ret"
    and "ra_peek_batch_cqe ring (min (nat mx) (ur_cqe_batch e)) w1 = (batch, w2)"
  shows "\<exists>out fl. eo_poll (io_uring_engine os ring) mn mx (e, w) =
      Some (Inr out, (e\<lparr>ur_in_flight := fl\<rparr>, ra_cq_advance ring (length batch) w2)) \<and>
    map_of fl = map_of (ur_in_flight e) |` (- cp_id ` set out) \<and>
    list_all2 (\<lambda>c r. \<exists>info. map_of (ur_in_flight e) (cqe_user_data c) = Some info \<and>
       cp_id r = cqe_user_data c \<and>
       cp_submit_time r = si_submit_time info \<and> cp_direction r = si_direction info \<and>
       (let res = sint (cqe_res c) in
          (res < 0 \<longrightarrow> \<not> cp_success r \<and> cp_error r = - res \<and> cp_bytes r = 0) \<and>
          (0 \<le> res \<longrightarrow> cp_bytes r = res \<and> cp_success r = (word_of_int res = si_length info) \<and>
             cp_error r = (if word_of_int res = si_length info then 0 else EIO))))
      (answering (ur_in_flight e) batch) out"
    (is "\<exists>out fl. _ \<and> _ \<and> list_all2 ?reports _ out")
proof -
  let ?fl = "ur_in_flight e"
  obtain out fl where r: "reap_cqes batch ?fl = (out, fl)" by fastforce
  then have out: "out = map (\<lambda>c. cqe_completion (the (map_of ?fl (cqe_user_data c))) c) (answering ?fl batch)"
    and fl: "map_of fl = map_of ?fl |` (- cqe_user_data ` set batch)"
    using reap_cqes_all [of batch ?fl] by simp_all
  have limit: "(if nat mx > ur_cqe_batch e then ur_cqe_batch e else nat mx) = min (nat mx) (ur_cqe_batch e)"
    by simp
  have poll: "eo_poll (io_uring_engine os ring) mn mx (e, w) =
      Some (Inr out, (e\<lparr>ur_in_flight := fl\<rparr>, ra_cq_advance ring (length batch) w2))"
    using assms r unfolding io_uring_engine_def engine_ops.select_convs uring_poll_def
    by (simp add: Let_def limit)
  have ids: "cp_id ` set out = cqe_user_data ` set (answering ?fl batch)"
    unfolding out by (simp add: image_image)
  have "map_of fl = map_of ?fl |` (- cp_id ` set out)"
  proof
    fix i
    have "i \<in> cqe_user_data ` set (answering ?fl batch) \<longleftrightarrow> i \<in> cqe_user_data ` set batch"
      if "map_of ?fl i \<noteq> None"
    proof
      assume "i \<in> cqe_user_data ` set (answering ?fl batch)"
      then show "i \<in> cqe_user_data ` set batch" by (auto simp: answering_def set_nths)
    next
      assume "i \<in> cqe_user_data ` set batch"
      then show "i \<in> cqe_user_data ` set (answering ?fl batch)" using answering_first that by blast
    qed
    then show "map_of fl i = (map_of ?fl |` (- cp_id ` set out)) i"
      unfolding fl ids by (cases "map_of ?fl i") (simp_all add: restrict_map_def)
  qed
  moreover have "list_all2 ?reports (answering ?fl batch) out"
    unfolding out list_all2_map2 list_all2_same
  proof
    fix c assume "c \<in> set (answering ?fl batch)"
    then obtain info where "map_of ?fl (cqe_user_data c) = Some info"
      by (auto simp: answering_def set_nths)
    then show "?reports c (cqe_completion (the (map_of ?fl (cqe_user_data c))) c)"
      by (intro exI [of _ info]) (simp add: cqe_completion_def Let_def)
  qed
  ultimately show ?thesis using poll by (intro exI [of _ out] exI [of _ fl]) blast
qed

definition instant_ring :: "uring_cqe list \<Rightarrow> nat ring_api" where
  "instant_ring batch =
     \<lparr>ra_queue_init = (\<lambda>_ w. (0, w)), ra_queue_exit = (\<lambda>w. w), ra_get_sqe = (\<lambda>w. (True, w)),
      ra_prep = (\<lambda>_ w. w), ra_submit = (\<lambda>w. (1, w)),
      ra_wait_cqe_nr = (\<lambda>_ w. (if w = 0 then - EINTR else 0, w + 1)),
      ra_wait_cqe = (\<lambda>w. ((0, hd batch), w)), ra_peek_batch_cqe = (\<lambda>n w. (take n batch, w)),
      ra_cq_advance = (\<lambda>n w. w + n)\<rparr>"

text \<open>Of three entries, one is of an id that is not in flight and one repeats an id.\<close>

theorem uring_poll_reports_witness:
  "let e = new_io_uring_engine\<lparr>ur_ring_initialized := True, ur_cqe_batch := 4,
        ur_in_flight := [(3, \<lparr>si_submit_time = 10, si_direction = Dir_kRead, si_length = 512\<rparr>)]\<rparr>
   in \<exists>out fl. eo_poll (io_uring_engine (quiet_os 0) (instant_ring
          [\<lparr>cqe_user_data = 7, cqe_res = 1\<rparr>, \<lparr>cqe_user_data = 3, cqe_res = 512\<rparr>, \<lparr>cqe_user_data = 3, cqe_res = 1\<rparr>])) 1 4 (e, 0) =
        Some (Inr out, (e\<lparr>ur_in_flight := fl\<rparr>, 5)) \<and> map cp_bytes out = [512] \<and> map_of fl 3 = None"
proof -
  let ?e = "new_io_uring_engine\<lparr>ur_ring_initialized := True, ur_cqe_batch := 4,
        ur_in_flight := [(3, \<lparr>si_submit_time = 10, si_direction = Dir_kRead, si_length = 512\<rparr>)]\<rparr>"
  let ?batch = "[\<lparr>cqe_user_data = 7, cqe_res = 1\<rparr>, \<lparr>cqe_user_data = 3, cqe_res = 512\<rparr>, \<lparr>cqe_user_data = 3, cqe_res = 1\<rparr>]"
  let ?ring = "instant_ring ?batch"
  have wait: "do_while (\<lambda>ret. ret = - EINTR \<or> ret = - EAGAIN) (ra_wait_cqe_nr ?ring (nat 1)) 0 = Some (0, 2)"
    by (simp add: instant_ring_def do_while.simps)
  have a: "answering (ur_in_flight ?e) ?batch = [\<lparr>cqe_user_data = 3, cqe_res = 512\<rparr>]"
    by (simp add: answering_Cons)
  from uring_poll_reports [OF _ _ _ wait, of ?e 4 ?batch 2 "quiet_os 0"]
  obtain out fl where o: "eo_poll (io_uring_engine (quiet_os 0) ?ring) 1 4 (?e, 0) =
      Some (Inr out, (?e\<lparr>ur_in_flight := fl\<rparr>, ra_cq_advance ?ring 3 2))"
    "map_of fl = map_of (ur_in_flight ?e) |` (- cp_id ` set out)"
    "\<exists>r. out = [r] \<and> cp_id r = 3 \<and> cp_bytes r = 512"
    unfolding a by (auto simp: instant_ring_def list_all2_Cons1 Let_def)
  then have "map_of fl 3 = None" by (auto simp: restrict_map_def)
  with o show ?thesis unfolding Let_def
    by (intro exI [of _ out] exI [of _ fl]) (auto simp: instant_ring_def)
qed

end
