(* ===== verification/Libaio_Engine.thy ===== *)
theory Libaio_Engine
  imports Engine_Api
begin

text \<open>
  \<open>LibaioEngine\<close> (\<open>src/engine/libaio_engine.cpp\<close>). The system calls of native AIO are the fields of a
  record on the state of the world. A pointer to a control block of the pool is its index.
\<close>

section \<open>The calls and the engine\<close>

record iocb =
  ic_direction :: io_direction
  ic_fd :: int
  ic_buffer :: u64
  ic_length :: u64
  ic_offset :: int
  ic_data :: u64

record io_event =
  ev_data :: u64
  ev_obj :: nat
  ev_res :: u64
  ev_res2 :: u64

text \<open>\<open>aa_getevents ctx min max timeout\<close>: without a timeout the call waits.\<close>

record 'w aio_api =
  aa_setup :: "int \<Rightarrow> 'w \<Rightarrow> (int \<times> u64) \<times> 'w"
  aa_submit :: "u64 \<Rightarrow> iocb \<Rightarrow> 'w \<Rightarrow> int \<times> 'w"
  aa_getevents :: "u64 \<Rightarrow> int \<Rightarrow> int \<Rightarrow> time_point option \<Rightarrow> 'w \<Rightarrow> (int \<times> io_event list) \<times> 'w"
  aa_cancel :: "u64 \<Rightarrow> iocb \<Rightarrow> 'w \<Rightarrow> int \<times> 'w"
  aa_destroy :: "u64 \<Rightarrow> 'w \<Rightarrow> int \<times> 'w"
  aa_now :: "'w \<Rightarrow> time_point \<times> 'w"

record libaio_engine =
  la_ctx :: u64
  la_fd :: int
  la_direct_effective :: bool
  la_iodepth :: int
  la_iocb_pool :: "iocb list"
  la_free_iocbs :: "nat list"
  la_events :: nat
  la_in_flight :: flight

definition new_libaio_engine :: libaio_engine where
  "new_libaio_engine = \<lparr>la_ctx = 0, la_fd = - 1, la_direct_effective = False, la_iodepth = 0,
     la_iocb_pool = [], la_free_iocbs = [], la_events = 0, la_in_flight = []\<rparr>"

definition blank_iocb :: iocb where
  "blank_iocb = \<lparr>ic_direction = Dir_kRead, ic_fd = 0, ic_buffer = 0, ic_length = 0, ic_offset = 0,
     ic_data = 0\<rparr>"

type_synonym 'w libaio_state = "libaio_engine \<times> 'w"

section \<open>Operations\<close>

definition libaio_open :: "'w os_api \<Rightarrow> 'w aio_api \<Rightarrow> job_config \<Rightarrow> ('w libaio_state, unit) prog" where
  "libaio_open os aio config = (\<lambda>(e, w).
     if la_fd e \<ge> 0 \<or> la_ctx e \<noteq> 0
     then Some (Inl (RuntimeError ''LibaioEngine::Open -- engine is already open''), (e, w))
     else if jc_iodepth config < 1
     then Some (Inl (RuntimeError (''LibaioEngine::Open -- iodepth must be >= 1, got '' @
            dec_int (jc_iodepth config))), (e, w))
     else case open_file_with_direct_fallback os (jc_filename config) (jc_direct config) w of
         (Inl ex, w1) \<Rightarrow> Some (Inl ex, (e, w1))
       | (Inr (fd, direct_effective), w1) \<Rightarrow>
           (case aa_setup aio (jc_iodepth config) w1 of ((ret, ctx), w2) \<Rightarrow>
              if ret < 0
              then Some (Inl (if ret = - EAGAIN
                     then RuntimeError (''LibaioEngine::Open -- io_setup EAGAIN: iodepth may exceed '' @
                            ''/proc/sys/fs/aio-max-nr'')
                     else system_error (os_strerror os) (- ret) ''LibaioEngine::Open -- io_setup failed''),
                   (e\<lparr>la_fd := - 1, la_ctx := 0, la_direct_effective := False\<rparr>, snd (os_close os fd w2)))
              else let depth = nat (jc_iodepth config) in
                   Some (Inr (), (e\<lparr>la_fd := fd, la_direct_effective := direct_effective, la_ctx := ctx,
                         la_iodepth := jc_iodepth config, la_iocb_pool := replicate depth blank_iocb,
                         la_free_iocbs := [0..<depth], la_events := depth\<rparr>, w2))))"

definition libaio_submit :: "'w os_api \<Rightarrow> 'w aio_api \<Rightarrow> io_request \<Rightarrow> ('w libaio_state, unit) prog" where
  "libaio_submit os aio rq = (\<lambda>(e, w).
     if la_fd e < 0 \<or> la_ctx e = 0
     then Some (Inl (RuntimeError ''LibaioEngine::SubmitIO -- engine is not open''), (e, w))
     else if map_of (la_in_flight e) (rq_id rq) \<noteq> None
     then Some (Inl (LogicError (''LibaioEngine::SubmitIO -- duplicate request id '' @
            dec64 (rq_id rq))), (e, w))
     else if la_free_iocbs e = []
     then Some (Inl (LogicError
            ''LibaioEngine::SubmitIO -- iocb pool empty, iodepth contract violated''), (e, w))
     else
       let i = last (la_free_iocbs e);
           cb = \<lparr>ic_direction = rq_direction rq, ic_fd = la_fd e, ic_buffer = rq_buffer rq,
                 ic_length = rq_length rq, ic_offset = rq_offset rq, ic_data = rq_id rq\<rparr>;
           e1 = e\<lparr>la_free_iocbs := butlast (la_free_iocbs e),
                  la_iocb_pool := (la_iocb_pool e)[i := cb],
                  la_in_flight := (rq_id rq, info_of rq) # la_in_flight e\<rparr>
       in case aa_submit aio (la_ctx e) cb w of (ret, w1) \<Rightarrow>
         if ret \<noteq> 1
         then Some (Inl (if ret = - EAGAIN
                then system_error (os_strerror os) EAGAIN
                       ''LibaioEngine::SubmitIO -- io_submit EAGAIN, AIO limit reached''
                else system_error (os_strerror os) (if ret < 0 then - ret else EIO)
                       (''LibaioEngine::SubmitIO -- io_submit failed, ret='' @ dec_int ret)),
              (e1\<lparr>la_in_flight := AList.delete (rq_id rq) (la_in_flight e1),
                  la_free_iocbs := la_free_iocbs e1 @ [i]\<rparr>, w1))
         else Some (Inr (), (e1, w1)))"

text \<open>The completion an event reports: a second result other than zero is a failure too.\<close>

definition event_completion :: "submit_info \<Rightarrow> io_event \<Rightarrow> io_completion" where
  "event_completion info ev =
     (let result = sint (ev_res ev);
          whole = ((word_of_int result :: u64) = si_length info);
          success1 = (if result < 0 then False else whole);
          error1 = (if result < 0 then to_int32 (- result) else if whole then 0 else EIO);
          res2 = sint (ev_res2 ev)
      in \<lparr>cp_id = ev_data ev,
          cp_bytes = (if result < 0 then 0 else result),
          cp_direction = si_direction info,
          cp_success = (if res2 \<noteq> 0 then False else success1),
          cp_error = (if res2 \<noteq> 0 \<and> error1 = 0 then to_int32 res2 else error1),
          cp_submit_time = si_submit_time info\<rparr>)"

text \<open>The loop over the events: every control block goes back to the free list, known or not.\<close>

fun reap_events ::
    "io_event list \<Rightarrow> flight \<Rightarrow> nat list \<Rightarrow> io_completion list \<times> flight \<times> nat list" where
  "reap_events [] fl free = ([], fl, free)"
| "reap_events (ev # evs) fl free =
     (case map_of fl (ev_data ev) of
        None \<Rightarrow> reap_events evs fl (free @ [ev_obj ev])
      | Some info \<Rightarrow>
          (let (out, rest) = reap_events evs (AList.delete (ev_data ev) fl) (free @ [ev_obj ev])
           in (event_completion info ev # out, rest)))"

definition libaio_poll ::
    "'w os_api \<Rightarrow> 'w aio_api \<Rightarrow> int \<Rightarrow> int \<Rightarrow> ('w libaio_state, io_completion list) prog" where
  "libaio_poll os aio min_events max_events = (\<lambda>(e, w).
     if la_ctx e = 0 \<or> max_events < 1 then Some (Inr [], (e, w))
     else
       let mn0 = (if min_events < 0 then 0 else min_events);
           mn = min mn0 (int (length (la_in_flight e)));
           mx = min max_events (int (la_events e))
       in if mn < 1 \<and> la_in_flight e = [] then Some (Inr [], (e, w))
          else case do_while (\<lambda>(nr, evs). nr = - EINTR) (aa_getevents aio (la_ctx e) mn mx None) w of
              None \<Rightarrow> None
            | Some ((nr, evs), w1) \<Rightarrow>
                if nr < 0
                then Some (Inl (system_error (os_strerror os) (- nr)
                       ''LibaioEngine::PollCompletions -- io_getevents failed''), (e, w1))
                else case reap_events (take (nat nr) evs) (la_in_flight e) (la_free_iocbs e) of
                    (out, fl, free) \<Rightarrow>
                      Some (Inr out, (e\<lparr>la_in_flight := fl, la_free_iocbs := free\<rparr>, w1)))"

partial_function (option) libaio_drain ::
    "'w aio_api \<Rightarrow> u64 \<Rightarrow> int \<Rightarrow> time_point \<Rightarrow> flight \<Rightarrow> 'w \<Rightarrow> (flight \<times> 'w) option" where
  "libaio_drain aio ctx events deadline fl w =
     (if fl = [] then Some (fl, w)
      else case aa_now aio w of (now, w1) \<Rightarrow>
        let remaining = deadline - now in
        if remaining \<le> 0 then Some (fl, w1)
        else case aa_getevents aio ctx 1 events (Some remaining) w1 of ((nr, evs), w2) \<Rightarrow>
          if nr = - EINTR then libaio_drain aio ctx events deadline fl w2
          else if nr = 0 then Some (fl, w2)
          else if nr < 0 then Some (fl, w2)
          else libaio_drain aio ctx events deadline
                 (foldl (\<lambda>f ev. AList.delete (ev_data ev) f) fl (take (nat nr) evs)) w2)"

definition cancel_all :: "'w aio_api \<Rightarrow> u64 \<Rightarrow> flight \<Rightarrow> iocb list \<Rightarrow> 'w \<Rightarrow> 'w" where
  "cancel_all aio ctx fl pool w =
     foldl (\<lambda>v cb. if map_of fl (ic_data cb) \<noteq> None then snd (aa_cancel aio ctx cb v) else v) w pool"

definition libaio_close :: "'w os_api \<Rightarrow> 'w aio_api \<Rightarrow> ('w libaio_state, unit) prog" where
  "libaio_close os aio = (\<lambda>(e, w).
     case (if la_ctx e \<noteq> 0 \<and> la_in_flight e \<noteq> []
           then (case aa_now aio w of (now, w1) \<Rightarrow>
                   case libaio_drain aio (la_ctx e) (int (la_events e)) (now + 5000000000)
                          (la_in_flight e) w1 of
                     None \<Rightarrow> None
                   | Some (fl, w2) \<Rightarrow>
                       Some (if fl \<noteq> [] then cancel_all aio (la_ctx e) fl (la_iocb_pool e) w2 else w2))
           else Some w) of
       None \<Rightarrow> None
     | Some w3 \<Rightarrow>
         let w4 = (if la_ctx e \<noteq> 0 then snd (aa_destroy aio (la_ctx e) w3) else w3);
             w5 = (if la_fd e \<ge> 0 then snd (os_close os (la_fd e) w4) else w4);
             fd = (if la_fd e \<ge> 0 then - 1 else la_fd e)
         in Some (Inr (), (\<lparr>la_ctx = 0, la_fd = fd, la_direct_effective = False, la_iodepth = 0,
              la_iocb_pool = [], la_free_iocbs = [], la_events = 0, la_in_flight = []\<rparr>, w5)))"

definition libaio_engine :: "'w os_api \<Rightarrow> 'w aio_api \<Rightarrow> 'w libaio_state engine_ops" where
  "libaio_engine os aio =
     \<lparr>eo_open = libaio_open os aio, eo_submit = libaio_submit os aio, eo_poll = libaio_poll os aio,
      eo_close = libaio_close os aio, eo_direct = (\<lambda>(e, w). la_direct_effective e)\<rparr>"

section \<open>It fulfils the contract\<close>

text \<open>
  Besides the map, the representation records that the free control blocks never fall below what
  the queue depth leaves: every event gives one back.
\<close>

definition libaio_rep :: "'w libaio_state \<Rightarrow> (u64 \<Rightarrow> submit_info option) \<Rightarrow> bool" where
  "libaio_rep s p \<longleftrightarrow>
     p = map_of (la_in_flight (fst s)) \<and> distinct (map fst (la_in_flight (fst s))) \<and>
     nat (la_iodepth (fst s)) \<le> length (la_free_iocbs (fst s)) + length (la_in_flight (fst s))"

lemma event_completion_completes: "completes info (event_completion info ev)"
  unfolding completes_def event_completion_def Let_def by (auto simp: not_less)

lemma event_completion_id [simp]: "cp_id (event_completion info ev) = ev_data ev"
  by (simp add: event_completion_def Let_def)

lemma length_delete: "distinct (map fst fl) \<Longrightarrow> map_of fl k = Some v \<Longrightarrow>
    Suc (length (AList.delete k fl)) = length fl"
proof (induction fl)
  case (Cons x fl)
  show ?case
  proof (cases "fst x = k")
    case True
    then obtain v' where x: "x = (k, v')" by (cases x) simp
    moreover have "map_of fl k = None" using Cons.prems(1) x by (simp add: map_of_eq_None_iff)
    ultimately show ?thesis using delete_fresh [of fl k v'] by simp
  next
    case False
    then show ?thesis using Cons by (cases x) auto
  qed
qed simp

lemma reap_events_sound:
  "distinct (map fst fl) \<Longrightarrow> reap_events evs fl free = (out, fl', free') \<Longrightarrow>
    distinct (map cp_id out) \<and> distinct (map fst fl') \<and>
    (\<forall>c \<in> set out. \<exists>info. map_of fl (cp_id c) = Some info \<and> completes info c) \<and>
    map_of fl' = map_of fl |` (- cp_id ` set out) \<and>
    length free + length fl \<le> length free' + length fl'"
proof (induction evs fl free arbitrary: out fl' free' rule: reap_events.induct)
  case (2 ev evs fl free)
  show ?case
  proof (cases "map_of fl (ev_data ev)")
    case None
    then have "reap_events evs fl (free @ [ev_obj ev]) = (out, fl', free')" using "2.prems"(2) by simp
    from "2.IH"(1) [OF None "2.prems"(1) this] show ?thesis by simp
  next
    case (Some info)
    let ?id = "ev_data ev" and ?fl1 = "AList.delete (ev_data ev) fl"
    obtain out1 where o: "reap_events evs ?fl1 (free @ [ev_obj ev]) = (out1, fl', free')"
      "out = event_completion info ev # out1"
      using "2.prems"(2) Some by (auto split: prod.splits)
    have "distinct (map fst ?fl1)" using "2.prems"(1) by (rule distinct_delete)
    note step = "2.IH"(2) [OF Some this o(1)]
    then have ih: "distinct (map cp_id out1)" "distinct (map fst fl')"
      "\<forall>c \<in> set out1. \<exists>i. map_of ?fl1 (cp_id c) = Some i \<and> completes i c"
      "map_of fl' = map_of ?fl1 |` (- cp_id ` set out1)"
      "length (free @ [ev_obj ev]) + length ?fl1 \<le> length free' + length fl'" by blast+
    have other: "cp_id c' \<noteq> ?id \<and> (\<exists>i. map_of fl (cp_id c') = Some i \<and> completes i c')"
      if "c' \<in> set out1" for c'
      using ih(3) that by (auto split: if_splits)
    moreover have "map_of fl' = map_of fl |` (- insert ?id (cp_id ` set out1))"
      unfolding ih(4) map_of_delete by (auto simp: restrict_map_def fun_eq_iff)
    moreover have "?id \<notin> cp_id ` set out1"
    proof
      assume "?id \<in> cp_id ` set out1"
      then obtain c' where "c' \<in> set out1" "cp_id c' = ?id" by (metis imageE)
      then show False using other [of c'] by simp
    qed
    moreover have "length free + length fl \<le> length free' + length fl'"
      using ih(5) length_delete [OF "2.prems"(1) Some] by simp
    ultimately show ?thesis
      using ih(1,2) Some event_completion_completes [of info ev] unfolding o(2) by auto
  qed
qed simp

interpretation libaio: io_engine "libaio_engine os aio" libaio_rep for os aio
proof
  fix s s' :: "'a libaio_state" and p rq
  assume r: "libaio_rep s p" and "eo_submit (libaio_engine os aio) rq s = Some (Inr (), s')"
  then have "libaio_submit os aio rq (fst s, snd s) = Some (Inr (), s')" by (simp add: libaio_engine_def)
  then have "map_of (la_in_flight (fst s)) (rq_id rq) = None" "la_free_iocbs (fst s) \<noteq> []"
    "la_in_flight (fst s') = (rq_id rq, info_of rq) # la_in_flight (fst s)"
    "la_free_iocbs (fst s') = butlast (la_free_iocbs (fst s))" "la_iodepth (fst s') = la_iodepth (fst s)"
    by (auto simp: libaio_submit_def Let_def split: if_splits prod.splits)
  then show "p (rq_id rq) = None \<and> libaio_rep s' (p(rq_id rq \<mapsto> info_of rq))"
    using r by (auto simp: libaio_rep_def map_of_eq_None_iff)
next
  fix s s' :: "'a libaio_state" and p rq ex
  assume r: "libaio_rep s p" and "eo_submit (libaio_engine os aio) rq s = Some (Inl ex, s')"
  then have "libaio_submit os aio rq (fst s, snd s) = Some (Inl ex, s')" by (simp add: libaio_engine_def)
  then have "fst s' = fst s \<or>
      map_of (la_in_flight (fst s)) (rq_id rq) = None \<and> la_iodepth (fst s') = la_iodepth (fst s) \<and>
      la_in_flight (fst s') = AList.delete (rq_id rq) ((rq_id rq, info_of rq) # la_in_flight (fst s)) \<and>
      la_free_iocbs (fst s') = la_free_iocbs (fst s)"
    by (auto simp: libaio_submit_def Let_def split: if_splits prod.splits simp del: delete_simps)
  then show "libaio_rep s' p" using r by (auto simp: libaio_rep_def delete_fresh simp del: delete_simps)
next
  fix s s' :: "'a libaio_state" and p mn mx cs
  assume r: "libaio_rep s p" and "eo_poll (libaio_engine os aio) mn mx s = Some (Inr cs, s')"
  then have "libaio_poll os aio mn mx (fst s, snd s) = Some (Inr cs, s')" by (simp add: libaio_engine_def)
  then consider "cs = []" "s' = s" | evs where
      "reap_events evs (la_in_flight (fst s)) (la_free_iocbs (fst s)) =
         (cs, la_in_flight (fst s'), la_free_iocbs (fst s'))" "la_iodepth (fst s') = la_iodepth (fst s)"
    by (cases s) (auto simp: libaio_poll_def Let_def split: if_splits option.splits prod.splits)
  then show "distinct (map cp_id cs) \<and>
      (\<forall>c \<in> set cs. \<exists>info. p (cp_id c) = Some info \<and> completes info c) \<and>
      libaio_rep s' (p |` (- cp_id ` set cs))"
    using r reap_events_sound by cases (force simp: libaio_rep_def)+
next
  fix s s' :: "'a libaio_state" and p mn mx ex
  assume r: "libaio_rep s p" and "eo_poll (libaio_engine os aio) mn mx s = Some (Inl ex, s')"
  then have "libaio_poll os aio mn mx (fst s, snd s) = Some (Inl ex, s')" by (simp add: libaio_engine_def)
  then have "fst s' = fst s"
    by (auto simp: libaio_poll_def Let_def split: if_splits option.splits prod.splits)
  then show "libaio_rep s' p" using r by (simp add: libaio_rep_def)
qed

section \<open>Properties\<close>

lemma rep_flight_size: "libaio_rep (e, w) p \<Longrightarrow> card (dom p) = length (la_in_flight e)"
  unfolding libaio_rep_def by (simp add: dom_map_of_conv_image_fst distinct_card [of "map fst (la_in_flight e)", simplified])

text \<open>
  As long as the caller keeps fewer requests pending than the queue depth and uses fresh ids, an
  open engine never throws a logic error: a submission returns or reports the error of the kernel,
  and a poll with nothing pending returns at once without a system call.
\<close>

lemma libaio_depth_honoured:
  assumes "libaio_rep (e, w) p" "0 \<le> la_fd e" "la_ctx e \<noteq> 0"
    and "p (rq_id rq) = None" "card (dom p) < nat (la_iodepth e)"
  shows "(\<exists>r s'. eo_submit (libaio_engine os aio) rq (e, w) = Some (r, s') \<and>
      (r = Inr () \<or> (\<exists>n m. r = Inl (SystemError n m)))) \<and>
    (p = Map.empty \<longrightarrow> eo_poll (libaio_engine os aio) mn mx (e, w) = Some (Inr [], (e, w)))"
proof
  have "la_free_iocbs e \<noteq> []"
    using assms(1,5) rep_flight_size [OF assms(1)] by (auto simp: libaio_rep_def)
  moreover have "map_of (la_in_flight e) (rq_id rq) = None" using assms(1,4) by (simp add: libaio_rep_def)
  ultimately show "\<exists>r s'. eo_submit (libaio_engine os aio) rq (e, w) = Some (r, s') \<and>
      (r = Inr () \<or> (\<exists>n m. r = Inl (SystemError n m)))"
    using assms(2,3)
    by (auto simp: libaio_engine_def libaio_submit_def Let_def system_error_def split: prod.splits)
  show "p = Map.empty \<longrightarrow> eo_poll (libaio_engine os aio) mn mx (e, w) = Some (Inr [], (e, w))"
    using assms(1) by (auto simp: libaio_rep_def libaio_engine_def libaio_poll_def Let_def)
qed

definition accepting_aio :: "nat aio_api" where
  "accepting_aio =
     \<lparr>aa_setup = (\<lambda>_ w. ((0, 1), w)), aa_submit = (\<lambda>_ _ w. (1, w + 1)),
      aa_getevents = (\<lambda>_ _ _ _ w. ((0, []), w)), aa_cancel = (\<lambda>_ _ w. (0, w)),
      aa_destroy = (\<lambda>_ w. (0, w)), aa_now = (\<lambda>w. (int w, w))\<rparr>"

lemma libaio_depth_honoured_example:
  "let e = new_libaio_engine\<lparr>la_fd := 3, la_ctx := 1, la_iodepth := 2, la_free_iocbs := [0, 1],
        la_iocb_pool := [blank_iocb, blank_iocb], la_events := 2\<rparr>
   in \<exists>r s'. eo_submit (libaio_engine (quiet_os 0) accepting_aio)
        \<lparr>rq_offset = 0, rq_buffer = 4096, rq_length = 512, rq_direction = Dir_kRead,
         rq_submit_time = 7, rq_id = 1\<rparr> (e, 0) = Some (r, s') \<and>
        (r = Inr () \<or> (\<exists>n m. r = Inl (SystemError n m)))"
proof -
  let ?e = "new_libaio_engine\<lparr>la_fd := 3, la_ctx := 1, la_iodepth := 2, la_free_iocbs := [0, 1],
        la_iocb_pool := [blank_iocb, blank_iocb], la_events := 2\<rparr>"
  have "libaio_rep (?e, 0 :: nat) Map.empty" by (simp add: libaio_rep_def new_libaio_engine_def)
  from conjunct1 [OF libaio_depth_honoured [OF this]]
  show ?thesis by (simp add: Let_def new_libaio_engine_def)
qed

end
