(* ===== verification/Engines.thy ===== *)
theory Engines
  imports Blocking_Engines Io_Uring_Engine Libaio_Engine
begin

text \<open>
  What the four engines have in common beyond the contract of submissions and polls: opening with
  the fallback from direct IO, the state a failed \<open>Open\<close> leaves, and \<open>Close\<close>.
\<close>

section \<open>Opening\<close>

text \<open>
  \<open>OpenFileWithDirectFallback\<close>: a buffered request makes one buffered open; a direct request makes a
  direct open, and a buffered one after it exactly when the first failed with \<open>EINVAL\<close> or
  \<open>EOPNOTSUPP\<close>. The reported flag is true only for a descriptor of the direct open, and a failure
  throws the errno of the last open made.
\<close>

lemma open_fallback:
  "open_file_with_direct_fallback os path direct w =
     (let (dfd, derr) = fst (os_open os path True w);
          w1 = (if direct then snd (os_open os path True w) else w);
          retry = (dfd < 0 \<and> (derr = EINVAL \<or> derr = EOPNOTSUPP));
          (fd, err) = fst (os_open os path False w1);
          w2 = snd (os_open os path False w1)
      in if direct \<and> 0 \<le> dfd then (Inr (dfd, True), w1)
         else if direct \<and> \<not> retry
         then (Inl (SystemError derr
                 ((''failed to open file '' @ sq path @ '' with O_DIRECT'') @ '': '' @ os_strerror os derr)), w1)
         else if 0 \<le> fd then (Inr (fd, False), w2)
         else (Inl (SystemError err ((''failed to open file '' @ sq path) @ '': '' @ os_strerror os err)), w2))"
  by (auto simp: open_file_with_direct_fallback_def system_error_def Let_def split: prod.splits)

text \<open>
  An \<open>Open\<close> that throws leaves the engine closed, so that it can be opened again, and releases the
  descriptor it had obtained; one that returns leaves it open with nothing in flight, with the flag
  of direct IO that the file system granted.
\<close>

lemma open_outcomes:
  "(case eo_open (io_uring_engine os ring) config (new_io_uring_engine, w) of
      None \<Rightarrow> False
    | Some (Inl ex, (e, w')) \<Rightarrow> e = new_io_uring_engine \<and>
        (case open_file_with_direct_fallback os (jc_filename config) (jc_direct config) w of
           (Inl ex', w1) \<Rightarrow> w' = w \<or> w' = w1
         | (Inr (fd, d), w1) \<Rightarrow> w' = w \<or> w' = snd (os_close os fd (snd (ra_queue_init ring (jc_iodepth config) w1))))
    | Some (Inr _, (e, w')) \<Rightarrow> 0 \<le> ur_fd e \<and> ur_ring_initialized e \<and> ur_in_flight e = [] \<and>
        int (ur_cqe_batch e) = jc_iodepth config \<and> uring_rep (e, w') Map.empty \<and>
        fst (open_file_with_direct_fallback os (jc_filename config) (jc_direct config) w) =
          Inr (ur_fd e, eo_direct (io_uring_engine os ring) (e, w')))
   \<and> (case eo_open (libaio_engine os aio) config (new_libaio_engine, w) of
      None \<Rightarrow> False
    | Some (Inl ex, (e, w')) \<Rightarrow> e = new_libaio_engine \<and>
        (case open_file_with_direct_fallback os (jc_filename config) (jc_direct config) w of
           (Inl ex', w1) \<Rightarrow> w' = w \<or> w' = w1
         | (Inr (fd, d), w1) \<Rightarrow> w' = w \<or> w' = snd (os_close os fd (snd (aa_setup aio (jc_iodepth config) w1))))
    | Some (Inr _, (e, w')) \<Rightarrow> 0 \<le> la_fd e \<and> libaio_rep (e, w') Map.empty \<and>
        la_iodepth e = jc_iodepth config \<and>
        fst (open_file_with_direct_fallback os (jc_filename config) (jc_direct config) w) =
          Inr (la_fd e, eo_direct (libaio_engine os aio) (e, w')))"
proof -
  have fd: "0 \<le> fd" if "open_file_with_direct_fallback os path direct w = (Inr (fd, d), w1)" for path direct fd d w1
    using that by (auto simp: open_file_with_direct_fallback_def split: if_splits prod.splits)
  show ?thesis
    by (auto simp: io_uring_engine_def uring_open_def new_io_uring_engine_def uring_rep_def
        libaio_engine_def libaio_open_def new_libaio_engine_def libaio_rep_def Let_def
        dest: fd split: sum.splits prod.splits)
qed

section \<open>Closing\<close>

text \<open>
  \<open>Close\<close> releases what \<open>Open\<close> obtained and forgets everything else, and a second \<open>Close\<close> makes no
  system call: the blocking engines always return from it, with the descriptor closed; when the
  drain of an asynchronous engine returns, the engine is as new.
\<close>

lemma close_idempotent:
  assumes "- 1 \<le> be_fd b" "- 1 \<le> ur_fd u" "- 1 \<le> la_fd a"
    and "eo_close (io_uring_engine os ring) (u, w) = Some (ru, (u', wu))"
    and "eo_close (libaio_engine os aio) (a, w) = Some (ra, (a', wa))"
  shows "(\<exists>b'. eo_close (psync_engine os) (b, w) =
        Some (Inr (), (b', if 0 \<le> be_fd b then snd (os_close os (be_fd b) w) else w)) \<and>
      eo_close (sync_engine os) (b, w) = eo_close (psync_engine os) (b, w) \<and>
      be_fd b' = - 1 \<and> blocking_rep (b', w) Map.empty \<and> \<not> be_direct_effective b' \<and>
      (\<forall>v. eo_close (psync_engine os) (b', v) = Some (Inr (), (b', v))))
    \<and> ru = Inr () \<and> u' = new_io_uring_engine \<and>
      eo_close (io_uring_engine os ring) (u', wu) = Some (Inr (), (u', wu))
    \<and> ra = Inr () \<and> a' = new_libaio_engine \<and>
      eo_close (libaio_engine os aio) (a', wa) = Some (Inr (), (a', wa))"
proof -
  have "ru = Inr () \<and> u' = new_io_uring_engine"
    using assms(2,4) by (auto simp: io_uring_engine_def uring_close_def new_io_uring_engine_def Let_def
        split: option.splits)
  moreover have "eo_close (io_uring_engine os ring) (new_io_uring_engine, wu) =
      Some (Inr (), (new_io_uring_engine, wu))"
    by (simp add: io_uring_engine_def uring_close_def new_io_uring_engine_def)
  moreover have "ra = Inr () \<and> a' = new_libaio_engine"
    using assms(3,5) by (auto simp: libaio_engine_def libaio_close_def new_libaio_engine_def Let_def
        split: option.splits)
  moreover have "eo_close (libaio_engine os aio) (new_libaio_engine, wa) =
      Some (Inr (), (new_libaio_engine, wa))"
    by (simp add: libaio_engine_def libaio_close_def new_libaio_engine_def)
  moreover have "\<exists>b'. eo_close (psync_engine os) (b, w) =
        Some (Inr (), (b', if 0 \<le> be_fd b then snd (os_close os (be_fd b) w) else w)) \<and>
      eo_close (sync_engine os) (b, w) = eo_close (psync_engine os) (b, w) \<and>
      be_fd b' = - 1 \<and> blocking_rep (b', w) Map.empty \<and> \<not> be_direct_effective b' \<and>
      (\<forall>v. eo_close (psync_engine os) (b', v) = Some (Inr (), (b', v)))"
    using assms(1)
    by (auto simp: psync_engine_def sync_engine_def blocking_close_def blocking_rep_def Let_def)
  ultimately show ?thesis by simp
qed

lemma close_idempotent_example:
  "eo_close (io_uring_engine (quiet_os 0) (instant_ring [])) (new_io_uring_engine, 5) =
     Some (Inr (), (new_io_uring_engine, 5))"
proof -
  have "eo_close (io_uring_engine (quiet_os 0) (instant_ring [])) (new_io_uring_engine, 5) =
      Some (Inr (), (new_io_uring_engine, 5))"
    by (simp add: io_uring_engine_def uring_close_def new_io_uring_engine_def)
  moreover have "eo_close (libaio_engine (quiet_os 0) accepting_aio) (new_libaio_engine, 5) =
      Some (Inr (), (new_libaio_engine, 5))"
    by (simp add: libaio_engine_def libaio_close_def new_libaio_engine_def)
  ultimately show ?thesis
    using close_idempotent [of new_blocking_engine new_io_uring_engine new_libaio_engine "quiet_os 0"
        "instant_ring []" 5 "Inr ()" new_io_uring_engine 5 accepting_aio "Inr ()" new_libaio_engine 5]
    by (simp add: new_blocking_engine_def new_io_uring_engine_def new_libaio_engine_def)
qed

text \<open>The drain of \<open>IoUringEngine::Close\<close> reaps everything a kernel that delivers has in flight.\<close>

definition ring_delivers :: "'w ring_api \<Rightarrow> (flight \<Rightarrow> 'w \<Rightarrow> bool) \<Rightarrow> bool" where
  "ring_delivers ring K \<longleftrightarrow> (\<forall>fl w. K fl w \<and> fl \<noteq> [] \<longrightarrow>
     (\<exists>c w1. do_while (\<lambda>(ret, cqe). ret = - EINTR) (ra_wait_cqe ring) w = Some ((0, c), w1) \<and>
        cqe_user_data c \<in> fst ` set fl \<and> K (AList.delete (cqe_user_data c) fl) (ra_cq_advance ring 1 w1)))"

lemma uring_drain_delivered:
  assumes "ring_delivers ring K" "K fl w"
  shows "\<exists>w'. uring_drain ring fl w = Some ([], w') \<and> K [] w'"
  using assms(2)
proof (induction "length fl" arbitrary: fl w rule: less_induct)
  case less
  show ?case
  proof (cases "fl = []")
    case True
    then show ?thesis using less.prems by (simp add: uring_drain.simps)
  next
    case False
    then obtain c w1 where c: "do_while (\<lambda>(ret, cqe). ret = - EINTR) (ra_wait_cqe ring) w = Some ((0, c), w1)"
      "cqe_user_data c \<in> fst ` set fl" "K (AList.delete (cqe_user_data c) fl) (ra_cq_advance ring 1 w1)"
      using assms(1) less.prems unfolding ring_delivers_def by blast
    have "length (AList.delete (cqe_user_data c) fl) < length fl"
      using c(2) by (induction fl) (auto simp: le_imp_less_Suc length_delete_le)
    from less.hyps [OF this c(3)] show ?thesis
      using False c(1) by (simp add: uring_drain.simps [of ring fl])
  qed
qed

text \<open>
  C29. \<open>IoUringEngine::Close\<close> on an open engine returns when the kernel delivers: if in every state of the
  world with requests outstanding the wait gives the entry of one of them, every request in flight
  is reaped first, then the ring is destroyed, then the file is closed, in this order, and the
  engine is as new, so that it can be opened again.
\<close>

theorem uring_close_drains:
  assumes "ring_delivers ring K" "K (ur_in_flight e) w" "ur_ring_initialized e" "0 \<le> ur_fd e"
  shows "\<exists>w1. K [] w1 \<and> eo_close (io_uring_engine os ring) (e, w) =
    Some (Inr (), (new_io_uring_engine, snd (os_close os (ur_fd e) (ra_queue_exit ring w1))))"
proof -
  obtain w1 where "uring_drain ring (ur_in_flight e) w = Some ([], w1)" "K [] w1"
    using uring_drain_delivered [OF assms(1,2)] by blast
  then show ?thesis using assms(3,4)
    by (intro exI [of _ w1]) (simp add: io_uring_engine_def uring_close_def new_io_uring_engine_def Let_def)
qed

definition draining_ring :: "uring_cqe list ring_api" where
  "draining_ring =
     \<lparr>ra_queue_init = (\<lambda>_ w. (0, w)), ra_queue_exit = (\<lambda>w. w), ra_get_sqe = (\<lambda>w. (True, w)),
      ra_prep = (\<lambda>_ w. w), ra_submit = (\<lambda>w. (1, w)), ra_wait_cqe_nr = (\<lambda>_ w. (0, w)),
      ra_wait_cqe = (\<lambda>w. ((0, hd w), w)), ra_peek_batch_cqe = (\<lambda>n w. (take n w, w)),
      ra_cq_advance = (\<lambda>n w. drop n w)\<rparr>"

theorem uring_close_drains_witness:
  "\<exists>w1. eo_close (io_uring_engine
        \<lparr>os_strerror = (\<lambda>_. ''error''), os_open = (\<lambda>_ _ w. ((3, 0), w)), os_close = (\<lambda>_ w. ((0, 0), w)),
         os_pread = (\<lambda>_ _ _ _ w. ((0, 0), w)), os_pwrite = (\<lambda>_ _ _ _ w. ((0, 0), w)),
         os_lseek = (\<lambda>_ off w. ((off, 0), w)), os_read = (\<lambda>_ _ _ w. ((0, 0), w)),
         os_write = (\<lambda>_ _ _ w. ((0, 0), w))\<rparr> draining_ring)
      (new_io_uring_engine\<lparr>ur_fd := 3, ur_ring_initialized := True, ur_cqe_batch := 2, ur_iodepth := 2,
         ur_in_flight := [(1, \<lparr>si_submit_time = 0, si_direction = Dir_kRead, si_length = 8\<rparr>),
           (2, \<lparr>si_submit_time = 0, si_direction = Dir_kRead, si_length = 8\<rparr>)]\<rparr>,
       [\<lparr>cqe_user_data = 2, cqe_res = 8\<rparr>, \<lparr>cqe_user_data = 1, cqe_res = 8\<rparr>]) =
    Some (Inr (), (new_io_uring_engine, w1))"
proof -
  define K where "K fl w \<longleftrightarrow> set (map fst fl) = set (map cqe_user_data w) \<and> distinct (map cqe_user_data w)"
    for fl :: flight and w :: "uring_cqe list"
  have delivers: "ring_delivers draining_ring K" unfolding ring_delivers_def
  proof (intro allI impI)
    fix fl w assume K: "K fl w \<and> fl \<noteq> []"
    then obtain c w1 where w: "w = c # w1" by (cases w) (auto simp: K_def)
    moreover have "do_while (\<lambda>(ret, cqe). ret = - EINTR) (ra_wait_cqe draining_ring) w = Some ((0, c), w)"
      by (simp add: do_while.simps draining_ring_def w)
    ultimately show "\<exists>c w1. do_while (\<lambda>(ret, cqe). ret = - EINTR) (ra_wait_cqe draining_ring) w =
          Some ((0, c), w1) \<and> cqe_user_data c \<in> fst ` set fl \<and>
        K (AList.delete (cqe_user_data c) fl) (ra_cq_advance draining_ring 1 w1)"
      using K unfolding K_def delete_keys
      by (intro exI [of _ c] exI [of _ w]) (auto simp: draining_ring_def image_set [symmetric])
  qed
  show ?thesis
    using uring_close_drains [OF delivers, of "new_io_uring_engine\<lparr>ur_fd := 3, ur_ring_initialized := True,
        ur_cqe_batch := 2, ur_iodepth := 2,
        ur_in_flight := [(1, \<lparr>si_submit_time = 0, si_direction = Dir_kRead, si_length = 8\<rparr>),
          (2, \<lparr>si_submit_time = 0, si_direction = Dir_kRead, si_length = 8\<rparr>)]\<rparr>"
      "[\<lparr>cqe_user_data = 2, cqe_res = 8\<rparr>, \<lparr>cqe_user_data = 1, cqe_res = 8\<rparr>]"]
    by (auto simp: K_def)
qed

end
