(* ===== verification/Float64.thy ===== *)
theory Float64
  imports Prelude "HOL-Library.Log_Nat"
begin

text \<open>
  The C++ \<open>double\<close> as the program uses it. A finite binary64 value is the rational it stands
  for; \<open>fl\<close> rounds a rational to the nearest one (53 bits of significand, least exponent
  \<open>-1074\<close>, ties to the even significand), which is what every conversion and every arithmetic
  operation does to its exact result. The values of the program stay far below the overflow
  threshold \<open>2 ^ 1024\<close>, so there is no infinity and no NaN here.
\<close>

section \<open>Rounding\<close>

definition pow2 :: "int \<Rightarrow> rat" where
  "pow2 k = (if 0 \<le> k then 2 ^ nat k else 1 / 2 ^ nat (- k))"

text \<open>The exponent of a positive rational: \<open>pow2 (ilog2 x) \<le> x < pow2 (ilog2 x + 1)\<close>.\<close>

definition ilog2 :: "rat \<Rightarrow> int" where
  "ilog2 x =
     (case quotient_of x of (n, d) \<Rightarrow>
        let k = int (floorlog 2 (nat n)) - int (floorlog 2 (nat d)) in
          if pow2 k \<le> x then k else k - 1)"

definition round_even :: "rat \<Rightarrow> int" where
  "round_even x =
     (let f = \<lfloor>x\<rfloor>; r = x - of_int f in
        if r < 1 / 2 then f else if r > 1 / 2 then f + 1 else if even f then f else f + 1)"

definition fl_exp :: "rat \<Rightarrow> int" where
  "fl_exp x = max (ilog2 x - 52) (- 1074)"

definition fl :: "rat \<Rightarrow> rat" where
  "fl x = (if x = 0 then 0 else let e = fl_exp \<bar>x\<bar> in of_int (round_even (x / pow2 e)) * pow2 e)"

text \<open>\<open>std::ceil\<close>, \<open>std::floor\<close>, \<open>std::round\<close> and \<open>std::llround\<close> are exact on these values.\<close>

definition llround :: "rat \<Rightarrow> int" where
  "llround x = (if 0 \<le> x then \<lfloor>x + 1 / 2\<rfloor> else - \<lfloor>- x + 1 / 2\<rfloor>)"

text \<open>
  Conversions. A conversion of a value outside the range of the unsigned type is undefined in
  C++; here it wraps, and the users of \<open>to_u64\<close> prove that it does not happen.
\<close>

definition of_u64 :: "u64 \<Rightarrow> rat" where
  "of_u64 w = fl (of_nat (unat w))"

definition to_u64 :: "rat \<Rightarrow> u64" where
  "to_u64 x = word_of_int \<lfloor>x\<rfloor>"

text \<open>\<open>std::clamp\<close> and \<open>std::max\<close>.\<close>

definition clamp :: "rat \<Rightarrow> rat \<Rightarrow> rat \<Rightarrow> rat" where
  "clamp v lo hi = (if v < lo then lo else if hi < v then hi else v)"

section \<open>Powers and exponents\<close>

lemma pow2_pos [simp]: "0 < pow2 k"
  by (simp add: pow2_def)

lemma pow2_nonzero [simp]: "pow2 k \<noteq> 0"
  using pow2_pos [of k] by linarith

lemma pow2_0 [simp]: "pow2 0 = 1"
  by (simp add: pow2_def)

lemma pow2_powi: "pow2 k = 2 powi k"
  by (simp add: pow2_def power_int_def power_one_over inverse_eq_divide)

lemma pow2_add: "pow2 (a + b) = pow2 a * pow2 b"
  by (simp add: pow2_powi power_int_add)

lemma pow2_diff: "pow2 (a - b) = pow2 a / pow2 b"
  by (simp add: pow2_powi power_int_diff)

lemma pow2_mono: "a \<le> b \<Longrightarrow> pow2 a \<le> pow2 b"
  by (simp add: pow2_powi power_int_increasing)

lemma pow2_strict_mono: "a < b \<Longrightarrow> pow2 a < pow2 b"
  by (simp add: pow2_powi power_int_strict_increasing)

lemma pow2_less_iff [simp]: "pow2 a < pow2 b \<longleftrightarrow> a < b"
  using pow2_strict_mono [of a b] pow2_mono [of b a] by linarith

lemma pow2_le_iff [simp]: "pow2 a \<le> pow2 b \<longleftrightarrow> a \<le> b"
  using pow2_less_iff [of b a] by linarith

lemma pow2_nat: "pow2 (int n) = 2 ^ n"
  by (simp add: pow2_def)

lemma ilog2_bounds:
  assumes "0 < x"
  shows "pow2 (ilog2 x) \<le> x \<and> x < pow2 (ilog2 x + 1)"
proof -
  obtain n d where q: "quotient_of x = (n, d)" by fastforce
  have x: "x = of_int n / of_int d" and d: "0 < d"
    using quotient_of_div [OF q] quotient_of_denom_pos [OF q] by simp_all
  have n: "0 < n" using assms x d by (simp add: zero_less_divide_iff)
  define a where "a = floorlog 2 (nat n)"
  define b where "b = floorlog 2 (nat d)"
  have bd: "of_int n < (2::rat) ^ a" "(2::rat) ^ (a - 1) \<le> of_int n"
    "of_int d < (2::rat) ^ b" "(2::rat) ^ (b - 1) \<le> of_int d"
  proof -
    have "2 ^ (a - 1) \<le> nat n \<and> nat n < 2 ^ a" "2 ^ (b - 1) \<le> nat d \<and> nat d < 2 ^ b"
      unfolding a_def b_def using n d by (intro floorlog_bounds; simp)+
    then have "2 ^ (a - 1) \<le> n" "n < 2 ^ a" "2 ^ (b - 1) \<le> d" "d < 2 ^ b"
      using n d by (simp_all add: nat_less_iff le_nat_iff)
    then show "of_int n < (2::rat) ^ a" "(2::rat) ^ (a - 1) \<le> of_int n"
      "of_int d < (2::rat) ^ b" "(2::rat) ^ (b - 1) \<le> of_int d"
      by (metis of_int_less_iff of_int_numeral of_int_power,
          metis of_int_le_iff of_int_numeral of_int_power,
          metis of_int_less_iff of_int_numeral of_int_power,
          metis of_int_le_iff of_int_numeral of_int_power)
  qed
  have ab: "0 < a" "0 < b" using n d by (auto simp: a_def b_def floorlog_def)
  define k where "k = int a - int b"
  have hi: "x < pow2 (k + 1)"
  proof -
    have "x < 2 ^ a / 2 ^ (b - 1)"
      unfolding x using bd n d by (intro frac_less) auto
    also have "\<dots> = pow2 (int a - int (b - 1))"
      by (simp only: pow2_diff pow2_nat)
    also have "int a - int (b - 1) = k + 1" using ab by (simp add: k_def)
    finally show ?thesis .
  qed
  have lo: "pow2 (k - 1) \<le> x"
  proof -
    have "pow2 (k - 1) = 2 ^ (a - 1) / 2 ^ b"
      using ab by (simp add: k_def pow2_nat of_nat_diff algebra_simps flip: pow2_diff pow2_nat)
    also have "\<dots> \<le> x"
      unfolding x using bd n d by (intro frac_le) auto
    finally show ?thesis .
  qed
  have "ilog2 x = (if pow2 k \<le> x then k else k - 1)"
    by (simp add: ilog2_def q k_def a_def b_def Let_def)
  with hi lo show ?thesis by auto
qed

lemma ilog2_unique:
  assumes "pow2 k \<le> x" "x < pow2 (k + 1)"
  shows "ilog2 x = k"
proof -
  have "0 < x" using assms(1) pow2_pos [of k] by linarith
  from ilog2_bounds [OF this] have "pow2 k < pow2 (ilog2 x + 1)" "pow2 (ilog2 x) < pow2 (k + 1)"
    using assms by linarith+
  then show ?thesis by simp
qed

lemma ilog2_mono: "0 < x \<Longrightarrow> x \<le> y \<Longrightarrow> ilog2 x \<le> ilog2 y"
  using ilog2_bounds [of x] ilog2_bounds [of y] pow2_less_iff [of "ilog2 x" "ilog2 y + 1"]
  by linarith

section \<open>Rounding to an integer\<close>

lemma round_even_of_int [simp]: "round_even (of_int i) = i"
  by (simp add: round_even_def)

lemma round_even_bounds: "of_int (round_even x) - 1 / 2 \<le> x \<and> x \<le> of_int (round_even x) + 1 / 2"
proof -
  have "of_int \<lfloor>x\<rfloor> \<le> x" "x < of_int \<lfloor>x\<rfloor> + 1" by linarith+
  then show ?thesis by (simp add: round_even_def Let_def; linarith)
qed

lemma round_even_mono:
  assumes "x \<le> y"
  shows "round_even x \<le> round_even y"
proof (cases "\<lfloor>x\<rfloor> = \<lfloor>y\<rfloor>")
  case True
  with assms show ?thesis by (simp add: round_even_def Let_def)
next
  case False
  with assms have "\<lfloor>x\<rfloor> + 1 \<le> \<lfloor>y\<rfloor>" using floor_mono [OF assms] by linarith
  moreover have "round_even x \<le> \<lfloor>x\<rfloor> + 1" "\<lfloor>y\<rfloor> \<le> round_even y"
    by (simp_all add: round_even_def Let_def)
  ultimately show ?thesis by linarith
qed

lemma round_even_le_int: "x \<le> of_int i \<Longrightarrow> round_even x \<le> i"
  using round_even_mono [of x "of_int i"] by simp

lemma round_even_ge_int: "of_int i \<le> x \<Longrightarrow> i \<le> round_even x"
  using round_even_mono [of "of_int i" x] by simp

text \<open>The nearest integer, when nothing ties.\<close>

lemma round_even_nearest:
  assumes "\<bar>x - of_int i\<bar> < 1 / 2"
  shows "round_even x = i"
proof -
  have "of_int (round_even x) < (of_int (i + 1) :: rat)" "of_int (i - 1) < (of_int (round_even x) :: rat)"
    using round_even_bounds [of x] assms by (simp_all add: abs_less_iff; linarith)+
  then show ?thesis by (simp only: of_int_less_iff)
qed

section \<open>Properties of the rounding\<close>

lemma fl_0 [simp]: "fl 0 = 0"
  by (simp add: fl_def)

lemma fl_pos_eq: "0 < x \<Longrightarrow> fl x = of_int (round_even (x / pow2 (fl_exp x))) * pow2 (fl_exp x)"
  by (simp add: fl_def Let_def)

text \<open>A value that a significand of 53 bits can hold is not changed.\<close>

lemma fl_exact:
  assumes "x = of_int m * pow2 e" "\<bar>m\<bar> < 2 ^ 53" "- 1074 \<le> e"
  shows "fl x = x"
proof (cases "x = 0")
  case False
  have "\<bar>x\<bar> < 2 ^ 53 * pow2 e"
  proof -
    have "\<bar>of_int m\<bar> < (2 ^ 53 :: rat)" using assms(2) by (metis of_int_abs of_int_less_iff of_int_numeral of_int_power)
    then show ?thesis using assms(1) by (simp add: abs_mult abs_of_pos)
  qed
  also have "\<dots> = pow2 (53 + e)" using pow2_nat [of 53] by (simp add: pow2_add)
  finally have "\<bar>x\<bar> < pow2 (53 + e)" .
  moreover have "pow2 (ilog2 \<bar>x\<bar>) \<le> \<bar>x\<bar>" using ilog2_bounds [of "\<bar>x\<bar>"] False by simp
  ultimately have "pow2 (ilog2 \<bar>x\<bar>) < pow2 (53 + e)" by (rule order_le_less_trans [rotated])
  then have le: "fl_exp \<bar>x\<bar> \<le> e" using assms(3) by (simp add: fl_exp_def)
  define k where "k = nat (e - fl_exp \<bar>x\<bar>)"
  have "x / pow2 (fl_exp \<bar>x\<bar>) = of_int m * pow2 (e - fl_exp \<bar>x\<bar>)"
    by (simp add: assms(1) pow2_diff)
  also have "pow2 (e - fl_exp \<bar>x\<bar>) = of_int (2 ^ k)"
    using le by (simp add: k_def flip: pow2_nat)
  finally have q: "x / pow2 (fl_exp \<bar>x\<bar>) = of_int (m * 2 ^ k)" by simp
  have "fl x = of_int (round_even (x / pow2 (fl_exp \<bar>x\<bar>))) * pow2 (fl_exp \<bar>x\<bar>)"
    using False by (simp add: fl_def Let_def)
  also have "\<dots> = x / pow2 (fl_exp \<bar>x\<bar>) * pow2 (fl_exp \<bar>x\<bar>)"
    by (simp only: q round_even_of_int)
  finally show ?thesis by simp
qed simp

lemma fl_pow2: "- 1074 \<le> e \<Longrightarrow> fl (pow2 e) = pow2 e"
  by (rule fl_exact [of _ 1 e]) simp_all

lemma fl_of_int: "\<bar>i\<bar> \<le> 2 ^ 53 \<Longrightarrow> fl (of_int i) = of_int i"
proof (cases "\<bar>i\<bar> = 2 ^ 53")
  case True
  then have "of_int i = of_int (sgn i) * pow2 53"
    using pow2_nat [of 53] by (cases "0 \<le> i") (auto simp: abs_if)
  moreover have "\<bar>sgn i\<bar> < 2 ^ 53" by (simp add: sgn_if)
  ultimately show ?thesis by (intro fl_exact [of _ "sgn i" 53]) simp_all
next
  case False
  assume "\<bar>i\<bar> \<le> 2 ^ 53"
  with False show ?thesis by (intro fl_exact [of _ i 0]) simp_all
qed

lemma fl_of_nat: "n \<le> 2 ^ 53 \<Longrightarrow> fl (of_nat n) = of_nat n"
proof -
  assume "n \<le> 2 ^ 53"
  then have "\<bar>int n\<bar> \<le> 2 ^ 53" by (metis abs_of_nat of_nat_le_iff of_nat_numeral of_nat_power)
  then show ?thesis using fl_of_int [of "int n"] by simp
qed

lemma of_u64_exact: "unat w \<le> 2 ^ 53 \<Longrightarrow> of_u64 w = of_nat (unat w)"
  unfolding of_u64_def by (rule fl_of_nat)

lemma fl_1 [simp]: "fl 1 = 1"
  using fl_of_nat [of 1] by simp

lemma fl_minus: "fl (- x) = - fl x"
proof -
  have r: "round_even (- y) = - round_even y" for y
  proof (cases "y = of_int \<lfloor>y\<rfloor>")
    case True
    then have "- y = of_int (- \<lfloor>y\<rfloor>)" by linarith
    then show ?thesis by (metis True round_even_of_int)
  next
    case False
    then have b: "of_int \<lfloor>y\<rfloor> < y" "y < of_int \<lfloor>y\<rfloor> + 1" by linarith+
    then have f: "\<lfloor>- y\<rfloor> = - \<lfloor>y\<rfloor> - 1" by (intro floor_unique) simp_all
    define r where "r = y - of_int \<lfloor>y\<rfloor>"
    have "- y - of_int \<lfloor>- y\<rfloor> = 1 - r" by (simp add: f r_def)
    moreover consider "r < 1 / 2" | "r = 1 / 2" | "1 / 2 < r" by linarith
    ultimately show ?thesis
      by cases (simp_all add: round_even_def Let_def f flip: r_def)
  qed
  show ?thesis by (simp add: fl_def Let_def r)
qed

lemma fl_nonneg: "0 \<le> x \<Longrightarrow> 0 \<le> fl x"
  using round_even_ge_int [of 0 "x / pow2 (fl_exp x)"]
  by (cases "x = 0") (simp_all add: fl_pos_eq zero_le_mult_iff zero_le_divide_iff less_imp_le)

text \<open>A rounded value is a double.\<close>

lemma fl_form:
  assumes x: "0 < x"
  obtains m e where "fl x = of_int m * pow2 e" "0 \<le> m" "m \<le> 2 ^ 53" "- 1074 \<le> e"
proof (rule that)
  let ?e = "fl_exp x"
  show "fl x = of_int (round_even (x / pow2 ?e)) * pow2 ?e" by (rule fl_pos_eq [OF x])
  have e: "ilog2 x + 1 \<le> ?e + 53" by (simp add: fl_exp_def)
  have "x < pow2 (ilog2 x + 1)" using ilog2_bounds [OF x] by simp
  also have "\<dots> \<le> pow2 (53 + ?e)" using e by simp
  also have "\<dots> = 2 ^ 53 * pow2 ?e" using pow2_nat [of 53] by (simp add: pow2_add)
  finally have "x / pow2 ?e \<le> of_int (2 ^ 53)" by (simp add: pos_divide_le_eq)
  then show "round_even (x / pow2 ?e) \<le> 2 ^ 53" by (rule round_even_le_int)
  show "0 \<le> round_even (x / pow2 ?e)" using x by (intro round_even_ge_int) (simp add: less_imp_le)
  show "- 1074 \<le> ?e" by (simp add: fl_exp_def)
qed

lemma fl_idem [simp]: "fl (fl x) = fl x"
proof -
  have pos: "fl (fl x) = fl x" if x: "0 < x" for x
  proof -
    obtain m e where f: "fl x = of_int m * pow2 e" "0 \<le> m" "m \<le> 2 ^ 53" "- 1074 \<le> e"
      using fl_form [OF x] by metis
    show ?thesis
    proof (cases "m = 2 ^ 53")
      case True
      then have "fl x = pow2 (53 + e)" using f(1) pow2_nat [of 53] by (simp add: pow2_add)
      then show ?thesis using f(4) by (simp add: fl_pow2)
    next
      case False
      with f have "\<bar>m\<bar> < 2 ^ 53" by simp
      from fl_exact [OF f(1) this f(4)] show ?thesis .
    qed
  qed
  consider "0 < x" | "x = 0" | "0 < - x" by linarith
  then show ?thesis
  proof cases
    case 3
    from pos [OF this] show ?thesis by (simp add: fl_minus)
  qed (use pos in simp_all)
qed

text \<open>Beyond \<open>2 ^ 53\<close> every double is a whole number.\<close>

lemma fl_whole_or_small:
  assumes "0 < x"
  shows "(\<exists>i. fl x = of_int i) \<or> fl x \<le> of_int (2 ^ 53)"
proof -
  obtain m e where f: "fl x = of_int m * pow2 e" "0 \<le> m" "m \<le> 2 ^ 53" using fl_form [OF assms] by metis
  show ?thesis
  proof (cases "0 \<le> e")
    case True
    then have "fl x = of_int (m * 2 ^ nat e)" using f(1) by (simp add: pow2_def)
    then show ?thesis by blast
  next
    case False
    then have "pow2 e \<le> 1" using pow2_mono [of e 0] by simp
    then have "of_int m * pow2 e \<le> of_int m * 1" using f(2) by (intro mult_left_mono) simp_all
    also have "\<dots> \<le> of_int (2 ^ 53)" unfolding mult_1_right of_int_le_iff by (rule f(3))
    finally show ?thesis using f(1) by simp
  qed
qed

text \<open>Rounding is monotone.\<close>

lemma fl_exp_mono: "0 < x \<Longrightarrow> x \<le> y \<Longrightarrow> fl_exp x \<le> fl_exp y"
  using ilog2_mono [of x y] by (simp add: fl_exp_def)

lemma fl_le_pow2:
  assumes "0 < x" "x \<le> pow2 k" "- 1074 \<le> k"
  shows "fl x \<le> pow2 k"
proof -
  have "pow2 (ilog2 x) \<le> pow2 k" using ilog2_bounds [OF assms(1)] assms(2) by linarith
  then have e: "fl_exp x \<le> k" using assms(3) by (simp add: fl_exp_def)
  have "x / pow2 (fl_exp x) \<le> pow2 (k - fl_exp x)"
    using assms(2) by (simp add: pow2_diff divide_right_mono less_imp_le)
  also have "pow2 (k - fl_exp x) = of_int (2 ^ nat (k - fl_exp x))"
    using e by (simp flip: pow2_nat)
  finally have "round_even (x / pow2 (fl_exp x)) \<le> 2 ^ nat (k - fl_exp x)"
    by (rule round_even_le_int)
  then have "(of_int (round_even (x / pow2 (fl_exp x))) :: rat) \<le> of_int (2 ^ nat (k - fl_exp x))"
    by (simp only: of_int_le_iff)
  also have "\<dots> = pow2 (k - fl_exp x)" using e by (simp flip: pow2_nat)
  finally show ?thesis
    using assms(1) by (simp add: fl_pos_eq pow2_diff pos_le_divide_eq)
qed

lemma fl_ge_pow2:
  assumes "pow2 k \<le> x" "- 1074 \<le> k"
  shows "pow2 k \<le> fl x"
proof -
  have x: "0 < x" using assms(1) pow2_pos [of k] by linarith
  show ?thesis
  proof (cases "fl_exp x \<le> k")
    case True
    have "of_int (2 ^ nat (k - fl_exp x)) = pow2 (k - fl_exp x)"
      using True by (simp flip: pow2_nat)
    also have "\<dots> \<le> x / pow2 (fl_exp x)"
      using assms(1) by (simp add: pow2_diff divide_right_mono less_imp_le)
    finally have "2 ^ nat (k - fl_exp x) \<le> round_even (x / pow2 (fl_exp x))"
      by (rule round_even_ge_int)
    then have "of_int (2 ^ nat (k - fl_exp x)) \<le> (of_int (round_even (x / pow2 (fl_exp x))) :: rat)"
      by (simp only: of_int_le_iff)
    moreover have "of_int (2 ^ nat (k - fl_exp x)) = pow2 (k - fl_exp x)"
      using True by (simp flip: pow2_nat)
    ultimately have "pow2 k / pow2 (fl_exp x) \<le> of_int (round_even (x / pow2 (fl_exp x)))"
      by (metis pow2_diff)
    then show ?thesis
      using x by (simp add: fl_pos_eq pos_divide_le_eq)
  next
    case False
    have "k \<le> fl_exp x" using False by simp
    have "pow2 (ilog2 x) \<le> x" using ilog2_bounds [OF x] by simp
    have "1 \<le> x / pow2 (fl_exp x)"
    proof -
      have "fl_exp x = ilog2 x - 52" using False assms(2) by (auto simp: fl_exp_def)
      then have "pow2 (fl_exp x) \<le> pow2 (ilog2 x)" by simp
      also note \<open>pow2 (ilog2 x) \<le> x\<close>
      finally show ?thesis by (simp add: pos_le_divide_eq)
    qed
    then have "1 \<le> round_even (x / pow2 (fl_exp x))" using round_even_ge_int [of 1] by simp
    then have "pow2 (fl_exp x) \<le> fl x" using x by (simp add: fl_pos_eq)
    then show ?thesis using \<open>k \<le> fl_exp x\<close> pow2_mono order_trans by blast
  qed
qed

lemma fl_mono_pos:
  assumes "0 < x" "x \<le> y"
  shows "fl x \<le> fl y"
proof (cases "fl_exp x = fl_exp y")
  case True
  have "x / pow2 (fl_exp y) \<le> y / pow2 (fl_exp y)"
    using assms(2) by (simp add: divide_right_mono less_imp_le)
  from round_even_mono [OF this] show ?thesis
    using assms by (simp add: fl_pos_eq True mult_right_mono less_imp_le)
next
  case False
  then have lt: "fl_exp x < fl_exp y" using fl_exp_mono [OF assms] by simp
  define k where "k = ilog2 y"
  have k: "ilog2 x < k" "- 1074 \<le> k"
    using lt by (auto simp: fl_exp_def k_def)
  have "x \<le> pow2 k"
    using ilog2_bounds [OF assms(1)] k(1) pow2_mono [of "ilog2 x + 1" k] by linarith
  then have "fl x \<le> pow2 k" using fl_le_pow2 assms(1) k(2) by blast
  moreover have "pow2 k \<le> fl y"
    using ilog2_bounds [of y] assms k(2) by (intro fl_ge_pow2) (auto simp: k_def)
  ultimately show ?thesis by linarith
qed

lemma fl_mono:
  assumes "x \<le> y"
  shows "fl x \<le> fl y"
proof -
  consider "0 < x" | "x \<le> 0" "0 \<le> y" | "y < 0" by linarith
  then show ?thesis
  proof cases
    case 1
    then show ?thesis using fl_mono_pos assms by blast
  next
    case 2
    then show ?thesis using fl_nonneg [of y] fl_nonneg [of "- x"] by (simp add: fl_minus)
  next
    case 3
    then show ?thesis using fl_mono_pos [of "- y" "- x"] assms by (simp add: fl_minus)
  qed
qed

lemma fl_le_int: "x \<le> of_int i \<Longrightarrow> \<bar>i\<bar> \<le> 2 ^ 53 \<Longrightarrow> fl x \<le> of_int i"
  using fl_mono [of x "of_int i"] by (simp add: fl_of_int)

lemma fl_ge_int: "of_int i \<le> x \<Longrightarrow> \<bar>i\<bar> \<le> 2 ^ 53 \<Longrightarrow> of_int i \<le> fl x"
  using fl_mono [of "of_int i" x] by (simp add: fl_of_int)

text \<open>The rounding error is at most half a unit in the last place.\<close>

lemma fl_error: "0 < x \<Longrightarrow> \<bar>fl x - x\<bar> \<le> pow2 (fl_exp x - 1)"
proof -
  assume x: "0 < x"
  define q where "q = x / pow2 (fl_exp x)"
  have "\<bar>of_int (round_even q) - q\<bar> \<le> 1 / 2"
    unfolding abs_le_iff using round_even_bounds [of q] by linarith
  then have le: "\<bar>of_int (round_even q) - q\<bar> * pow2 (fl_exp x) \<le> 1 / 2 * pow2 (fl_exp x)"
    by (rule mult_right_mono) (simp add: less_imp_le)
  have "\<bar>fl x - x\<bar> = \<bar>of_int (round_even q) - q\<bar> * pow2 (fl_exp x)"
  proof -
    have "fl x - x = (of_int (round_even q) - q) * pow2 (fl_exp x)"
      using x by (simp add: fl_pos_eq q_def algebra_simps)
    then show ?thesis by (simp add: abs_mult abs_of_pos)
  qed
  moreover have "pow2 (fl_exp x - 1) = 1 / 2 * pow2 (fl_exp x)"
    using pow2_nat [of 1] by (simp add: pow2_diff)
  ultimately show ?thesis using le by linarith
qed

lemma fl_rel_error:
  assumes "pow2 (- 1022) \<le> x"
  shows "\<bar>fl x - x\<bar> \<le> x * pow2 (- 53)"
proof -
  have x: "0 < x" using assms pow2_pos [of "- 1022"] by linarith
  have b: "pow2 (ilog2 x) \<le> x" "x < pow2 (ilog2 x + 1)" using ilog2_bounds [OF x] by auto
  have "pow2 (- 1022) < pow2 (ilog2 x + 1)" using assms b by linarith
  then have e: "fl_exp x - 1 = ilog2 x + - 53" by (simp add: fl_exp_def)
  have "\<bar>fl x - x\<bar> \<le> pow2 (ilog2 x) * pow2 (- 53)"
    using fl_error [OF x] unfolding e pow2_add .
  also have "\<dots> \<le> x * pow2 (- 53)" using b(1) by (rule mult_right_mono) (simp add: less_imp_le)
  finally show ?thesis .
qed

end
