(* ===== verification/Workload.thy ===== *)
theory Workload
  imports Common_Types Float64
begin

text \<open>
  The two generators a worker draws its requests from: \<open>OffsetGenerator\<close>
  (\<open>src/telemetry/offset_generator.cpp\<close>) and \<open>IODirectionDecider\<close>
  (\<open>src/telemetry/io_direction_decider.cpp\<close>). The distributions of the C++ library are parameters:
  \<open>uniform lo hi rng\<close> and \<open>bernoulli p rng\<close> return the value drawn and the engine after the draw.
\<close>

section \<open>OffsetGenerator\<close>

record 'g offset_generator =
  og_pattern :: access_pattern
  og_file_size :: u64
  og_block_size :: u64
  og_alignment :: u64
  og_sequential_offset :: u64
  og_rng :: 'g
  og_dist_max :: u64

definition offset_generator_create ::
    "access_pattern \<Rightarrow> u64 \<Rightarrow> u64 \<Rightarrow> u64 \<Rightarrow> 'g \<Rightarrow> 'g offset_generator" where
  "offset_generator_create pattern file_size block_size alignment seed =
     \<lparr>og_pattern = pattern, og_file_size = file_size, og_block_size = block_size,
      og_alignment = alignment, og_sequential_offset = 0, og_rng = seed,
      og_dist_max = file_size - block_size\<rparr>"

text \<open>\<open>static_cast<off_t>\<close> reads the 64 bits as a signed number.\<close>

definition next_offset ::
    "(u64 \<Rightarrow> u64 \<Rightarrow> 'g \<Rightarrow> u64 \<times> 'g) \<Rightarrow> 'g offset_generator \<Rightarrow> int \<times> 'g offset_generator" where
  "next_offset uniform g =
     (if og_pattern g = kSequential
      then let current = sint (og_sequential_offset g);
               advanced = og_sequential_offset g + og_block_size g;
               wrapped = (if advanced + og_block_size g > og_file_size g then 0 else advanced)
           in (current, g\<lparr>og_sequential_offset := wrapped\<rparr>)
      else let (raw, rng) = uniform 0 (og_dist_max g) (og_rng g);
               aligned = raw div og_alignment g * og_alignment g
           in (sint aligned, g\<lparr>og_rng := rng\<rparr>))"

fun offsets ::
    "(u64 \<Rightarrow> u64 \<Rightarrow> 'g \<Rightarrow> u64 \<times> 'g) \<Rightarrow> nat \<Rightarrow> 'g offset_generator \<Rightarrow> int list" where
  "offsets uniform 0 g = []"
| "offsets uniform (Suc n) g =
     (let (o1, g1) = next_offset uniform g in o1 # offsets uniform n g1)"

section \<open>IODirectionDecider\<close>

record 'g direction_decider =
  dd_mode :: rw_mode
  dd_rng :: 'g
  dd_p :: rat

definition direction_decider_create :: "rw_mode \<Rightarrow> int \<Rightarrow> 'g \<Rightarrow> 'g direction_decider" where
  "direction_decider_create mode rwmixread seed =
     \<lparr>dd_mode = mode, dd_rng = seed, dd_p = fl (fl (of_int rwmixread) / 100)\<rparr>"

definition next_direction ::
    "(rat \<Rightarrow> 'g \<Rightarrow> bool \<times> 'g) \<Rightarrow> 'g direction_decider \<Rightarrow> io_direction \<times> 'g direction_decider" where
  "next_direction bernoulli d =
     (case dd_mode d of
        Mode_kRead \<Rightarrow> (Dir_kRead, d)
      | Mode_kRandRead \<Rightarrow> (Dir_kRead, d)
      | Mode_kWrite \<Rightarrow> (Dir_kWrite, d)
      | Mode_kRandWrite \<Rightarrow> (Dir_kWrite, d)
      | _ \<Rightarrow> let (b, rng) = bernoulli (dd_p d) (dd_rng d)
             in (if b then Dir_kRead else Dir_kWrite, d\<lparr>dd_rng := rng\<rparr>))"

fun directions ::
    "(rat \<Rightarrow> 'g \<Rightarrow> bool \<times> 'g) \<Rightarrow> nat \<Rightarrow> 'g direction_decider \<Rightarrow> io_direction list" where
  "directions bernoulli 0 d = []"
| "directions bernoulli (Suc n) d =
     (let (x, d1) = next_direction bernoulli d in x # directions bernoulli n d1)"

lemma created_generator [simp]:
  "og_pattern (offset_generator_create pattern fs bs al seed) = pattern"
  "og_file_size (offset_generator_create pattern fs bs al seed) = fs"
  "og_block_size (offset_generator_create pattern fs bs al seed) = bs"
  "og_alignment (offset_generator_create pattern fs bs al seed) = al"
  "og_sequential_offset (offset_generator_create pattern fs bs al seed) = 0"
  "og_dist_max (offset_generator_create pattern fs bs al seed) = fs - bs"
  by (simp_all add: offset_generator_create_def)

section \<open>Sequential offsets\<close>

lemma next_offset_sequential:
  assumes g: "og_pattern g = kSequential"
    and k: "unat (og_sequential_offset g) = k * unat (og_block_size g)"
    and m: "m = unat (og_file_size g) div unat (og_block_size g)" "k < m"
    and fs: "unat (og_file_size g) < 2 ^ 63" and bs: "0 < unat (og_block_size g)"
  shows "\<exists>g'. next_offset uniform g = (int (k * unat (og_block_size g)), g') \<and>
    og_pattern g' = kSequential \<and> og_block_size g' = og_block_size g \<and>
    og_file_size g' = og_file_size g \<and>
    unat (og_sequential_offset g') = (Suc k mod m) * unat (og_block_size g)"
proof -
  let ?b = "unat (og_block_size g)" and ?f = "unat (og_file_size g)"
  have "Suc k * ?b \<le> m * ?b" using m(2) by (intro mult_le_mono1) simp
  also have "m * ?b \<le> ?f" using m(1) by (simp add: div_times_less_eq_dividend)
  finally have adv: "k * ?b + ?b \<le> ?f" by (simp add: add.commute)
  then have cur: "sint (og_sequential_offset g) = int (k * ?b)" using k fs bs by (simp add: sint_small)
  define a where "a = og_sequential_offset g + og_block_size g"
  have a: "unat a = Suc k * ?b"
    unfolding a_def using unat_add64 [of "og_sequential_offset g" "og_block_size g"] k adv fs by simp
  have "unat a + ?b < 2 ^ 64" using a adv fs by simp
  then have a2: "unat (a + og_block_size g) = Suc (Suc k) * ?b"
    using unat_add64 [of a "og_block_size g"] a by simp
  have "a + og_block_size g > og_file_size g \<longleftrightarrow> \<not> Suc (Suc k) * ?b \<le> ?f"
    using a2 by (simp add: word_less_nat_alt not_le)
  also have "\<dots> \<longleftrightarrow> \<not> Suc (Suc k) \<le> m" using less_eq_div_iff_mult_less_eq [OF bs] m(1) by simp
  also have "\<dots> \<longleftrightarrow> Suc k = m" using m(2) by auto
  finally have wrap: "a + og_block_size g > og_file_size g \<longleftrightarrow> Suc k = m" .
  show ?thesis
  proof (cases "Suc k = m")
    case True
    with wrap g cur show ?thesis by (auto simp: next_offset_def Let_def a_def)
  next
    case False
    then have "Suc k mod m = Suc k" using m(2) by simp
    with False wrap g cur a show ?thesis by (auto simp: next_offset_def Let_def a_def)
  qed
qed

lemma offsets_sequential:
  assumes "og_pattern g = kSequential" "unat (og_sequential_offset g) = (k mod m) * unat (og_block_size g)"
    and "m = unat (og_file_size g) div unat (og_block_size g)"
    and "unat (og_file_size g) < 2 ^ 63" "0 < unat (og_block_size g)" "0 < m"
  shows "offsets uniform n g = map (\<lambda>i. int (((k + i) mod m) * unat (og_block_size g))) [0..<n]"
  using assms
proof (induction n arbitrary: g k)
  case (Suc n)
  have "k mod m < m" using Suc.prems by simp
  then obtain g' where g': "next_offset uniform g = (int (k mod m * unat (og_block_size g)), g')"
    "og_pattern g' = kSequential" "og_block_size g' = og_block_size g" "og_file_size g' = og_file_size g"
    "unat (og_sequential_offset g') = (Suc (k mod m) mod m) * unat (og_block_size g)"
    using next_offset_sequential [OF Suc.prems(1,2,3) _ Suc.prems(4,5), of uniform] by blast
  have "offsets uniform n g' = map (\<lambda>i. int (((Suc k + i) mod m) * unat (og_block_size g))) [0..<n]"
    using Suc.IH [of g' "Suc k"] g' Suc.prems by (simp add: mod_Suc_eq)
  then show ?case using g'(1) by (simp add: upt_conv_Cons map_Suc_upt [symmetric] del: upt_Suc)
qed simp

section \<open>Random offsets\<close>

text \<open>What the library promises of \<open>std::uniform_int_distribution\<close> with \<open>lo <= hi\<close>.\<close>

definition uniform_in_range :: "(u64 \<Rightarrow> u64 \<Rightarrow> 'g \<Rightarrow> u64 \<times> 'g) \<Rightarrow> bool" where
  "uniform_in_range uniform \<longleftrightarrow>
     (\<forall>lo hi rng. lo \<le> hi \<longrightarrow> lo \<le> fst (uniform lo hi rng) \<and> fst (uniform lo hi rng) \<le> hi)"

lemma next_offset_random:
  assumes "og_pattern g = kRandom" "uniform_in_range uniform"
    and "og_dist_max g = og_file_size g - og_block_size g" "og_block_size g \<le> og_file_size g"
    and "unat (og_file_size g) < 2 ^ 63" "0 < unat (og_block_size g)"
  shows "\<exists>raw rng. next_offset uniform g =
      (int (raw div unat (og_alignment g) * unat (og_alignment g)), g\<lparr>og_rng := rng\<rparr>) \<and>
    raw + unat (og_block_size g) \<le> unat (og_file_size g)"
proof -
  obtain raw rng where u: "uniform 0 (og_dist_max g) (og_rng g) = (raw, rng)" by fastforce
  then have "raw \<le> og_dist_max g"
    using assms(2) by (metis fst_conv uniform_in_range_def word_zero_le)
  then have r: "unat raw + unat (og_block_size g) \<le> unat (og_file_size g)"
    using assms(3,4) unat_sub64 [OF assms(4)] by (simp add: word_le_nat_alt)
  define al where "al = raw div og_alignment g * og_alignment g"
  have le: "unat raw div unat (og_alignment g) * unat (og_alignment g) \<le> unat raw"
    by (rule div_times_less_eq_dividend)
  have "unat (raw div og_alignment g) * unat (og_alignment g) < 2 ^ 64"
    using order_le_less_trans [OF le unat_lt_2p64] by (simp only: unat_div64)
  then have al: "unat al = unat raw div unat (og_alignment g) * unat (og_alignment g)"
    unfolding al_def by (simp only: unat_mult64) (simp add: unat_div64)
  then have "sint al = int (unat al)" using le r assms(5,6) by (intro sint_small) linarith
  then have "next_offset uniform g = (int (unat al), g\<lparr>og_rng := rng\<rparr>)"
    using assms(1) u by (simp add: next_offset_def Let_def flip: al_def)
  with r show ?thesis unfolding al by blast
qed

section \<open>Properties\<close>

text \<open>
  A sequential job visits the whole blocks of the file in order and starts over: its \<open>n\<close>-th
  offset is \<open>(n mod (file_size / block_size)) * block_size\<close>.
\<close>

lemma sequential_offsets:
  assumes "0 < unat bs" "bs \<le> fs" "unat fs < 2 ^ 63"
  shows "offsets uniform n (offset_generator_create kSequential fs bs al seed) =
    map (\<lambda>i. int ((i mod (unat fs div unat bs)) * unat bs)) [0..<n]"
proof -
  define m where "m = unat fs div unat bs"
  have m: "0 < m"
    using assms(1,2) div_le_mono [of "unat bs" "unat fs" "unat bs"] by (simp add: word_le_nat_alt m_def)
  let ?g = "offset_generator_create kSequential fs bs al seed"
  have "offsets uniform n ?g = map (\<lambda>i. int (((0 + i) mod m) * unat (og_block_size ?g))) [0..<n]"
    using m assms(1,3) by (intro offsets_sequential) (simp_all add: m_def)
  then show ?thesis by (simp only: add_0 created_generator m_def)
qed

lemma sequential_offsets_witness:
  "offsets (\<lambda>lo hi g. (lo, g)) 4 (offset_generator_create kSequential 1280 512 512 ()) = [0, 512, 0, 512]"
proof -
  have "[0..<4] = [0, 1, 2, 3 :: nat]" by (simp add: upt_rec)
  then show ?thesis
    using sequential_offsets [of 512 1280 "\<lambda>lo hi g. (lo, g)" 4 512 "()"] by simp
qed

text \<open>
  C28. Every offset of every job that passed the validation lies in the file with its whole block and
  is a multiple of the alignment, whatever the pattern and whatever the random engine draws.
\<close>

theorem offsets_in_file:
  assumes "0 < unat bs" "bs \<le> fs" "unat fs < 2 ^ 63" "unat al dvd unat bs" "uniform_in_range uniform"
    and "x \<in> set (offsets uniform n (offset_generator_create pattern fs bs al seed))"
  shows "0 \<le> x \<and> x + int (unat bs) \<le> int (unat fs) \<and> int (unat al) dvd x"
proof (cases pattern)
  case kSequential
  define m where "m = unat fs div unat bs"
  obtain i where x: "x = int ((i mod m) * unat bs)"
    using sequential_offsets [OF assms(1-3), of uniform n al seed] assms(6) kSequential
    by (auto simp: m_def)
  have "1 \<le> m"
    using assms(1,2) div_le_mono [of "unat bs" "unat fs" "unat bs"] by (simp add: word_le_nat_alt m_def)
  then have "Suc (i mod m) \<le> m" by (simp add: Suc_le_eq)
  then have "Suc (i mod m) * unat bs \<le> m * unat bs" by (rule mult_le_mono1)
  also have "\<dots> \<le> unat fs" by (simp add: m_def)
  finally have "(i mod m) * unat bs + unat bs \<le> unat fs" by simp
  then have "int ((i mod m) * unat bs + unat bs) \<le> int (unat fs)" by (simp only: of_nat_le_iff)
  moreover have "unat al dvd (i mod m) * unat bs" using assms(4) by simp
  then have "int (unat al) dvd int ((i mod m) * unat bs)" by (simp only: int_dvd_int_iff)
  ultimately show ?thesis unfolding x of_nat_add by simp
next
  case kRandom
  have "\<forall>x \<in> set (offsets uniform n g). 0 \<le> x \<and> x + int (unat bs) \<le> int (unat fs) \<and> int (unat al) dvd x"
    if "og_pattern g = kRandom" "og_dist_max g = fs - bs" "og_file_size g = fs" "og_block_size g = bs"
      "og_alignment g = al" for g
    using that
  proof (induction n arbitrary: g)
    case (Suc n)
    obtain raw rng where r: "next_offset uniform g = (int (raw div unat al * unat al), g\<lparr>og_rng := rng\<rparr>)"
      "raw + unat bs \<le> unat fs"
      using next_offset_random [of g uniform, unfolded Suc.prems(2-5)] Suc.prems(1) assms(1,2,3,5) by blast
    have "raw div unat al * unat al \<le> raw" by (rule div_times_less_eq_dividend)
    then have "int (raw div unat al * unat al + unat bs) \<le> int (unat fs)"
      using r(2) by (simp only: of_nat_le_iff)
    moreover have "int (unat al) dvd int (raw div unat al * unat al)" by (simp only: int_dvd_int_iff) simp
    moreover have "0 \<le> int (raw div unat al * unat al)" by (rule of_nat_0_le_iff)
    ultimately show ?case
      using r(1) Suc.IH [of "g\<lparr>og_rng := rng\<rparr>"] Suc.prems
      by (simp only: of_nat_add offsets.simps Let_def prod.case list.set ball_simps) simp
  qed simp
  from this [of "offset_generator_create pattern fs bs al seed"]
  show ?thesis using assms(6) kRandom by (simp only: created_generator simp_thms)
qed

theorem offsets_in_file_witness:
  "(0 :: int) \<le> 512 \<and> 512 + int (unat (512 :: u64)) \<le> int (unat (1536 :: u64)) \<and>
     int (unat (512 :: u64)) dvd 512"
proof (rule offsets_in_file [where pattern = kRandom and n = 1 and seed = "()"])
  show "uniform_in_range (\<lambda>lo hi (g :: unit). (if lo \<le> 700 \<and> 700 \<le> hi then 700 else lo, g))"
    by (simp add: uniform_in_range_def)
  show "512 \<in> set (offsets (\<lambda>lo hi (g :: unit). (if lo \<le> 700 \<and> 700 \<le> hi then 700 else lo, g)) 1
      (offset_generator_create kRandom 1536 512 512 ()))"
    by code_simp
qed simp_all

text \<open>What the library promises of \<open>std::bernoulli_distribution\<close> at its two certain probabilities.\<close>

definition bernoulli_certain :: "(rat \<Rightarrow> 'g \<Rightarrow> bool \<times> 'g) \<Rightarrow> bool" where
  "bernoulli_certain bernoulli \<longleftrightarrow> (\<forall>rng. \<not> fst (bernoulli 0 rng) \<and> fst (bernoulli 1 rng))"

definition only_reads :: "rw_mode \<Rightarrow> int \<Rightarrow> bool" where
  "only_reads mode rwmixread \<longleftrightarrow>
     mode = Mode_kRead \<or> mode = Mode_kRandRead \<or> mode \<in> {Mode_kReadWrite, Mode_kRandRW} \<and> rwmixread = 100"

definition only_writes :: "rw_mode \<Rightarrow> int \<Rightarrow> bool" where
  "only_writes mode rwmixread \<longleftrightarrow>
     mode = Mode_kWrite \<or> mode = Mode_kRandWrite \<or> mode \<in> {Mode_kReadWrite, Mode_kRandRW} \<and> rwmixread = 0"

lemma directions_constant:
  assumes "\<And>rng. fst (next_direction bernoulli (d\<lparr>dd_rng := rng\<rparr>)) = x"
  shows "directions bernoulli n d = replicate n x"
proof -
  have "directions bernoulli n (d\<lparr>dd_rng := rng\<rparr>) = replicate n x" for rng
  proof (induction n arbitrary: rng)
    case (Suc n)
    have "\<exists>rng'. snd (next_direction bernoulli (d\<lparr>dd_rng := rng\<rparr>)) = d\<lparr>dd_rng := rng'\<rparr>"
      by (auto simp: next_direction_def split: rw_mode.split prod.split)
    then obtain rng' where "next_direction bernoulli (d\<lparr>dd_rng := rng\<rparr>) = (x, d\<lparr>dd_rng := rng'\<rparr>)"
      using assms [of rng] by (metis prod.collapse)
    then show ?case using Suc by simp
  qed simp
  from this [of "dd_rng d"] show ?thesis by simp
qed

text \<open>
  The probability handed to the distribution is in its domain for every valid \<open>rwmixread\<close>, and a
  job whose mode or mix leaves one direction issues that direction only.
\<close>

lemma directions_match_mode:
  assumes "0 \<le> rwmixread" "rwmixread \<le> 100" "bernoulli_certain bernoulli"
  shows "0 \<le> dd_p (direction_decider_create mode rwmixread seed) \<and>
    dd_p (direction_decider_create mode rwmixread seed) \<le> 1 \<and>
    (only_reads mode rwmixread \<longrightarrow>
      directions bernoulli n (direction_decider_create mode rwmixread seed) = replicate n Dir_kRead) \<and>
    (only_writes mode rwmixread \<longrightarrow>
      directions bernoulli n (direction_decider_create mode rwmixread seed) = replicate n Dir_kWrite)"
proof -
  let ?d = "direction_decider_create mode rwmixread seed"
  have p: "dd_p ?d = fl (of_int rwmixread / 100)" "dd_mode ?d = mode"
    using assms(1,2) by (simp_all add: direction_decider_create_def fl_of_int)
  have "fl 0 \<le> fl (of_int rwmixread / 100)" "fl (of_int rwmixread / 100) \<le> fl 1"
    using assms(1,2) by (intro fl_mono; simp)+
  then have range: "0 \<le> dd_p ?d" "dd_p ?d \<le> 1" by (simp_all add: p)
  have "fst (next_direction bernoulli (?d\<lparr>dd_rng := rng\<rparr>)) = Dir_kRead" if "only_reads mode rwmixread" for rng
    using that assms(3) p
    by (cases mode) (auto simp: only_reads_def next_direction_def bernoulli_certain_def case_prod_beta Let_def)
  moreover
  have "fst (next_direction bernoulli (?d\<lparr>dd_rng := rng\<rparr>)) = Dir_kWrite" if "only_writes mode rwmixread" for rng
    using that assms(3) p
    by (cases mode) (auto simp: only_writes_def next_direction_def bernoulli_certain_def case_prod_beta Let_def)
  ultimately show ?thesis using range directions_constant [of bernoulli ?d] by metis
qed

lemma directions_match_mode_example:
  "directions (\<lambda>p (g :: nat). (1 / 2 \<le> p, Suc g)) 3 (direction_decider_create Mode_kRandRW 100 7) =
     replicate 3 Dir_kRead"
proof -
  have "bernoulli_certain (\<lambda>p (g :: nat). (1 / 2 \<le> p, Suc g))" by (simp add: bernoulli_certain_def)
  moreover have "only_reads Mode_kRandRW 100" by (simp add: only_reads_def)
  ultimately show ?thesis
    using directions_match_mode [of 100 "\<lambda>p (g :: nat). (1 / 2 \<le> p, Suc g)" Mode_kRandRW 7 3] by simp
qed

end
