(* ===== verification/Histogram.thy ===== *)
theory Histogram
  imports Float64
begin

text \<open>
  \<open>Log2Histogram\<close> (\<open>src/telemetry/log2_histogram.h\<close>): counters per power of two. The histogram
  is the list of its counters; \<open>BucketCount\<close> is its length, 64 everywhere in the program. The
  specification relates it to the list of the recorded values.
\<close>

unbundle bit_operations_syntax

type_synonym histogram = "u64 list"

section \<open>The operations\<close>

text \<open>\<open>__builtin_clzll\<close>: the number of zero bits above the highest set bit.\<close>

definition clz64 :: "u64 \<Rightarrow> nat" where
  "clz64 w = length (takeWhile (\<lambda>i. \<not> bit w i) (rev [0..<64]))"

definition hist_empty :: "nat \<Rightarrow> histogram" where
  "hist_empty bucket_count = replicate bucket_count 0"

definition bucket_index :: "nat \<Rightarrow> u64 \<Rightarrow> nat" where
  "bucket_index bucket_count value_ns = min (63 - clz64 (value_ns OR 1)) (bucket_count - 1)"

definition hist_record :: "u64 \<Rightarrow> histogram \<Rightarrow> histogram" where
  "hist_record value_ns h =
     (let index = bucket_index (length h) value_ns in h[index := h ! index + 1])"

definition bucket_lower_bound :: "nat \<Rightarrow> u64" where
  "bucket_lower_bound index = (if index = 0 then 0 else push_bit index 1)"

definition bucket_upper_bound :: "nat \<Rightarrow> u64" where
  "bucket_upper_bound index = (if index \<ge> 63 then - 1 else push_bit (index + 1) 1 - 1)"

definition total_count :: "histogram \<Rightarrow> u64" where
  "total_count h = foldl (+) 0 h"

text \<open>The loop of \<open>Percentile\<close>; after the last bucket, the bound of the last bucket.\<close>

fun percentile_scan :: "u64 \<Rightarrow> nat \<Rightarrow> u64 \<Rightarrow> histogram \<Rightarrow> u64" where
  "percentile_scan target index cumulative [] = bucket_upper_bound (index - 1)"
| "percentile_scan target index cumulative (b # bs) =
     (if cumulative + b \<ge> target then bucket_upper_bound index
      else percentile_scan target (Suc index) (cumulative + b) bs)"

definition percentile_target :: "u64 \<Rightarrow> rat \<Rightarrow> u64" where
  "percentile_target tot p =
     (let t0 = to_u64 (of_int \<lceil>fl (clamp p 0 1 * of_u64 tot)\<rceil>);
          t1 = (if t0 < 1 then 1 else t0)
      in if t1 > tot then tot else t1)"

definition percentile :: "histogram \<Rightarrow> rat \<Rightarrow> u64" where
  "percentile h p =
     (let tot = total_count h in
        if tot = 0 then 0 else percentile_scan (percentile_target tot p) 0 0 h)"

fun min_scan :: "nat \<Rightarrow> histogram \<Rightarrow> u64" where
  "min_scan index [] = 0"
| "min_scan index (b # bs) = (if b \<noteq> 0 then bucket_lower_bound index else min_scan (Suc index) bs)"

definition min_value :: "histogram \<Rightarrow> u64" where
  "min_value h = min_scan 0 h"

text \<open>The loop runs from the last index down: the argument is the reversed list.\<close>

fun max_scan :: "histogram \<Rightarrow> u64" where
  "max_scan [] = 0"
| "max_scan (b # bs) = (if b \<noteq> 0 then bucket_upper_bound (length bs) else max_scan bs)"

definition max_value :: "histogram \<Rightarrow> u64" where
  "max_value h = max_scan (rev h)"

definition hist_merge :: "histogram \<Rightarrow> histogram \<Rightarrow> histogram" where
  "hist_merge h other = map2 (+) h other"

definition hist_reset :: "histogram \<Rightarrow> histogram" where
  "hist_reset h = map (\<lambda>_. 0) h"

section \<open>Buckets\<close>

lemma clz64_top_bit:
  assumes "w \<noteq> 0"
  shows "clz64 w < 64 \<and> bit w (63 - clz64 w) \<and> (\<forall>j. 63 - clz64 w < j \<longrightarrow> \<not> bit w j)"
proof -
  let ?P = "\<lambda>i. \<not> bit w i" and ?l = "rev [0..<64]"
  have "\<exists>i < 64. bit w i"
  proof (rule ccontr)
    assume "\<not> ?thesis"
    then have "w = 0" by (intro bit_word_eqI) auto
    with assms show False by simp
  qed
  then obtain i where i: "i < 64" "bit w i" by blast
  define k where "k = clz64 w"
  have k: "k = length (takeWhile ?P ?l)" by (simp add: k_def clz64_def)
  have "takeWhile ?P ?l \<noteq> ?l" using i by (auto simp: takeWhile_eq_all_conv)
  then have k64: "k < 64"
    unfolding k using length_takeWhile_le [of ?P ?l]
    by (metis diff_zero le_neq_implies_less length_rev length_upt takeWhile_eq_take take_all_iff order_refl)
  have nth: "?l ! n = 63 - n" if "n < 64" for n
    using that by (simp add: rev_nth)
  have top: "bit w (63 - k)"
    using nth_length_takeWhile [of ?P ?l] k k64 nth [of k] by simp
  have "\<not> bit w j" if "63 - k < j" for j
  proof (cases "j < 64")
    case True
    then have "63 - j < k" using that k64 by linarith
    then have "?P (takeWhile ?P ?l ! (63 - j))"
      using set_takeWhileD [of "takeWhile ?P ?l ! (63 - j)" ?P ?l] k by (metis nth_mem)
    moreover have "takeWhile ?P ?l ! (63 - j) = j"
      using \<open>63 - j < k\<close> k nth [of "63 - j"] True by (simp add: takeWhile_nth)
    ultimately show ?thesis by simp
  next
    case False
    then show ?thesis by (simp add: impossible_bit)
  qed
  then show ?thesis using k64 top by (simp add: k_def)
qed

lemma clz64_bounds:
  assumes "w \<noteq> 0"
  shows "2 ^ (63 - clz64 w) \<le> unat w \<and> unat w < 2 ^ (64 - clz64 w)"
proof
  define i where "i = 63 - clz64 w"
  have b: "clz64 w < 64" "bit w i" "\<And>j. i < j \<Longrightarrow> \<not> bit w j"
    using clz64_top_bit [OF assms] by (auto simp: i_def)
  have "bit (unat w) i" using b(2) by (simp add: bit_unsigned_iff)
  then have "odd (unat w div 2 ^ i)" by (simp add: bit_iff_odd)
  then have "1 \<le> unat w div 2 ^ i" by (simp add: odd_pos Suc_leI)
  then show "2 ^ (63 - clz64 w) \<le> unat w"
    unfolding i_def [symmetric] by (metis div_less not_one_le_zero not_less)
  have "take_bit (Suc i) (unat w) = unat w"
  proof (rule bit_eqI)
    fix n
    show "bit (take_bit (Suc i) (unat w)) n = bit (unat w) n"
      using b(3) [of n] by (cases "n < Suc i") (auto simp: bit_take_bit_iff bit_unsigned_iff)
  qed
  then have "unat w < 2 ^ Suc i" by (metis take_bit_nat_less_exp)
  moreover have "Suc i = 64 - clz64 w" using b(1) by (simp add: i_def)
  ultimately show "unat w < 2 ^ (64 - clz64 w)" by simp
qed

text \<open>The bucket of a value in a histogram of 64 buckets, and the interval it stands for.\<close>

abbreviation bucket :: "u64 \<Rightarrow> nat" where
  "bucket \<equiv> bucket_index 64"

lemma or_1_bounds: "unat v \<le> unat (v OR 1 :: u64) \<and> unat (v OR 1) \<le> unat v + 1"
proof -
  have "unat (v OR 1) = unat v OR 1" by (simp add: unsigned_or_eq)
  also have "\<dots> = (if even (unat v) then Suc (unat v) else unat v)"
    by (simp add: or_Suc_0_eq)
  finally show ?thesis by simp
qed

lemma or_1_odd: "odd (unat (v OR 1 :: u64))"
  by (simp add: unsigned_or_eq or_Suc_0_eq)

lemma bucket_lt [simp]: "bucket v < 64"
  by (simp add: bucket_index_def)

lemma unat_2_power: "i < 64 \<Longrightarrow> unat (2 ^ i :: u64) = 2 ^ i"
proof -
  assume "i < 64"
  then have "(2::nat) ^ i < 2 ^ 64" by (rule power_strict_increasing) simp
  then have "unat (of_nat (2 ^ i) :: u64) = 2 ^ i" by (rule unat_of_nat64)
  then show ?thesis by simp
qed

lemma unat_push_bit_1: "i < 64 \<Longrightarrow> unat (push_bit i 1 :: u64) = 2 ^ i"
  by (simp add: unat_2_power)

lemma unat_bucket_upper: "i < 64 \<Longrightarrow> unat (bucket_upper_bound i) = 2 ^ Suc i - 1"
proof (cases "i = 63")
  case False
  assume "i < 64"
  with False have "i + 1 < 64" by simp
  then have u: "unat (push_bit (i + 1) 1 :: u64) = 2 ^ (i + 1)" by (rule unat_push_bit_1)
  then have "(push_bit (i + 1) 1 :: u64) \<noteq> 0" by (metis power_not_zero unat_0 zero_neq_numeral)
  then show ?thesis using \<open>i + 1 < 64\<close> u by (simp add: bucket_upper_bound_def unat_minus_one)
qed (simp add: bucket_upper_bound_def unat_max64)

lemma unat_bucket_lower: "i < 64 \<Longrightarrow> unat (bucket_lower_bound i) = (if i = 0 then 0 else 2 ^ i)"
  by (simp add: bucket_lower_bound_def unat_2_power)

lemma bucket_bounds:
  "unat (bucket_lower_bound (bucket v)) \<le> unat v \<and> unat v \<le> unat (bucket_upper_bound (bucket v))"
proof -
  have nz: "v OR 1 \<noteq> 0" using or_1_odd [of v] by (metis even_zero unat_0)
  define i where "i = 63 - clz64 (v OR 1)"
  have c: "clz64 (v OR 1) < 64" using clz64_top_bit [OF nz] by simp
  have bi: "bucket v = i" using c by (simp add: bucket_index_def i_def)
  have "Suc i = 64 - clz64 (v OR 1)" using c by (simp add: i_def)
  then have b: "2 ^ i \<le> unat (v OR 1)" "unat (v OR 1) < 2 ^ Suc i"
    using clz64_bounds [OF nz] by (simp_all add: i_def)
  have i: "i < 64" by (simp add: i_def)
  have "unat v \<le> 2 ^ Suc i - 1" using b(2) or_1_bounds [of v] by linarith
  moreover have "(if i = 0 then 0 else 2 ^ i) \<le> unat v"
  proof (cases "i = 0")
    case False
    then have ev: "even ((2::nat) ^ i)" by simp
    show ?thesis
    proof (rule ccontr)
      assume "\<not> ?thesis"
      then have "unat v < 2 ^ i" using False by simp
      with b(1) or_1_bounds [of v] have eq: "unat (v OR 1) = 2 ^ i" by linarith
      then show False using ev or_1_odd [of v] by simp
    qed
  qed simp
  ultimately show ?thesis
    unfolding bi by (simp only: unat_bucket_upper [OF i] unat_bucket_lower [OF i])
qed

lemma bucket_mono: "v \<le> w \<Longrightarrow> bucket v \<le> bucket w"
proof (rule ccontr)
  assume le: "v \<le> w" and "\<not> bucket v \<le> bucket w"
  then have lt: "Suc (bucket w) \<le> bucket v" by simp
  have "unat w \<le> 2 ^ Suc (bucket w) - 1" using bucket_bounds [of w] by (simp add: unat_bucket_upper)
  moreover have "2 ^ bucket v \<le> unat v" using bucket_bounds [of v] lt by (simp add: unat_bucket_lower split: if_splits)
  moreover have "(2::nat) ^ Suc (bucket w) \<le> 2 ^ bucket v" by (rule power_increasing [OF lt]) simp
  moreover have "unat v \<le> unat w" using le by (simp add: word_le_nat_alt)
  moreover have "0 < (2::nat) ^ Suc (bucket w)" by simp
  ultimately show False by linarith
qed

lemma bucket_upper_mono: "i \<le> j \<Longrightarrow> j < 64 \<Longrightarrow> bucket_upper_bound i \<le> bucket_upper_bound j"
  using power_increasing [of "Suc i" "Suc j" "2::nat"]
  by (simp add: word_le_nat_alt unat_bucket_upper diff_le_mono)

text \<open>The upper bound of the bucket of a value is less than two above its double.\<close>

lemma bucket_upper_double: "unat (bucket_upper_bound (bucket v)) \<le> 2 * unat v + 1"
proof -
  have "2 ^ bucket v \<le> unat v + 1"
    using bucket_bounds [of v] by (cases "bucket v = 0") (simp_all add: unat_bucket_lower)
  moreover have "unat (bucket_upper_bound (bucket v)) \<le> 2 * unat v + 1" if "bucket v = 0"
    using that by (simp add: unat_bucket_upper)
  moreover have "unat (bucket_upper_bound (bucket v)) \<le> 2 * unat v" if "bucket v \<noteq> 0"
    using bucket_bounds [of v] that by (auto simp: unat_bucket_upper unat_bucket_lower)
  ultimately show ?thesis by (cases "bucket v = 0") auto
qed

section \<open>What a histogram represents\<close>

definition represents :: "histogram \<Rightarrow> u64 list \<Rightarrow> bool" where
  "represents h vs \<longleftrightarrow>
     length h = 64 \<and> length vs < 2 ^ 64 \<and>
     (\<forall>i < 64. unat (h ! i) = length (filter (\<lambda>v. bucket v = i) vs))"

lemma represents_empty: "represents (hist_empty 64) []"
  by (simp add: represents_def hist_empty_def)

lemma represents_record:
  assumes "represents h vs" "length vs + 1 < 2 ^ 64"
  shows "represents (hist_record v h) (v # vs)"
proof -
  have len: "length h = 64" using assms(1) by (simp add: represents_def)
  have "unat (hist_record v h ! i) = length (filter (\<lambda>w. bucket w = i) (v # vs))" if "i < 64" for i
  proof -
    have c: "unat (h ! i) = length (filter (\<lambda>w. bucket w = i) vs)"
      using assms(1) that by (simp add: represents_def)
    have "length (filter (\<lambda>w. bucket w = i) vs) \<le> length vs" by simp
    then have "unat (h ! i) + unat (1 :: u64) < 2 ^ 64" using c assms(2) by (simp only: unat_1)
    then have "unat (h ! i + 1) = unat (h ! i) + 1" by (simp add: unat_add64)
    then show ?thesis using c that len by (auto simp: hist_record_def Let_def nth_list_update)
  qed
  then show ?thesis using assms(2) len by (simp add: represents_def hist_record_def Let_def)
qed

lemma represents_merge:
  assumes "represents h vs" "represents g ws" "length vs + length ws < 2 ^ 64"
  shows "represents (hist_merge h g) (vs @ ws)"
proof -
  have "unat (hist_merge h g ! i) = length (filter (\<lambda>w. bucket w = i) (vs @ ws))" if "i < 64" for i
  proof -
    have c: "unat (h ! i) = length (filter (\<lambda>w. bucket w = i) vs)"
      "unat (g ! i) = length (filter (\<lambda>w. bucket w = i) ws)"
      using assms(1,2) that by (simp_all add: represents_def)
    have "length (filter (\<lambda>w. bucket w = i) vs) \<le> length vs"
      "length (filter (\<lambda>w. bucket w = i) ws) \<le> length ws" by simp_all
    then have "unat (h ! i) + unat (g ! i) < 2 ^ 64" using c assms(3) by linarith
    then show ?thesis
      using c that assms(1,2) by (simp add: hist_merge_def represents_def unat_add64)
  qed
  then show ?thesis using assms by (simp add: represents_def hist_merge_def)
qed

lemma represents_reset: "length h = 64 \<Longrightarrow> represents (hist_reset h) []"
  by (simp add: represents_def hist_reset_def)

section \<open>Order statistics\<close>

lemma sorted_count_le:
  fixes xs :: "'a :: linorder list"
  assumes "sorted xs" "k < length xs"
  shows "k < length (filter (\<lambda>v. v \<le> xs ! k) xs)"
proof -
  have "\<forall>v \<in> set (take (Suc k) xs). v \<le> xs ! k"
    using assms(2) by (auto simp: in_set_conv_nth less_Suc_eq_le sorted_nth_mono [OF assms(1)])
  then have "filter (\<lambda>v. v \<le> xs ! k) (take (Suc k) xs) = take (Suc k) xs" by simp
  moreover have "filter (\<lambda>v. v \<le> xs ! k) xs =
      filter (\<lambda>v. v \<le> xs ! k) (take (Suc k) xs) @ filter (\<lambda>v. v \<le> xs ! k) (drop (Suc k) xs)"
    by (metis append_take_drop_id filter_append)
  ultimately show ?thesis using assms(2) by simp
qed

lemma sorted_count_less:
  fixes xs :: "'a :: linorder list"
  assumes "sorted xs" "k < length xs"
  shows "length (filter (\<lambda>v. v < xs ! k) xs) \<le> k"
proof -
  have "\<forall>v \<in> set (drop k xs). \<not> v < xs ! k"
    using assms(2) by (auto simp: in_set_conv_nth not_less sorted_nth_mono [OF assms(1)])
  then have "filter (\<lambda>v. v < xs ! k) (drop k xs) = []" by (simp add: filter_empty_conv)
  moreover have "filter (\<lambda>v. v < xs ! k) xs =
      filter (\<lambda>v. v < xs ! k) (take k xs) @ filter (\<lambda>v. v < xs ! k) (drop k xs)"
    by (metis append_take_drop_id filter_append)
  moreover have "length (filter (\<lambda>v. v < xs ! k) (take k xs)) \<le> length (take k xs)"
    by (rule length_filter_le)
  ultimately show ?thesis using assms(2) by (simp del: length_filter_le)
qed

lemma length_filter_sort: "length (filter P (sort vs)) = length (filter P (vs :: 'a :: linorder list))"
  by (metis filter_sort length_sort)

section \<open>Cumulative counts\<close>

definition below :: "u64 list \<Rightarrow> nat \<Rightarrow> nat" where
  "below vs i = length (filter (\<lambda>v. bucket v < i) vs)"

lemma below_0 [simp]: "below vs 0 = 0"
  by (simp add: below_def)

lemma below_64 [simp]: "below vs 64 = length vs"
  by (simp add: below_def)

lemma below_le: "below vs i \<le> length vs"
  by (simp add: below_def)

lemma below_Suc: "below vs (Suc i) = below vs i + length (filter (\<lambda>v. bucket v = i) vs)"
  unfolding below_def by (induction vs) auto

lemma below_mono: "i \<le> j \<Longrightarrow> below vs i \<le> below vs j"
  by (induction j) (auto simp: below_Suc le_Suc_eq)

lemma scan_sum_step:
  assumes "represents h vs" "i < 64" "unat c = below vs i"
  shows "unat (c + h ! i) = below vs (Suc i)"
proof -
  have "unat (h ! i) = length (filter (\<lambda>v. bucket v = i) vs)"
    using assms by (simp add: represents_def)
  moreover have "below vs (Suc i) < 2 ^ 64"
    using below_le [of vs "Suc i"] assms(1) by (simp add: represents_def)
  ultimately show ?thesis using assms(3) by (simp add: unat_add64 below_Suc)
qed

lemma foldl_take_below:
  "represents h vs \<Longrightarrow> i \<le> 64 \<Longrightarrow> unat (foldl (+) 0 (take i h)) = below vs i"
proof (induction i)
  case (Suc i)
  then have "take (Suc i) h = take i h @ [h ! i]"
    by (simp add: represents_def take_Suc_conv_app_nth)
  then show ?case using Suc by (simp add: scan_sum_step)
qed simp

lemma total_count_represents: "represents h vs \<Longrightarrow> unat (total_count h) = length vs"
  using foldl_take_below [of h vs 64] by (simp add: total_count_def represents_def)

lemma percentile_scan_finds:
  assumes r: "represents h vs" and k: "k < 64" and ik: "i \<le> k" and c: "unat c = below vs i"
    and hit: "unat target \<le> below vs (Suc k)" and miss: "below vs k < unat target"
  shows "percentile_scan target i c (drop i h) = bucket_upper_bound k"
  using ik c
proof (induction "k - i" arbitrary: i c)
  case 0
  then have i: "i = k" by simp
  have d: "drop i h = h ! i # drop (Suc i) h"
    using r k i by (simp add: represents_def Cons_nth_drop_Suc)
  have "unat (c + h ! i) = below vs (Suc i)" using scan_sum_step [OF r, of i c] k i 0 by simp
  then show ?case unfolding d using hit i by (simp add: word_le_nat_alt)
next
  case (Suc n)
  then have i: "i < k" by simp
  have d: "drop i h = h ! i # drop (Suc i) h"
    using r k i by (simp add: represents_def Cons_nth_drop_Suc)
  have u: "unat (c + h ! i) = below vs (Suc i)" using scan_sum_step [OF r, of i c] k i Suc by simp
  moreover have "below vs (Suc i) \<le> below vs k" using i by (intro below_mono) simp
  ultimately have "\<not> target \<le> c + h ! i" using miss by (simp add: word_le_nat_alt)
  then show ?case
    using Suc.hyps(1) [of "Suc i" "c + h ! i"] Suc.hyps(2) i u by (simp add: d)
qed

text \<open>The bucket of the order statistic of rank \<open>t\<close> is where the cumulative count reaches \<open>t\<close>.\<close>

lemma order_statistic_bucket:
  assumes "1 \<le> t" "t \<le> length vs"
  defines "x \<equiv> sort vs ! (t - 1)"
  shows "t \<le> below vs (Suc (bucket x)) \<and> below vs (bucket x) < t"
proof
  have k: "t - 1 < length (sort vs)" using assms by simp
  have "t \<le> length (filter (\<lambda>v. v \<le> x) vs)"
    using sorted_count_le [OF sorted_sort k] assms(1) length_filter_sort [of "\<lambda>v. v \<le> x" vs]
    by (simp add: x_def)
  also have "\<dots> \<le> below vs (Suc (bucket x))"
    unfolding below_def less_Suc_eq_le using bucket_mono by (induction vs) auto
  finally show "t \<le> below vs (Suc (bucket x))" .
  have "below vs (bucket x) \<le> length (filter (\<lambda>v. v < x) vs)"
    unfolding below_def using bucket_mono by (induction vs) (auto simp: not_less, meson leD leI)
  also have "\<dots> \<le> t - 1"
    using sorted_count_less [OF sorted_sort k] length_filter_sort [of "\<lambda>v. v < x" vs]
    by (simp add: x_def)
  finally show "below vs (bucket x) < t" using assms(1) by simp
qed

section \<open>The rank a quantile asks for\<close>

lemma percentile_target_range:
  assumes "tot \<noteq> 0"
  shows "1 \<le> unat (percentile_target tot p) \<and> percentile_target tot p \<le> tot"
proof -
  have "1 \<le> unat tot" using assms by (simp add: Suc_le_eq unat_gt_0)
  then show ?thesis
    by (auto simp: percentile_target_def Let_def word_less_nat_alt word_le_nat_alt not_less)
qed

lemma percentile_order_statistic:
  fixes p :: rat
  assumes r: "represents h vs" and ne: "vs \<noteq> []"
  defines "t \<equiv> unat (percentile_target (total_count h) p)"
  shows "1 \<le> t \<and> t \<le> length vs \<and> percentile h p = bucket_upper_bound (bucket (sort vs ! (t - 1)))"
proof -
  have tot: "unat (total_count h) = length vs" by (rule total_count_represents [OF r])
  then have nz: "total_count h \<noteq> 0" using ne by (metis length_0_conv unat_0)
  have t: "1 \<le> t" "t \<le> length vs"
    using percentile_target_range [OF nz, of p] tot by (simp_all add: t_def word_le_nat_alt)
  have "percentile_scan (percentile_target (total_count h) p) 0 0 (drop 0 h) =
      bucket_upper_bound (bucket (sort vs ! (t - 1)))"
    using order_statistic_bucket [OF t] by (intro percentile_scan_finds [OF r]) (simp_all add: t_def)
  then show ?thesis using t nz by (simp add: percentile_def Let_def)
qed

section \<open>The rank at the quantiles of the program\<close>

text \<open>
  For a quantile of \<open>a\<close> hundredths whose binary value is not above it (0.50, 0.95 and 0.99 are
  such) and at most \<open>2 ^ 45\<close> values, the two roundings do not move the rank.
\<close>

lemma target_product:
  assumes a: "1 \<le> a" "a \<le> 100" and q: "fl (of_nat a / 100) \<le> of_nat a / 100"
    and n: "1 \<le> n" "n \<le> 2 ^ 45"
  shows "\<lceil>fl (fl (of_nat a / 100) * of_nat n)\<rceil> = int ((a * n + 99) div 100)"
proof -
  define qa where "qa = (of_nat a / 100 :: rat)"
  define N where "N = (of_nat n :: rat)"
  define y where "y = fl qa * N"
  define m where "m = (a * n + 99) div 100"
  have N: "1 \<le> N" "N \<le> 2 ^ 45"
    using n(1) of_nat_mono [OF n(2), where 'a = rat] by (simp_all add: N_def)
  have qa: "1 / 100 \<le> qa" "qa \<le> 1" using a by (simp_all add: qa_def divide_right_mono)
  have q': "fl qa \<le> qa" using q by (simp add: qa_def)
  have p7: "pow2 (- 7) = 1 / 128" "pow2 (- 53) = 1 / 2 ^ 53" by (simp_all add: pow2_def)
  have "pow2 (- 7) \<le> qa" using qa by (simp add: p7)
  then have fq7: "1 / 128 \<le> fl qa" using fl_ge_pow2 [of "- 7" qa] by (simp add: p7)
  have tiny: "pow2 (- 1022) \<le> z" if "1 / 128 \<le> z" for z
    using that pow2_mono [of "- 1022" "- 7"] by (simp add: p7)
  have "\<bar>fl qa - qa\<bar> \<le> qa * pow2 (- 53)" using qa by (intro fl_rel_error tiny) simp
  moreover have "qa * pow2 (- 53) \<le> 1 / 2 ^ 53" using qa by (simp add: p7)
  ultimately have fq: "qa - 1 / 2 ^ 53 \<le> fl qa" by linarith
  have "(qa - 1 / 2 ^ 53) * N \<le> y" unfolding y_def using fq N by (intro mult_right_mono) simp_all
  then have ylow: "qa * N - 1 / 256 \<le> y" using N by (simp add: left_diff_distrib)
  have y1: "1 / 128 \<le> y" unfolding y_def using mult_mono [of "1 / 128" "fl qa" 1 N] fq7 N by simp
  have yup: "y \<le> qa * N" unfolding y_def using q' N by (intro mult_right_mono) simp_all
  also have "qa * N \<le> 2 ^ 45" using mult_mono [of qa 1 N "2 ^ 45"] qa N by simp
  finally have y45: "y \<le> 2 ^ 45" .
  have "\<bar>fl y - y\<bar> \<le> y * pow2 (- 53)" using y1 by (intro fl_rel_error tiny)
  moreover have "y * pow2 (- 53) \<le> 1 / 256" using y45 by (simp add: p7)
  ultimately have fy: "y - 1 / 256 \<le> fl y" by linarith
  have m: "a * n \<le> 100 * m" "100 * m \<le> a * n + 99"
    unfolding m_def using div_mult_mod_eq [of "a * n + 99" 100] mod_less_divisor [of 100 "a * n + 99"]
    by linarith+
  have qN: "qa * N = of_nat (a * n) / 100" by (simp add: qa_def N_def)
  have "of_nat (a * n) \<le> (of_nat (100 * m) :: rat)" using m(1) by (rule of_nat_mono)
  then have up: "qa * N \<le> of_int (int m)" by (simp add: qN)
  have "of_nat (100 * m) \<le> (of_nat (a * n + 99) :: rat)" using m(2) by (rule of_nat_mono)
  then have low: "of_int (int m) - 99 / 100 \<le> qa * N" by (simp add: qN)
  have "a * n \<le> 100 * 2 ^ 45" using mult_mono [OF a(2) n(2)] by simp
  then have "int m \<le> 2 ^ 45 + 1" using m(2) by simp
  then have "fl y \<le> of_int (int m)" using yup up by (intro fl_le_int) simp_all
  moreover have "of_int (int m) - 1 < fl y" using low ylow fy by linarith
  ultimately have "\<lceil>fl y\<rceil> = int m" by (intro ceiling_unique)
  then show ?thesis by (simp add: y_def qa_def N_def m_def)
qed

lemma percentile_target_exact:
  assumes a: "1 \<le> a" "a \<le> 100" and q: "fl (of_nat a / 100) \<le> of_nat a / 100"
    and n: "1 \<le> unat tot" "unat tot \<le> 2 ^ 45"
  shows "unat (percentile_target tot (fl (of_nat a / 100))) = (a * unat tot + 99) div 100"
proof -
  define m where "m = (a * unat tot + 99) div 100"
  have "\<not> fl (of_nat a / 100) < 0" using fl_nonneg [of "of_nat a / 100"] by simp
  moreover have "\<not> 1 < fl (of_nat a / 100)" using q a by simp
  ultimately have c: "clamp (fl (of_nat a / 100)) 0 1 = fl (of_nat a / 100)" by (simp add: clamp_def)
  have u: "of_u64 tot = of_nat (unat tot)" using n(2) by (intro of_u64_exact) simp
  have "1 * 1 \<le> a * unat tot" using a(1) n(1) by (rule mult_le_mono)
  moreover have "a * unat tot \<le> 100 * unat tot" using a(2) by (rule mult_le_mono1)
  moreover have "100 * m \<le> a * unat tot + 99" "a * unat tot \<le> 100 * m"
    unfolding m_def using div_mult_mod_eq [of "a * unat tot + 99" 100]
      mod_less_divisor [of 100 "a * unat tot + 99"] by linarith+
  ultimately have m: "1 \<le> m" "m \<le> unat tot" by linarith+
  have "to_u64 (of_int \<lceil>fl (fl (of_nat a / 100) * of_nat (unat tot))\<rceil>) = word_of_nat m"
    using target_product [OF a q n] by (simp add: to_u64_def m_def)
  moreover have "unat (word_of_nat m :: u64) = m"
    using m unat_lt_2p64 [of tot] by (intro unat_of_nat64) linarith
  ultimately show ?thesis
    unfolding m_def [symmetric] using m
    by (simp add: percentile_target_def Let_def c u word_less_nat_alt del: of_nat_unat ucast_id)
qed

lemma percentile_target_mono:
  assumes "p \<le> p'" "unat tot \<le> 2 ^ 53"
  shows "percentile_target tot p \<le> percentile_target tot p'"
proof -
  define N where "N = (of_nat (unat tot) :: rat)"
  define c where "c x = \<lceil>fl (clamp x 0 1 * N)\<rceil>" for x
  have u: "of_u64 tot = N" unfolding N_def using assms(2) by (rule of_u64_exact)
  have N: "0 \<le> N" unfolding N_def by (rule of_nat_0_le_iff)
  have cl: "0 \<le> clamp x 0 1" "clamp x 0 1 \<le> 1" for x :: rat by (auto simp: clamp_def)
  have "clamp p 0 1 \<le> clamp p' 0 1" using assms(1) by (auto simp: clamp_def)
  then have mono: "c p \<le> c p'"
    unfolding c_def using N by (intro ceiling_mono fl_mono mult_right_mono)
  have nonneg: "0 \<le> c x" for x
    unfolding c_def using cl(1) [of x] N fl_nonneg [of "clamp x 0 1 * N"] by simp
  have "c x \<le> int (unat tot)" for x
  proof -
    have "clamp x 0 1 * N \<le> 1 * N" using cl(2) N by (rule mult_right_mono)
    then have "clamp x 0 1 * N \<le> of_int (int (unat tot))" by (simp add: N_def)
    moreover have "\<bar>int (unat tot)\<bar> \<le> 2 ^ 53"
      using assms(2) by (metis abs_of_nat of_nat_le_iff of_nat_numeral of_nat_power)
    ultimately show ?thesis unfolding c_def by (subst ceiling_le_iff) (rule fl_le_int)
  qed
  then have r: "c x < 2 ^ 64" for x
    using unat_lt_2p64 [of tot] by (metis nat_less_iff nat_int nat_numeral_as_int of_nat_0_le_iff
        of_nat_less_numeral_power_cancel_iff order_le_less_trans)
  have t: "unat (to_u64 (of_int (c x))) = nat (c x)" for x
  proof -
    have "to_u64 (of_int (c x)) = word_of_nat (nat (c x))" using nonneg [of x] by (simp add: to_u64_def)
    moreover have "nat (c x) < 2 ^ 64" using r [of x] nonneg [of x] by (simp add: nat_less_iff)
    ultimately show ?thesis by (simp only: unat_of_nat64)
  qed
  have "to_u64 (of_int (c p)) \<le> to_u64 (of_int (c p'))"
    using mono by (simp add: word_le_nat_alt t nat_mono)
  then show ?thesis
    unfolding percentile_target_def u Let_def c_def [symmetric] word_le_nat_alt word_less_nat_alt
    by (auto simp: not_less)
qed

section \<open>What the histogram answers\<close>

text \<open>
  C18. \<open>Percentile\<close> at a quantile of \<open>a\<close> hundredths whose binary value is not above it: the answer
  is the upper bound of the bucket that holds the nearest-rank order statistic of the recorded
  values, so it is at least that value and at most one more than its double.
\<close>

theorem percentile_correct:
  assumes "represents h vs" "vs \<noteq> []" "length vs \<le> 2 ^ 45"
    and "1 \<le> a" "a \<le> 100" "fl (of_nat a / 100) \<le> of_nat a / 100"
  shows "let x = sort vs ! ((a * length vs + 99) div 100 - 1);
             y = percentile h (fl (of_nat a / 100))
         in y = bucket_upper_bound (bucket x) \<and> unat x \<le> unat y \<and> unat y \<le> 2 * unat x + 1"
proof -
  have tot: "unat (total_count h) = length vs" by (rule total_count_represents [OF assms(1)])
  then have n: "1 \<le> unat (total_count h)" "unat (total_count h) \<le> 2 ^ 45"
    using assms(2,3) by (simp_all add: Suc_le_eq)
  show ?thesis
    using percentile_order_statistic [OF assms(1,2), of "fl (of_nat a / 100)"]
      percentile_target_exact [OF assms(4-6) n] tot bucket_upper_double bucket_bounds
    by (simp add: Let_def)
qed

theorem percentile_correct_witness:
  "let x = sort [5, 900, 70 :: u64] ! ((95 * length [5, 900, 70 :: u64] + 99) div 100 - 1);
       y = percentile (hist_record 5 (hist_record 900 (hist_record 70 (hist_empty 64))))
             (fl (of_nat 95 / 100))
   in y = bucket_upper_bound (bucket x) \<and> unat x \<le> unat y \<and> unat y \<le> 2 * unat x + 1"
proof (rule percentile_correct)
  show "represents (hist_record 5 (hist_record 900 (hist_record 70 (hist_empty 64)))) [5, 900, 70]"
    by (intro represents_record represents_empty) simp_all
  show "fl (of_nat 95 / 100) \<le> of_nat 95 / 100" by code_simp
qed (simp_all)

text \<open>The extremes: the first and the last non-empty bucket hold the least and the greatest value.\<close>

lemma min_scan_zeros:
  "\<forall>z \<in> set zs. z = 0 \<Longrightarrow> b \<noteq> 0 \<Longrightarrow> min_scan i (zs @ b # bs) = bucket_lower_bound (i + length zs)"
  by (induction zs arbitrary: i) auto

lemma max_scan_zeros:
  "\<forall>z \<in> set zs. z = 0 \<Longrightarrow> b \<noteq> 0 \<Longrightarrow> max_scan (zs @ b # bs) = bucket_upper_bound (length bs)"
  by (induction zs) auto

lemma represents_nth_0_iff: "represents h vs \<Longrightarrow> i < 64 \<Longrightarrow> h ! i = 0 \<longleftrightarrow> (\<forall>v \<in> set vs. bucket v \<noteq> i)"
  by (simp add: represents_def unat_0_iff64 filter_empty_conv)

lemma min_value_represents:
  assumes "represents h vs" "vs \<noteq> []"
  shows "min_value h = bucket_lower_bound (bucket (Min (set vs)))"
proof -
  define k where "k = bucket (Min (set vs))"
  have k: "k < 64" "length h = 64" using assms by (simp_all add: k_def represents_def)
  have "\<forall>z \<in> set (take k h). z = 0"
  proof
    fix z assume "z \<in> set (take k h)"
    then obtain i where i: "i < k" "z = h ! i" using k by (auto simp: in_set_conv_nth)
    have "bucket v \<noteq> i" if "v \<in> set vs" for v
      using bucket_mono [of "Min (set vs)" v] that i by (auto simp: k_def)
    then show "z = 0" using represents_nth_0_iff [OF assms(1), of i] i k by simp
  qed
  moreover have "h ! k \<noteq> 0"
    using represents_nth_0_iff [OF assms(1), of k] k assms(2) Min_in [of "set vs"] k_def by auto
  ultimately have "min_scan 0 (take k h @ h ! k # drop (Suc k) h) = bucket_lower_bound (0 + length (take k h))"
    by (rule min_scan_zeros)
  then show ?thesis using k by (simp add: min_value_def id_take_nth_drop [symmetric] flip: k_def)
qed

lemma max_value_represents:
  assumes "represents h vs" "vs \<noteq> []"
  shows "max_value h = bucket_upper_bound (bucket (Max (set vs)))"
proof -
  define k where "k = bucket (Max (set vs))"
  have k: "k < 64" "length h = 64" using assms by (simp_all add: k_def represents_def)
  have "\<forall>z \<in> set (rev (drop (Suc k) h)). z = 0"
  proof
    fix z assume "z \<in> set (rev (drop (Suc k) h))"
    then obtain j where j: "j < 64 - Suc k" "z = h ! (Suc k + j)" using k by (auto simp: in_set_conv_nth)
    define i where "i = Suc k + j"
    have i: "k < i" "i < 64" "z = h ! i" using j by (simp_all add: i_def)
    have "bucket v \<noteq> i" if "v \<in> set vs" for v
      using bucket_mono [of v "Max (set vs)"] that i by (auto simp: k_def)
    then show "z = 0" using represents_nth_0_iff [OF assms(1), of i] i by simp
  qed
  moreover have "h ! k \<noteq> 0"
    using represents_nth_0_iff [OF assms(1), of k] k assms(2) Max_in [of "set vs"] k_def by auto
  ultimately have "max_scan (rev (drop (Suc k) h) @ h ! k # rev (take k h)) =
      bucket_upper_bound (length (rev (take k h)))"
    by (rule max_scan_zeros)
  moreover have "rev h = rev (drop (Suc k) h) @ h ! k # rev (take k h)"
    using k id_take_nth_drop [of k h] by (metis append.assoc append_Cons append_Nil rev.simps(2) rev_append)
  ultimately show ?thesis using k by (simp add: max_value_def flip: k_def)
qed

lemma percentile_ordered:
  assumes "represents h vs" "vs \<noteq> []" "length vs \<le> 2 ^ 53" "p \<le> p'"
  shows "min_value h \<le> percentile h p \<and> percentile h p \<le> percentile h p' \<and> percentile h p' \<le> max_value h
    \<and> min_value h \<le> Min (set vs) \<and> Max (set vs) \<le> max_value h"
proof -
  have tot: "unat (total_count h) = length vs" by (rule total_count_represents [OF assms(1)])
  define t where "t x = unat (percentile_target (total_count h) x)" for x
  define x where "x y = sort vs ! (t y - 1)" for y
  have o: "1 \<le> t y" "t y \<le> length vs" "percentile h y = bucket_upper_bound (bucket (x y))" for y
    using percentile_order_statistic [OF assms(1,2), of y] by (simp_all add: t_def x_def)
  have x: "x y \<in> set vs" for y
    using o(1,2) [of y] nth_mem [of "t y - 1" "sort vs"] by (simp add: x_def)
  have "t p \<le> t p'"
    using percentile_target_mono [OF assms(4), of "total_count h"] tot assms(3)
    by (simp add: t_def word_le_nat_alt)
  then have "x p \<le> x p'"
    using o(1,2) [of p] o(1,2) [of p'] by (simp add: x_def sorted_nth_mono diff_le_mono)
  then have "percentile h p \<le> percentile h p'" 
    unfolding o(3) by (intro bucket_upper_mono [OF bucket_mono bucket_lt])
  moreover have "percentile h p' \<le> max_value h"
    unfolding o(3) max_value_represents [OF assms(1,2)] using x [of p']
    by (intro bucket_upper_mono bucket_mono) simp_all
  moreover have m: "min_value h \<le> Min (set vs)" "Max (set vs) \<le> max_value h"
    unfolding min_value_represents [OF assms(1,2)] max_value_represents [OF assms(1,2)]
    using bucket_bounds by (simp_all add: word_le_nat_alt)
  moreover have "x p \<le> percentile h p" unfolding o(3) using bucket_bounds by (simp add: word_le_nat_alt)
  then have "min_value h \<le> percentile h p"
    using m(1) x [of p] Min_le [of "set vs" "x p"] by (meson List.finite_set order_trans)
  ultimately show ?thesis by blast
qed

text \<open>
  The quantiles a snapshot reports are ordered: \<open>Percentile\<close> is monotone in the quantile, and lies
  between \<open>MinValue\<close>, the lower bound of the bucket of the least recorded value, and \<open>MaxValue\<close>, the
  upper bound of the bucket of the greatest.
\<close>

lemma percentile_mono:
  assumes "represents h vs" "vs \<noteq> []" "length vs \<le> 2 ^ 53" "p \<le> p'"
  shows "min_value h \<le> percentile h p \<and> percentile h p \<le> percentile h p' \<and> percentile h p' \<le> max_value h
    \<and> min_value h \<le> Min (set vs) \<and> Max (set vs) \<le> max_value h"
  by (rule percentile_ordered [OF assms])

lemma percentile_mono_example:
  "let h = hist_record 900 (hist_record 70 (hist_empty 64))
   in min_value h \<le> percentile h (fl (1 / 2)) \<and> percentile h (fl (1 / 2)) \<le> percentile h (fl (99 / 100)) \<and>
      percentile h (fl (99 / 100)) \<le> max_value h \<and>
      min_value h \<le> Min (set [900, 70]) \<and> Max (set [900, 70]) \<le> max_value h"
  unfolding Let_def
proof (rule percentile_mono)
  show "represents (hist_record 900 (hist_record 70 (hist_empty 64))) [900, 70]"
    by (intro represents_record represents_empty) simp_all
  show "fl (1 / 2) \<le> fl (99 / 100)" by (rule fl_mono) simp
qed simp_all

section \<open>Merging the histograms of several workers\<close>

text \<open>
  What a collector of samples promises its client: an empty one represents no sample, and merging
  represents the samples of both. The total over the workers, \<open>for (worker) totals.Merge(worker)\<close>, is
  the client.
\<close>

locale sample_store =
  fixes empty :: 'h and merge :: "'h \<Rightarrow> 'h \<Rightarrow> 'h" and rep :: "'h \<Rightarrow> 'v list \<Rightarrow> bool"
    and fits :: "nat \<Rightarrow> bool"
  assumes rep_empty: "rep empty []"
    and rep_merge: "rep h vs \<Longrightarrow> rep g ws \<Longrightarrow> fits (length vs + length ws) \<Longrightarrow> rep (merge h g) (vs @ ws)"
    and fits_mono: "m \<le> n \<Longrightarrow> fits n \<Longrightarrow> fits m"
begin

lemma rep_foldl:
  "rep h vs \<Longrightarrow> list_all2 rep hs vss \<Longrightarrow> fits (length vs + length (concat vss)) \<Longrightarrow>
    rep (foldl merge h hs) (vs @ concat vss)"
proof (induction hs arbitrary: h vs vss)
  case Nil
  then show ?case by simp
next
  case (Cons g hs)
  then obtain ws wss where w: "vss = ws # wss" "rep g ws" "list_all2 rep hs wss"
    by (auto simp: list_all2_Cons1)
  have "fits (length vs + length ws)" by (rule fits_mono [OF _ Cons.prems(3)]) (simp add: w)
  then have "rep (merge h g) (vs @ ws)" using Cons.prems(1) w(2) by (intro rep_merge)
  then have "rep (foldl merge (merge h g) hs) ((vs @ ws) @ concat wss)"
    using Cons.IH [of "merge h g" "vs @ ws" wss] w Cons.prems(3) by (simp add: add.assoc)
  then show ?case by (simp add: w)
qed

lemma rep_merge_all:
  "list_all2 rep hs vss \<Longrightarrow> fits (length (concat vss)) \<Longrightarrow> rep (foldl merge empty hs) (concat vss)"
  using rep_foldl [OF rep_empty, of hs vss] by simp

end

interpretation latency_store: sample_store "hist_empty 64" hist_merge represents "\<lambda>n. n < 2 ^ 64"
  by unfold_locales (auto intro: represents_empty represents_merge)

end
