(* ===== verification/Worker_Thread.thy ===== *)
theory Worker_Thread
  imports Engines Buffer_Pool Workload Histogram
begin

text \<open>
  \<open>WorkerThread\<close> (\<open>src/telemetry/worker_thread.cpp\<close>): one job. It draws requests from the generators,
  submits them to its engine, and accounts for every completion. The engine is any
  implementation of the interface, with its state; the clock, the shared flag \<open>g_running\<close> and
  what other threads do to it are the environment.
\<close>

section \<open>State and environment\<close>

record ('g, 'd, 's, 'c) worker =
  wk_config :: job_config
  wk_pool :: buffer_pool
  wk_engine :: 's
  wk_histogram :: histogram
  wk_iops_count :: u64
  wk_bytes_transferred :: u64
  wk_read_error_count :: u64
  wk_write_error_count :: u64
  wk_offset_gen :: "'g offset_generator"
  wk_direction_decider :: "'d direction_decider"
  wk_failed :: bool
  wk_error_message :: string
  wk_direct_effective :: bool
  wk_env :: 'c

record ('g, 'd, 's, 'c) worker_env =
  we_ops :: "'s engine_ops"
  we_uniform :: "u64 \<Rightarrow> u64 \<Rightarrow> 'g \<Rightarrow> u64 \<times> 'g"
  we_bernoulli :: "rat \<Rightarrow> 'd \<Rightarrow> bool \<times> 'd"
  we_ndebug :: bool
  we_now :: "'c \<Rightarrow> time_point \<times> 'c"
  we_running :: "'c \<Rightarrow> bool \<times> 'c"
  we_stop :: "'c \<Rightarrow> 'c"

text \<open>
  A member function of the worker: \<open>None\<close> when it does not return, an outcome when it does or when a
  check of the buffer pool stops the process.
\<close>

type_synonym ('w, 'a) wprog = "'w \<Rightarrow> ('a result \<times> 'w) outcome option"

definition returnW :: "'a \<Rightarrow> ('w, 'a) wprog" where
  "returnW a = (\<lambda>w. Some (Done (Inr a, w)))"

definition bindW :: "('w, 'a) wprog \<Rightarrow> ('a \<Rightarrow> ('w, 'b) wprog) \<Rightarrow> ('w, 'b) wprog" where
  "bindW m f = (\<lambda>w. case m w of
      None \<Rightarrow> None
    | Some (Done (Inr a, w')) \<Rightarrow> f a w'
    | Some (Done (Inl e, w')) \<Rightarrow> Some (Done (Inl e, w'))
    | Some (AssertFail x) \<Rightarrow> Some (AssertFail x)
    | Some Undefined \<Rightarrow> Some Undefined)"

text \<open>\<open>while (condition) { body }\<close>: one round gives whether the condition held.\<close>

partial_function (option) loop_while ::
    "('w \<Rightarrow> (bool result \<times> 'w) outcome option) \<Rightarrow> 'w \<Rightarrow> (unit result \<times> 'w) outcome option" where
  "loop_while body w =
     (case body w of
        None \<Rightarrow> None
      | Some (Done (Inr again, w')) \<Rightarrow> if again then loop_while body w' else Some (Done (Inr (), w'))
      | Some (Done (Inl e, w')) \<Rightarrow> Some (Done (Inl e, w'))
      | Some (AssertFail x) \<Rightarrow> Some (AssertFail x)
      | Some Undefined \<Rightarrow> Some Undefined)"

declare loop_while.simps [code]

section \<open>Operations\<close>

definition read_clock ::
    "('g, 'd, 's, 'c) worker_env \<Rightarrow> (('g, 'd, 's, 'c) worker, time_point) wprog" where
  "read_clock env = (\<lambda>w. case we_now env (wk_env w) of (t, c) \<Rightarrow> Some (Done (Inr t, w\<lparr>wk_env := c\<rparr>)))"

definition load_running ::
    "('g, 'd, 's, 'c) worker_env \<Rightarrow> (('g, 'd, 's, 'c) worker, bool) wprog" where
  "load_running env =
     (\<lambda>w. case we_running env (wk_env w) of (b, c) \<Rightarrow> Some (Done (Inr b, w\<lparr>wk_env := c\<rparr>)))"

definition engine_call :: "('s, 'a) prog \<Rightarrow> (('g, 'd, 's, 'c) worker, 'a) wprog" where
  "engine_call m = (\<lambda>w. case m (wk_engine w) of
      None \<Rightarrow> None
    | Some (r, s) \<Rightarrow> Some (Done (r, w\<lparr>wk_engine := s\<rparr>)))"

definition generate_next_io ::
    "('g, 'd, 's, 'c) worker_env \<Rightarrow> ('g, 'd, 's, 'c) worker \<Rightarrow>
     (io_request \<times> ('g, 'd, 's, 'c) worker) outcome" where
  "generate_next_io env w =
     bindO (pool_acquire (we_ndebug env) (wk_pool w)) (\<lambda>(slot, pool).
       case next_offset (we_uniform env) (wk_offset_gen w) of (offset, og) \<Rightarrow>
       case next_direction (we_bernoulli env) (wk_direction_decider w) of (direction, dd) \<Rightarrow>
         Done (\<lparr>rq_offset = offset, rq_buffer = pool_data pool slot,
                rq_length = jc_block_size (wk_config w), rq_direction = direction,
                rq_submit_time = 0, rq_id = ucast slot\<rparr>,
               w\<lparr>wk_pool := pool, wk_offset_gen := og, wk_direction_decider := dd\<rparr>))"

definition release_slot ::
    "('g, 'd, 's, 'c) worker_env \<Rightarrow> u64 \<Rightarrow> ('g, 'd, 's, 'c) worker \<Rightarrow> ('g, 'd, 's, 'c) worker outcome" where
  "release_slot env i w =
     bindO (pool_release (we_ndebug env) (ucast i) (wk_pool w)) (\<lambda>pool. Done (w\<lparr>wk_pool := pool\<rparr>))"

text \<open>The handler of \<open>SubmitOne\<close> gives the slot back and throws on.\<close>

definition submit_one ::
    "('g, 'd, 's, 'c) worker_env \<Rightarrow> (('g, 'd, 's, 'c) worker, unit) wprog" where
  "submit_one env = (\<lambda>w.
     case generate_next_io env w of
       AssertFail x \<Rightarrow> Some (AssertFail x)
     | Undefined \<Rightarrow> Some Undefined
     | Done (rq0, w1) \<Rightarrow>
         bindW (read_clock env) (\<lambda>t w2.
           let rq = rq0\<lparr>rq_submit_time := t\<rparr> in
           case engine_call (eo_submit (we_ops env) rq) w2 of
             Some (Done (Inl e, w3)) \<Rightarrow>
               (case release_slot env (rq_id rq) w3 of
                  Done w4 \<Rightarrow> Some (Done (Inl e, w4))
                | AssertFail x \<Rightarrow> Some (AssertFail x)
                | Undefined \<Rightarrow> Some Undefined)
           | r \<Rightarrow> r) w1)"

definition record_completion ::
    "('g, 'd, 's, 'c) worker_env \<Rightarrow> io_completion \<Rightarrow> time_point \<Rightarrow> ('g, 'd, 's, 'c) worker \<Rightarrow>
     ('g, 'd, 's, 'c) worker outcome" where
  "record_completion env c now w =
     (let elapsed = now - cp_submit_time c;
          w1 = w\<lparr>wk_histogram := hist_record (if elapsed > 0 then word_of_int elapsed else 0) (wk_histogram w),
                 wk_iops_count := wk_iops_count w + 1,
                 wk_bytes_transferred := wk_bytes_transferred w + word_of_int (cp_bytes c)\<rparr>;
          w2 = (if \<not> cp_success c
                then if cp_direction c = Dir_kRead
                     then w1\<lparr>wk_read_error_count := wk_read_error_count w + 1\<rparr>
                     else w1\<lparr>wk_write_error_count := wk_write_error_count w + 1\<rparr>
                else w1)
      in release_slot env (cp_id c) w2)"

fun record_each ::
    "('g, 'd, 's, 'c) worker_env \<Rightarrow> time_point \<Rightarrow> io_completion list \<Rightarrow> ('g, 'd, 's, 'c) worker \<Rightarrow>
     ('g, 'd, 's, 'c) worker outcome" where
  "record_each env now [] w = Done w"
| "record_each env now (c # cs) w = bindO (record_completion env c now w) (record_each env now cs)"

definition lift_outcome :: "('w \<Rightarrow> 'w outcome) \<Rightarrow> ('w, unit) wprog" where
  "lift_outcome f = (\<lambda>w. Some (bindO (f w) (\<lambda>w'. Done (Inr (), w'))))"

section \<open>The loops\<close>

definition sync_iteration ::
    "('g, 'd, 's, 'c) worker_env \<Rightarrow> (('g, 'd, 's, 'c) worker, bool) wprog" where
  "sync_iteration env =
     bindW (load_running env) (\<lambda>running.
       if \<not> running then returnW False
       else bindW (submit_one env) (\<lambda>_.
            bindW (engine_call (eo_poll (we_ops env) 1 1)) (\<lambda>completions.
            bindW (read_clock env) (\<lambda>now.
            bindW (lift_outcome (record_each env now completions)) (\<lambda>_.
            returnW True)))))"

definition run_sync_loop ::
    "('g, 'd, 's, 'c) worker_env \<Rightarrow> (('g, 'd, 's, 'c) worker, unit) wprog" where
  "run_sync_loop env = loop_while (sync_iteration env)"

text \<open>The asynchronous loop counts the requests in flight; its state is the worker with the count.\<close>

definition counted :: "('w, 'a) wprog \<Rightarrow> ('w \<times> int, 'a) wprog" where
  "counted m = (\<lambda>(w, n). case m w of
      None \<Rightarrow> None
    | Some (Done (r, w')) \<Rightarrow> Some (Done (r, (w', n)))
    | Some (AssertFail x) \<Rightarrow> Some (AssertFail x)
    | Some Undefined \<Rightarrow> Some Undefined)"

definition add_in_flight :: "int \<Rightarrow> ('w \<times> int, unit) wprog" where
  "add_in_flight d = (\<lambda>(w, n). Some (Done (Inr (), (w, n + d))))"

definition submit_counted ::
    "('g, 'd, 's, 'c) worker_env \<Rightarrow> (('g, 'd, 's, 'c) worker \<times> int, unit) wprog" where
  "submit_counted env = bindW (counted (submit_one env)) (\<lambda>_. add_in_flight 1)"

fun prefill ::
    "('g, 'd, 's, 'c) worker_env \<Rightarrow> nat \<Rightarrow> (('g, 'd, 's, 'c) worker \<times> int, unit) wprog" where
  "prefill env 0 = returnW ()"
| "prefill env (Suc k) =
     bindW (counted (load_running env)) (\<lambda>running.
       if running then bindW (submit_counted env) (\<lambda>_. prefill env k) else returnW ())"

fun reap_and_refill ::
    "('g, 'd, 's, 'c) worker_env \<Rightarrow> time_point \<Rightarrow> io_completion list \<Rightarrow>
     (('g, 'd, 's, 'c) worker \<times> int, unit) wprog" where
  "reap_and_refill env now [] = returnW ()"
| "reap_and_refill env now (c # cs) =
     bindW (counted (lift_outcome (record_completion env c now))) (\<lambda>_.
     bindW (add_in_flight (- 1)) (\<lambda>_.
     bindW (counted (load_running env)) (\<lambda>running.
     bindW (if running then submit_counted env else returnW ()) (\<lambda>_.
       reap_and_refill env now cs))))"

definition async_iteration ::
    "('g, 'd, 's, 'c) worker_env \<Rightarrow> int \<Rightarrow> (('g, 'd, 's, 'c) worker \<times> int, bool) wprog" where
  "async_iteration env depth =
     bindW (counted (load_running env)) (\<lambda>running (w, n).
       if running \<or> n > 0
       then bindW (counted (engine_call (eo_poll (we_ops env) 1 depth))) (\<lambda>completions.
            bindW (counted (read_clock env)) (\<lambda>now.
            bindW (reap_and_refill env now completions) (\<lambda>_.
            returnW True))) (w, n)
       else returnW False (w, n))"

definition run_async_loop ::
    "('g, 'd, 's, 'c) worker_env \<Rightarrow> (('g, 'd, 's, 'c) worker, unit) wprog" where
  "run_async_loop env = (\<lambda>w.
     let depth = effective_iodepth (wk_config w) in
     case bindW (prefill env (nat depth)) (\<lambda>_. loop_while (async_iteration env depth)) (w, 0) of
       None \<Rightarrow> None
     | Some (Done (r, (w', n))) \<Rightarrow> Some (Done (r, w'))
     | Some (AssertFail x) \<Rightarrow> Some (AssertFail x)
     | Some Undefined \<Rightarrow> Some Undefined)"

section \<open>The thread\<close>

definition record_failure ::
    "('g, 'd, 's, 'c) worker_env \<Rightarrow> string \<Rightarrow> ('g, 'd, 's, 'c) worker \<Rightarrow> ('g, 'd, 's, 'c) worker" where
  "record_failure env msg w =
     w\<lparr>wk_error_message := msg, wk_failed := True, wk_env := we_stop env (wk_env w)\<rparr>"

definition worker_error_message :: "('g, 'd, 's, 'c) worker \<Rightarrow> string" where
  "worker_error_message w = (if \<not> wk_failed w then [] else wk_error_message w)"

text \<open>After the barrier. The second handler catches what is not a \<open>std::exception\<close>.\<close>

definition worker_run ::
    "('g, 'd, 's, 'c) worker_env \<Rightarrow> ('g, 'd, 's, 'c) worker \<Rightarrow> ('g, 'd, 's, 'c) worker outcome option" where
  "worker_run env w =
     (case (if effective_iodepth (wk_config w) = 1 then run_sync_loop env w else run_async_loop env w) of
        None \<Rightarrow> None
      | Some (Done (Inr _, w')) \<Rightarrow> Some (Done w')
      | Some (Done (Inl NonStdError, w')) \<Rightarrow> Some (Done (record_failure env ''unknown exception'' w'))
      | Some (Done (Inl e, w')) \<Rightarrow> Some (Done (record_failure env (what e) w'))
      | Some (AssertFail x) \<Rightarrow> Some (AssertFail x)
      | Some Undefined \<Rightarrow> Some Undefined)"

text \<open>
  The constructor. When it throws, the engine it owns is closed by its destructor.
  \<open>alloc\<close> and \<open>bytes\<close> are the allocator and the random words of the buffer pool, \<open>seed_o\<close> and \<open>seed_d\<close>
  the seeds of the generators.
\<close>

definition worker_create ::
    "('g, 'd, 's, 'c) worker_env \<Rightarrow> (u64 \<Rightarrow> u64 \<Rightarrow> u64) \<Rightarrow> (nat \<Rightarrow> u64) \<Rightarrow> 'g \<Rightarrow> 'd \<Rightarrow> 'c \<Rightarrow>
     job_config \<Rightarrow> ('s, ('g, 'd, 's, 'c) worker) prog" where
  "worker_create env alloc bytes seed_o seed_d c config = (\<lambda>s.
     let close = (\<lambda>e s1. case eo_close (we_ops env) s1 of
                     None \<Rightarrow> None | Some (_, s2) \<Rightarrow> Some (Inl e, s2)) in
     case buffer_pool_create alloc bytes (jc_alignment config) (jc_block_size config)
            (word_of_int (effective_iodepth config)) of
       Inl e \<Rightarrow> close e s
     | Inr pool \<Rightarrow>
         (case eo_open (we_ops env) config s of
            None \<Rightarrow> None
          | Some (Inl e, s1) \<Rightarrow> close e s1
          | Some (Inr _, s1) \<Rightarrow>
              Some (Inr \<lparr>wk_config = config, wk_pool = pool, wk_engine = s1, wk_histogram = hist_empty 64,
                wk_iops_count = 0, wk_bytes_transferred = 0, wk_read_error_count = 0,
                wk_write_error_count = 0,
                wk_offset_gen = offset_generator_create (jc_access_pattern config) (jc_file_size config)
                  (jc_block_size config) (jc_alignment config) seed_o,
                wk_direction_decider =
                  direction_decider_create (jc_rw_mode config) (jc_rwmixread config) seed_d,
                wk_failed = False, wk_error_message = [],
                wk_direct_effective = eo_direct (we_ops env) s1, wk_env = c\<rparr>, s1)))"

section \<open>Reasoning about the programs of the worker\<close>

text \<open>
  \<open>safe Q E r\<close>: the run did not stop on a check of the pool; if it returned, \<open>Q\<close> holds of the value and
  the state, and if it threw, \<open>E\<close> holds of the state.
\<close>

definition safe :: "('a \<Rightarrow> 'w \<Rightarrow> bool) \<Rightarrow> ('w \<Rightarrow> bool) \<Rightarrow> ('a result \<times> 'w) outcome option \<Rightarrow> bool" where
  "safe Q E r = (case r of
      None \<Rightarrow> True
    | Some (Done (Inr a, w)) \<Rightarrow> Q a w
    | Some (Done (Inl e, w)) \<Rightarrow> E w
    | Some (AssertFail x) \<Rightarrow> False
    | Some Undefined \<Rightarrow> False)"

lemma safe_simps [simp]:
  "safe Q E None"
  "safe Q E (Some (Done (Inr a, w))) = Q a w"
  "safe Q E (Some (Done (Inl e, w))) = E w"
  "\<not> safe Q E (Some (AssertFail x))"
  "\<not> safe Q E (Some Undefined)"
  by (simp_all add: safe_def)

lemma safe_cases:
  assumes "safe Q E r"
  obtains "r = None" | a w where "r = Some (Done (Inr a, w))" "Q a w"
    | e w where "r = Some (Done (Inl e, w))" "E w"
proof (cases r)
  case (Some q)
  then obtain v w where q: "r = Some (Done (v, w))" using assms by (cases q) auto
  then show ?thesis using assms that by (cases v) auto
qed (use that in simp)

lemma safe_mono: "safe Q E r \<Longrightarrow> (\<And>a w. Q a w \<Longrightarrow> Q' a w) \<Longrightarrow> safe Q' E r"
  by (erule safe_cases) auto

lemma safe_bindW:
  assumes "safe Q E (m w)" "\<And>a w'. Q a w' \<Longrightarrow> safe R E (f a w')"
  shows "safe R E (bindW m f w)"
  using assms(1) by (rule safe_cases) (simp_all add: bindW_def assms(2))

lemma bindW_done: "m w = Some (Done (Inr a, w')) \<Longrightarrow> bindW m f w = f a w'"
  by (simp add: bindW_def)

lemma safe_counted:
  "safe (\<lambda>a w'. Q a (w', n)) (\<lambda>w'. E (w', n)) (m w) \<Longrightarrow> safe Q E (counted m (w, n))"
  by (erule safe_cases) (auto simp: counted_def)

lemma safe_returnW [simp]: "safe Q E (returnW a w) = Q a w"
  by (simp add: returnW_def)

lemma safe_add_in_flight [simp]: "safe Q E (add_in_flight d (w, n)) = Q () (w, n + d)"
  by (simp add: add_in_flight_def)

lemma safe_loop_step:
  assumes "safe (\<lambda>again w'. if again then I w' else F w') E (body w)"
    and "\<And>w r. I w \<Longrightarrow> loop w = Some r \<Longrightarrow> safe (\<lambda>_. F) E (Some r)"
    and "(case body w of
        None \<Rightarrow> None
      | Some (Done (Inr again, w')) \<Rightarrow> if again then loop w' else Some (Done (Inr (), w'))
      | Some (Done (Inl e, w')) \<Rightarrow> Some (Done (Inl e, w'))
      | Some (AssertFail x) \<Rightarrow> Some (AssertFail x)
      | Some Undefined \<Rightarrow> Some Undefined) = Some r"
  shows "safe (\<lambda>_. F) E (Some r)"
  using assms(1) by (rule safe_cases) (use assms(2,3) in \<open>auto split: if_splits\<close>)

lemma safe_loop_while:
  assumes "I w" and body: "\<And>w. I w \<Longrightarrow> safe (\<lambda>again w'. if again then I w' else F w') E (body w)"
  shows "safe (\<lambda>_. F) E (loop_while body w)"
proof (cases "loop_while body w")
  case (Some r)
  have "I w \<longrightarrow> (\<forall>w. I w \<longrightarrow> safe (\<lambda>again w'. if again then I w' else F w') E (body w)) \<longrightarrow>
      safe (\<lambda>_. F) E (Some r)"
  proof (rule loop_while.raw_induct [OF _ Some, where P = "\<lambda>body w r. I w \<longrightarrow>
        (\<forall>w. I w \<longrightarrow> safe (\<lambda>again w'. if again then I w' else F w') E (body w)) \<longrightarrow>
        safe (\<lambda>_. F) E (Some r)"], intro impI)
    fix loop :: "('a \<Rightarrow> (bool result \<times> 'a) outcome option) \<Rightarrow> 'a \<Rightarrow> (unit result \<times> 'a) outcome option"
      and body w r
    assume ih: "\<And>body w r. loop body w = Some r \<Longrightarrow> I w \<longrightarrow>
        (\<forall>w. I w \<longrightarrow> safe (\<lambda>again w'. if again then I w' else F w') E (body w)) \<longrightarrow>
        safe (\<lambda>_. F) E (Some r)"
      and eq: "(case body w of
          None \<Rightarrow> None
        | Some (Done (Inr again, w')) \<Rightarrow> if again then loop body w' else Some (Done (Inr (), w'))
        | Some (Done (Inl e, w')) \<Rightarrow> Some (Done (Inl e, w'))
        | Some (AssertFail x) \<Rightarrow> Some (AssertFail x)
        | Some Undefined \<Rightarrow> Some Undefined) = Some r"
      and "I w" and b: "\<forall>w. I w \<longrightarrow> safe (\<lambda>again w'. if again then I w' else F w') E (body w)"
    then show "safe (\<lambda>_. F) E (Some r)"
      by (intro safe_loop_step [of I F E body w "loop body" r]) auto
  qed
  then show ?thesis using assms Some by simp
qed simp

section \<open>The invariant of the worker\<close>

text \<open>The counters account for a log of latencies and completions.\<close>

definition accounted :: "('g, 'd, 's, 'c) worker \<Rightarrow> (u64 \<times> io_completion) list \<Rightarrow> bool" where
  "accounted w entries \<longleftrightarrow>
     wk_histogram w = foldr hist_record (map fst entries) (hist_empty 64) \<and>
     wk_iops_count w = of_nat (length entries) \<and>
     wk_bytes_transferred w = sum_list (map (\<lambda>x. word_of_int (cp_bytes (snd x))) entries) \<and>
     wk_read_error_count w =
       of_nat (length (filter (\<lambda>x. \<not> cp_success (snd x) \<and> cp_direction (snd x) = Dir_kRead) entries)) \<and>
     wk_write_error_count w =
       of_nat (length (filter (\<lambda>x. \<not> cp_success (snd x) \<and> cp_direction (snd x) = Dir_kWrite) entries))"

text \<open>
  \<open>working env rep D config rest n w\<close>: the \<open>n\<close> slots given out, read as request ids, are those the
  engine has pending and those of the completions in \<open>rest\<close>, polled and not yet recorded.
\<close>

definition working ::
    "('g, 'd, 's, 'c) worker_env \<Rightarrow> ('s \<Rightarrow> (u64 \<Rightarrow> submit_info option) \<Rightarrow> bool) \<Rightarrow> nat \<Rightarrow> job_config \<Rightarrow>
     u64 list \<Rightarrow> nat \<Rightarrow> ('g, 'd, 's, 'c) worker \<Rightarrow> bool" where
  "working env rep D config rest n w \<longleftrightarrow>
     wk_config w = config \<and> \<not> wk_failed w \<and> pool_inv (we_ndebug env) (wk_pool w) \<and>
     unat (bp_capacity (wk_pool w)) = D \<and> card (held (wk_pool w)) = n \<and>
     (\<exists>entries. accounted w entries) \<and>
     (\<exists>p. rep (wk_engine w) p \<and> ucast ` held (wk_pool w) = dom p \<union> set rest \<and>
        dom p \<inter> set rest = {} \<and> distinct rest)"

text \<open>A worker that threw: some completions of its last poll may be unrecorded.\<close>

definition stopped ::
    "('g, 'd, 's, 'c) worker_env \<Rightarrow> ('s \<Rightarrow> (u64 \<Rightarrow> submit_info option) \<Rightarrow> bool) \<Rightarrow> nat \<Rightarrow> job_config \<Rightarrow>
     ('g, 'd, 's, 'c) worker \<Rightarrow> bool" where
  "stopped env rep D config w \<longleftrightarrow> (\<exists>rest n. working env rep D config rest n w)"

lemma ucast_slot [simp]: "ucast (ucast (s :: u32) :: u64) = s"
  by (intro bit_word_eqI) (auto simp: bit_ucast_iff)

lemma ucast_slot_inj: "inj (ucast :: u32 \<Rightarrow> u64)"
  by (rule injI) (metis ucast_slot)

lemma finite_held [simp]: "finite (held p)"
  by (simp add: held_def)

lemma working_le: "working env rep D config rest n w \<Longrightarrow> n \<le> D"
  using card_held [of "we_ndebug env" "wk_pool w"] by (auto simp: working_def)

lemma working_env_upd [simp]: "working env rep D config rest n (w\<lparr>wk_env := c\<rparr>) = working env rep D config rest n w"
  by (simp add: working_def accounted_def)

lemma safe_read_clock:
  "working env rep D config rest n w \<Longrightarrow> safe (\<lambda>_. working env rep D config rest n) E (read_clock env w)"
  by (simp add: read_clock_def split: prod.split)

lemma safe_load_running:
  "working env rep D config rest n w \<Longrightarrow> safe (\<lambda>_. working env rep D config rest n) E (load_running env w)"
  by (simp add: load_running_def split: prod.split)

lemma record_completion_working:
  assumes "working env rep D config (cp_id c # rest) n w"
  shows "\<exists>w'. record_completion env c now w = Done w' \<and> 1 \<le> n \<and> working env rep D config rest (n - 1) w'"
proof -
  obtain p entries where p: "rep (wk_engine w) p" "ucast ` held (wk_pool w) = dom p \<union> set (cp_id c # rest)"
    "dom p \<inter> set (cp_id c # rest) = {}" "distinct (cp_id c # rest)" "accounted w entries"
    using assms by (auto simp: working_def)
  have i: "pool_inv (we_ndebug env) (wk_pool w)" "unat (bp_capacity (wk_pool w)) = D"
    "card (held (wk_pool w)) = n" "wk_config w = config" "\<not> wk_failed w"
    using assms by (simp_all add: working_def)
  have "cp_id c \<in> ucast ` held (wk_pool w)" using p(2) by simp
  then obtain s where s: "s \<in> held (wk_pool w)" "cp_id c = ucast s" by blast
  from release_done [OF i(1) s(1)] obtain pool where pool:
    "pool_release (we_ndebug env) s (wk_pool w) = Done pool" "held pool = held (wk_pool w) - {s}"
    "pool_inv (we_ndebug env) pool" "bp_capacity pool = bp_capacity (wk_pool w)" by blast
  define x where "x = (if now - cp_submit_time c > 0 then word_of_int (now - cp_submit_time c) else 0 :: u64)"
  define w2 where "w2 = w\<lparr>wk_histogram := hist_record x (wk_histogram w),
      wk_iops_count := wk_iops_count w + 1,
      wk_bytes_transferred := wk_bytes_transferred w + word_of_int (cp_bytes c),
      wk_read_error_count := wk_read_error_count w + of_bool (\<not> cp_success c \<and> cp_direction c = Dir_kRead),
      wk_write_error_count := wk_write_error_count w + of_bool (\<not> cp_success c \<and> cp_direction c \<noteq> Dir_kRead),
      wk_pool := pool\<rparr>"
  have rec: "record_completion env c now w = Done w2"
    using s(2) pool(1) unfolding record_completion_def release_slot_def
    by (cases "cp_success c"; cases "cp_direction c") (simp_all add: Let_def w2_def x_def)
  have "accounted w2 ((x, c) # entries)"
    using p(5) by (cases "cp_direction c") (auto simp: accounted_def w2_def)
  moreover have "ucast ` held pool = dom p \<union> set rest"
  proof -
    have "ucast ` held pool = ucast ` held (wk_pool w) - {cp_id c}"
      unfolding pool(2) s(2) by (simp add: image_set_diff [OF ucast_slot_inj])
    also have "\<dots> = dom p \<union> set rest" unfolding p(2) using p(3,4) by auto
    finally show ?thesis .
  qed
  moreover have "card (held pool) = n - 1" using pool(2) s(1) i(3) by simp
  moreover have "1 \<le> n" using s(1) i(3) by (metis card_gt_0_iff empty_iff finite_held less_eq_Suc_le One_nat_def)
  ultimately have "working env rep D config rest (n - 1) w2"
    using p pool i unfolding working_def by (auto simp: w2_def)
  with rec \<open>1 \<le> n\<close> show ?thesis by blast
qed

lemma record_each_working:
  "working env rep D config (map cp_id cs) n w \<Longrightarrow>
    \<exists>w'. record_each env now cs w = Done w' \<and> length cs \<le> n \<and> working env rep D config [] (n - length cs) w'"
proof (induction cs arbitrary: n w)
  case (Cons c cs)
  then obtain w1 where w1: "record_completion env c now w = Done w1" "1 \<le> n"
    "working env rep D config (map cp_id cs) (n - 1) w1"
    using record_completion_working [of env rep D config c "map cp_id cs" n w now] by auto
  from Cons.IH [OF w1(3)] w1(1,2) show ?case by fastforce
qed simp

text \<open>Drawing the next request takes one slot from the pool.\<close>

lemma generate_next_io_working:
  assumes "working env rep D config rest n w" "n < D"
  shows "\<exists>rq w1 s. generate_next_io env w = Done (rq, w1) \<and> rq_id rq = ucast s \<and>
    rq_length rq = jc_block_size config \<and> rq_buffer rq = pool_data (wk_pool w1) s \<and>
    s \<notin> held (wk_pool w) \<and> held (wk_pool w1) = insert s (held (wk_pool w)) \<and>
    pool_inv (we_ndebug env) (wk_pool w1) \<and> bp_capacity (wk_pool w1) = bp_capacity (wk_pool w) \<and>
    wk_engine w1 = wk_engine w \<and> wk_config w1 = wk_config w \<and> accounted w1 = accounted w \<and>
    wk_failed w1 = wk_failed w"
proof -
  have i: "pool_inv (we_ndebug env) (wk_pool w)" "card (held (wk_pool w)) < unat (bp_capacity (wk_pool w))"
    "wk_config w = config"
    using assms by (simp_all add: working_def)
  then have "bp_free_slots (wk_pool w) \<noteq> []" using card_held [OF i(1)] by (auto simp: pool_available_def)
  from acquire_done [OF i(1) this] obtain s pool where
    "pool_acquire (we_ndebug env) (wk_pool w) = Done (s, pool)" "s \<notin> held (wk_pool w)"
    "held pool = insert s (held (wk_pool w))" "pool_inv (we_ndebug env) pool"
    "bp_capacity pool = bp_capacity (wk_pool w)" by blast
  then show ?thesis
    using i(3) by (auto simp: generate_next_io_def accounted_def fun_eq_iff split: prod.splits)
qed

lemma release_slot_ucast:
  "release_slot env (ucast s) w = bindO (pool_release (we_ndebug env) s (wk_pool w)) (\<lambda>pool. Done (w\<lparr>wk_pool := pool\<rparr>))"
  by (simp add: release_slot_def)

context io_engine
begin

lemma submit_one_safe:
  assumes env: "we_ops env = ops" and w: "working env rep D config rest n w" "n < D"
  shows "safe (\<lambda>_. working env rep D config rest (Suc n)) (stopped env rep D config) (submit_one env w)"
proof -
  obtain rq0 w1 s where g: "generate_next_io env w = Done (rq0, w1)" "rq_id rq0 = ucast s"
    "s \<notin> held (wk_pool w)" "held (wk_pool w1) = insert s (held (wk_pool w))"
    "pool_inv (we_ndebug env) (wk_pool w1)" "bp_capacity (wk_pool w1) = bp_capacity (wk_pool w)"
    "wk_engine w1 = wk_engine w" "wk_config w1 = wk_config w" "accounted w1 = accounted w"
    "wk_failed w1 = wk_failed w"
    using generate_next_io_working [OF w] by blast
  obtain t c where t: "we_now env (wk_env w1) = (t, c)" by fastforce
  define rq where "rq = rq0\<lparr>rq_submit_time := t\<rparr>"
  define w2 where "w2 = w1\<lparr>wk_env := c\<rparr>"
  have id: "rq_id rq = ucast s" using g(2) by (simp add: rq_def)
  obtain p entries where p: "rep (wk_engine w) p" "ucast ` held (wk_pool w) = dom p \<union> set rest" "accounted w entries"
    "dom p \<inter> set rest = {}" "distinct rest" "unat (bp_capacity (wk_pool w)) = D" "card (held (wk_pool w)) = n" "wk_config w = config"
    "\<not> wk_failed w"
    using w(1) by (auto simp: working_def)
  have "(ucast s :: u64) \<notin> ucast ` held (wk_pool w)" using g(3) by (simp add: inj_image_mem_iff [OF ucast_slot_inj])
  then have fresh: "ucast s \<notin> set rest" using p(2) by blast
  have eq: "submit_one env w = (case engine_call (eo_submit ops rq) w2 of
             Some (Done (Inl e, w3)) \<Rightarrow>
               (case release_slot env (rq_id rq) w3 of
                  Done w4 \<Rightarrow> Some (Done (Inl e, w4))
                | AssertFail x \<Rightarrow> Some (AssertFail x)
                | Undefined \<Rightarrow> Some Undefined)
           | r \<Rightarrow> r)"
    using g(1) t env unfolding rq_def w2_def by (simp add: submit_one_def bindW_def read_clock_def Let_def)
  have acc: "accounted (w1\<lparr>wk_env := c, wk_engine := e, wk_pool := q\<rparr>) entries"
    "accounted (w1\<lparr>wk_env := c, wk_engine := e\<rparr>) entries" for e q
    using p(3) g(9) by (simp_all add: accounted_def fun_eq_iff)
  show ?thesis
  proof (cases "eo_submit ops rq (wk_engine w)")
    case None
    then show ?thesis unfolding eq by (simp add: engine_call_def w2_def g(7))
  next
    case (Some rs)
    then obtain r e where e: "eo_submit ops rq (wk_engine w) = Some (r, e)" by (cases rs) auto
    have call: "engine_call (eo_submit ops rq) w2 = Some (Done (r, w2\<lparr>wk_engine := e\<rparr>))"
      using e by (simp add: engine_call_def w2_def g(7))
    show ?thesis
    proof (cases r)
      case (Inr u)
      have "rep e (p(rq_id rq \<mapsto> info_of rq))" using submit_ok [OF p(1), of rq e] e Inr by simp
      moreover have "ucast ` held (wk_pool w1) = dom (p(rq_id rq \<mapsto> info_of rq)) \<union> set rest"
        unfolding g(4) using p(2) id by simp
      moreover have "card (held (wk_pool w1)) = Suc n" using g(3,4) p(7) by simp
      ultimately have "working env rep D config rest (Suc n) (w2\<lparr>wk_engine := e\<rparr>)"
        unfolding working_def
        by (intro conjI exI [of _ entries] exI [of _ "p(rq_id rq \<mapsto> info_of rq)"])
          (use g p acc(2) fresh id in \<open>simp_all add: w2_def\<close>)
      then show ?thesis unfolding eq call using Inr by simp
    next
      case (Inl x)
      have "rep e p" using submit_throws [OF p(1), of rq x e] e Inl by simp
      moreover obtain q where q: "pool_release (we_ndebug env) s (wk_pool w1) = Done q"
        "held q = held (wk_pool w1) - {s}" "pool_inv (we_ndebug env) q"
        "bp_capacity q = bp_capacity (wk_pool w1)"
        using release_done [OF g(5), of s] g(4) by auto
      moreover have "held q = held (wk_pool w)" using q(2) g(3,4) by auto
      ultimately have "working env rep D config rest n (w2\<lparr>wk_engine := e, wk_pool := q\<rparr>)"
        unfolding working_def
        by (intro conjI exI [of _ entries] exI [of _ p]) (use g p acc(1) in \<open>simp_all add: w2_def\<close>)
      moreover have "release_slot env (rq_id rq) (w2\<lparr>wk_engine := e\<rparr>) = Done (w2\<lparr>wk_engine := e, wk_pool := q\<rparr>)"
        unfolding id release_slot_ucast using q(1) by (simp add: w2_def)
      ultimately show ?thesis unfolding eq call using Inl by (auto simp: stopped_def)
    qed
  qed
qed

lemma poll_safe:
  assumes "we_ops env = ops" "working env rep D config [] n w"
  shows "safe (\<lambda>cs. working env rep D config (map cp_id cs) n) (stopped env rep D config)
    (engine_call (eo_poll (we_ops env) mn mx) w)"
proof (cases "eo_poll ops mn mx (wk_engine w)")
  case None
  then show ?thesis by (simp add: engine_call_def assms(1))
next
  case (Some rs)
  then obtain r e where e: "eo_poll ops mn mx (wk_engine w) = Some (r, e)" by (cases rs) auto
  obtain p entries where p: "rep (wk_engine w) p" "ucast ` held (wk_pool w) = dom p" "accounted w entries"
    using assms(2) by (auto simp: working_def)
  have acc: "accounted (w\<lparr>wk_engine := e\<rparr>) entries" using p(3) by (simp add: accounted_def)
  show ?thesis
  proof (cases r)
    case (Inr cs)
    then have q: "distinct (map cp_id cs)" "rep e (p |` (- cp_id ` set cs))" "cp_id ` set cs \<subseteq> dom p"
      using poll_ok [OF p(1), of mn mx cs e] poll_subset [OF p(1), of mn mx cs e] e by auto
    let ?p = "p |` (- cp_id ` set cs)"
    have d: "ucast ` held (wk_pool w) = dom ?p \<union> set (map cp_id cs)" "dom ?p \<inter> set (map cp_id cs) = {}"
      using p(2) q(3) by auto
    have c: "wk_config w = config" "\<not> wk_failed w" "pool_inv (we_ndebug env) (wk_pool w)"
      "unat (bp_capacity (wk_pool w)) = D" "card (held (wk_pool w)) = n"
      using assms(2) unfolding working_def by blast+
    have upd: "wk_config (w\<lparr>wk_engine := e\<rparr>) = wk_config w" "wk_pool (w\<lparr>wk_engine := e\<rparr>) = wk_pool w"
      "wk_engine (w\<lparr>wk_engine := e\<rparr>) = e" "wk_failed (w\<lparr>wk_engine := e\<rparr>) = wk_failed w" by simp_all
    have "working env rep D config (map cp_id cs) n (w\<lparr>wk_engine := e\<rparr>)"
      unfolding working_def upd
      by (intro conjI exI [of _ entries] exI [of _ ?p]) (fact c d q acc)+
    then show ?thesis using e Inr by (simp add: engine_call_def assms(1))
  next
    case (Inl x)
    then have "rep e p" using poll_throws [OF p(1), of mn mx x e] e by simp
    then have "working env rep D config [] n (w\<lparr>wk_engine := e\<rparr>)"
      unfolding working_def
      by (intro conjI exI [of _ entries] exI [of _ p])
        (use assms(2) acc p(2) in \<open>simp_all add: working_def\<close>)
    then show ?thesis using e Inl by (auto simp: engine_call_def assms(1) stopped_def)
  qed
qed

end

section \<open>The loops keep the invariant\<close>

lemma safe_lift_outcome: "f w = Done w' \<Longrightarrow> Q () w' \<Longrightarrow> safe Q E (lift_outcome f w)"
  by (simp add: lift_outcome_def)

context prompt_engine
begin

lemma poll_prompt_safe:
  assumes env: "we_ops env = ops" and w: "working env rep D config [] 1 w"
  shows "safe (\<lambda>cs w'. working env rep D config (map cp_id cs) 1 w' \<and> cs \<noteq> []) (stopped env rep D config)
    (engine_call (eo_poll (we_ops env) 1 1) w)"
proof -
  obtain p where p: "rep (wk_engine w) p" "ucast ` held (wk_pool w) = dom p" "card (held (wk_pool w)) = 1"
    using w by (auto simp: working_def)
  then have "p \<noteq> Map.empty" by (metis card.empty dom_empty image_is_empty zero_neq_one)
  then have ne: "eo_poll ops 1 1 (wk_engine w) = Some (Inr cs, e) \<Longrightarrow> cs \<noteq> []" for cs e
    using poll_prompt [OF p(1), of 1] by simp
  from poll_safe [OF env w, of 1 1] show ?thesis
    by (rule safe_cases) (auto simp: engine_call_def env dest: ne split: option.splits prod.splits)
qed

lemma sync_iteration_safe:
  assumes env: "we_ops env = ops" and w: "working env rep D config [] 0 w" and D: "1 \<le> D"
  shows "safe (\<lambda>_. working env rep D config [] 0) (stopped env rep D config) (sync_iteration env w)"
  unfolding sync_iteration_def using safe_load_running [OF w]
proof (rule safe_bindW)
  fix running w1 assume w1: "working env rep D config [] 0 w1"
  show "safe (\<lambda>_. working env rep D config [] 0) (stopped env rep D config)
      ((if \<not> running then returnW False
       else bindW (submit_one env) (\<lambda>_.
            bindW (engine_call (eo_poll (we_ops env) 1 1)) (\<lambda>completions.
            bindW (read_clock env) (\<lambda>now.
            bindW (lift_outcome (record_each env now completions)) (\<lambda>_.
            returnW True))))) w1)"
  proof (cases running)
    case True
    have "safe (\<lambda>_. working env rep D config [] 1) (stopped env rep D config) (submit_one env w1)"
      using submit_one_safe [OF env w1] D by simp
    then have "safe (\<lambda>_. working env rep D config [] 0) (stopped env rep D config)
        (bindW (submit_one env) (\<lambda>_.
            bindW (engine_call (eo_poll (we_ops env) 1 1)) (\<lambda>completions.
            bindW (read_clock env) (\<lambda>now.
            bindW (lift_outcome (record_each env now completions)) (\<lambda>_.
            returnW True)))) w1)"
    proof (rule safe_bindW)
      fix u w2 assume "working env rep D config [] 1 w2"
      from poll_prompt_safe [OF env this]
      show "safe (\<lambda>_. working env rep D config [] 0) (stopped env rep D config)
          (bindW (engine_call (eo_poll (we_ops env) 1 1)) (\<lambda>completions.
            bindW (read_clock env) (\<lambda>now.
            bindW (lift_outcome (record_each env now completions)) (\<lambda>_.
            returnW True))) w2)"
      proof (rule safe_bindW)
        fix cs :: "io_completion list" and w3
        assume w3: "working env rep D config (map cp_id cs) 1 w3 \<and> cs \<noteq> []"
        show "safe (\<lambda>_. working env rep D config [] 0) (stopped env rep D config)
            (bindW (read_clock env) (\<lambda>now.
              bindW (lift_outcome (record_each env now cs)) (\<lambda>_. returnW True)) w3)"
          using safe_read_clock [OF conjunct1 [OF w3]]
        proof (rule safe_bindW)
          fix now w4 assume "working env rep D config (map cp_id cs) 1 w4"
          from record_each_working [OF this, of now] w3 obtain w5 where
            w5: "record_each env now cs w4 = Done w5" "working env rep D config [] 0 w5"
            by (cases cs) auto
          show "safe (\<lambda>_. working env rep D config [] 0) (stopped env rep D config)
              (bindW (lift_outcome (record_each env now cs)) (\<lambda>_. returnW True) w4)"
            using w5 by (simp add: bindW_def lift_outcome_def returnW_def)
        qed
      qed
    qed
    with True show ?thesis by simp
  qed (use w1 in simp)
qed

lemma run_sync_loop_safe:
  assumes "we_ops env = ops" "working env rep D config [] 0 w" "1 \<le> D"
  shows "safe (\<lambda>_. working env rep D config [] 0) (stopped env rep D config) (run_sync_loop env w)"
  unfolding run_sync_loop_def
proof (rule safe_loop_while [where I = "working env rep D config [] 0"])
  fix w assume "working env rep D config [] 0 w"
  then show "safe (\<lambda>again w'. if again then working env rep D config [] 0 w' else working env rep D config [] 0 w')
      (stopped env rep D config) (sync_iteration env w)"
    using sync_iteration_safe assms(1,3) by simp
qed (fact assms(2))

end

text \<open>The state of the asynchronous loop: the count is the number of slots given out.\<close>

definition counting ::
    "('g, 'd, 's, 'c) worker_env \<Rightarrow> ('s \<Rightarrow> (u64 \<Rightarrow> submit_info option) \<Rightarrow> bool) \<Rightarrow> nat \<Rightarrow> job_config \<Rightarrow>
     u64 list \<Rightarrow> nat \<Rightarrow> ('g, 'd, 's, 'c) worker \<times> int \<Rightarrow> bool" where
  "counting env rep D config rest k = (\<lambda>(w, n). working env rep D config rest k w \<and> n = int k)"

definition stopped_counting ::
    "('g, 'd, 's, 'c) worker_env \<Rightarrow> ('s \<Rightarrow> (u64 \<Rightarrow> submit_info option) \<Rightarrow> bool) \<Rightarrow> nat \<Rightarrow> job_config \<Rightarrow>
     ('g, 'd, 's, 'c) worker \<times> int \<Rightarrow> bool" where
  "stopped_counting env rep D config = (\<lambda>(w, n). stopped env rep D config w)"

lemma safe_counted_load:
  "counting env rep D config rest k x \<Longrightarrow>
    safe (\<lambda>_. counting env rep D config rest k) E (counted (load_running env) x)"
  by (cases x) (auto simp: counting_def intro!: safe_counted safe_load_running)

lemma safe_counted_clock:
  "counting env rep D config rest k x \<Longrightarrow>
    safe (\<lambda>_. counting env rep D config rest k) E (counted (read_clock env) x)"
  by (cases x) (auto simp: counting_def intro!: safe_counted safe_read_clock)

context io_engine
begin

lemma submit_counted_safe:
  assumes "we_ops env = ops" "counting env rep D config rest k x" "k < D"
  shows "safe (\<lambda>_. counting env rep D config rest (Suc k)) (stopped_counting env rep D config)
    (submit_counted env x)"
proof -
  obtain w n where x: "x = (w, n)" by fastforce
  have "safe (\<lambda>_. working env rep D config rest (Suc k)) (stopped env rep D config) (submit_one env w)"
    using submit_one_safe [OF assms(1), of D config rest k w] assms(2,3) by (simp add: counting_def x)
  then show ?thesis using assms(2)
    by (cases rule: safe_cases)
      (auto simp: submit_counted_def bindW_def counted_def add_in_flight_def counting_def
        stopped_counting_def x)
qed

lemma prefill_safe:
  assumes "we_ops env = ops"
  shows "counting env rep D config [] k x \<Longrightarrow> k + m \<le> D \<Longrightarrow>
    safe (\<lambda>_ x'. \<exists>k'. counting env rep D config [] k' x') (stopped_counting env rep D config)
      (prefill env m x)"
proof (induction m arbitrary: k x)
  case (Suc m)
  from safe_counted_load [OF Suc.prems(1)] show ?case unfolding prefill.simps
  proof (rule safe_bindW)
    fix running x1 assume x1: "counting env rep D config [] k x1"
    show "safe (\<lambda>_ x'. \<exists>k'. counting env rep D config [] k' x') (stopped_counting env rep D config)
        ((if running then bindW (submit_counted env) (\<lambda>_. prefill env m) else returnW ()) x1)"
    proof (cases running)
      case True
      from submit_counted_safe [OF assms x1] Suc.prems(2)
      have "safe (\<lambda>_. counting env rep D config [] (Suc k)) (stopped_counting env rep D config)
          (submit_counted env x1)" by simp
      then have "safe (\<lambda>_ x'. \<exists>k'. counting env rep D config [] k' x') (stopped_counting env rep D config)
          (bindW (submit_counted env) (\<lambda>_. prefill env m) x1)"
        by (rule safe_bindW) (use Suc.IH Suc.prems(2) in auto)
      with True show ?thesis by simp
    qed (use x1 in auto)
  qed
qed auto

lemma reap_and_refill_safe:
  assumes "we_ops env = ops"
  shows "counting env rep D config (map cp_id cs) k x \<Longrightarrow>
    safe (\<lambda>_ x'. \<exists>k'. counting env rep D config [] k' x') (stopped_counting env rep D config)
      (reap_and_refill env now cs x)"
proof (induction cs arbitrary: k x)
  case (Cons c cs)
  let ?rest = "map cp_id cs" and ?E = "stopped_counting env rep D config"
  let ?Q = "\<lambda>_ x'. \<exists>k'. counting env rep D config [] k' x'"
  obtain w n where x: "x = (w, n)" "working env rep D config (cp_id c # ?rest) k w" "n = int k"
    using Cons.prems by (auto simp: counting_def)
  obtain w1 where w1: "record_completion env c now w = Done w1" "1 \<le> k"
    "working env rep D config ?rest (k - 1) w1"
    using record_completion_working [OF x(2)] by blast
  have kD: "k \<le> D" by (rule working_le [OF x(2)])
  have c1: "counting env rep D config ?rest (k - 1) (w1, n + - 1)" using w1 x(3) by (simp add: counting_def)
  have next_safe: "safe ?Q ?E (reap_and_refill env now cs x3)"
    if "counting env rep D config ?rest k3 x3" for k3 x3 using Cons.IH that by simp
  have "safe ?Q ?E (bindW (counted (load_running env)) (\<lambda>running.
     bindW (if running then submit_counted env else returnW ()) (\<lambda>_. reap_and_refill env now cs)) (w1, n + - 1))"
    using safe_counted_load [OF c1]
  proof (rule safe_bindW)
    fix running x2 assume x2: "counting env rep D config ?rest (k - 1) x2"
    have "safe (\<lambda>_ x3. \<exists>k3. counting env rep D config ?rest k3 x3) ?E
        ((if running then submit_counted env else returnW ()) x2)"
    proof (cases running)
      case True
      from submit_counted_safe [OF assms x2] w1(2) kD
      have "safe (\<lambda>_. counting env rep D config ?rest (Suc (k - 1))) ?E (submit_counted env x2)" by simp
      then have "safe (\<lambda>_ x3. \<exists>k3. counting env rep D config ?rest k3 x3) ?E (submit_counted env x2)"
        by (rule safe_mono) blast
      with True show ?thesis by simp
    qed (use x2 in auto)
    then show "safe ?Q ?E (bindW (if running then submit_counted env else returnW ())
        (\<lambda>_. reap_and_refill env now cs) x2)"
      by (rule safe_bindW) (use next_safe in blast)
  qed
  moreover have "counted (lift_outcome (record_completion env c now)) (w, n) = Some (Done (Inr (), (w1, n)))"
    by (simp add: counted_def lift_outcome_def w1(1))
  moreover have "add_in_flight (- 1) (w1, n) = Some (Done (Inr (), (w1, n + - 1)))"
    by (simp add: add_in_flight_def)
  ultimately show ?case unfolding reap_and_refill.simps x(1) by (simp only: bindW_done)
qed auto

lemma async_iteration_safe:
  assumes "we_ops env = ops" "counting env rep D config [] k x"
  shows "safe (\<lambda>again x'. if again then \<exists>k'. counting env rep D config [] k' x'
        else counting env rep D config [] 0 x')
      (stopped_counting env rep D config) (async_iteration env depth x)"
    (is "safe ?Q ?E _")
  unfolding async_iteration_def using safe_counted_load [OF assms(2)]
proof (rule safe_bindW)
  fix running x1 assume x1: "counting env rep D config [] k x1"
  obtain w n where x: "x1 = (w, n)" "working env rep D config [] k w" "n = int k"
    using x1 by (auto simp: counting_def)
  let ?m = "bindW (counted (engine_call (eo_poll (we_ops env) 1 depth))) (\<lambda>completions.
            bindW (counted (read_clock env)) (\<lambda>now.
            bindW (reap_and_refill env now completions) (\<lambda>_. returnW True)))"
  have "safe ?Q ?E (?m (w, n))"
  proof (rule safe_bindW)
    show "safe (\<lambda>cs. counting env rep D config (map cp_id cs) k) ?E
        (counted (engine_call (eo_poll (we_ops env) 1 depth)) (w, n))"
      using poll_safe [OF assms(1) x(2), of 1 depth] x(3)
      by (intro safe_counted) (simp add: counting_def stopped_counting_def)
    fix cs :: "io_completion list" and x2
    assume "counting env rep D config (map cp_id cs) k x2"
    from safe_counted_clock [OF this]
    show "safe ?Q ?E (bindW (counted (read_clock env)) (\<lambda>now.
            bindW (reap_and_refill env now cs) (\<lambda>_. returnW True)) x2)"
    proof (rule safe_bindW)
      fix now x3 assume "counting env rep D config (map cp_id cs) k x3"
      from reap_and_refill_safe [OF assms(1) this]
      show "safe ?Q ?E (bindW (reap_and_refill env now cs) (\<lambda>_. returnW True) x3)"
        by (rule safe_bindW) auto
    qed
  qed
  moreover have "safe ?Q ?E (returnW False (w, n))" if "\<not> n > 0"
    using that x x1 by (simp add: counting_def)
  ultimately show "safe ?Q ?E ((case x1 of (w, n) \<Rightarrow>
       if running \<or> n > 0 then ?m (w, n) else returnW False (w, n)))"
    using x(1) by auto
qed

lemma run_async_loop_safe:
  assumes "we_ops env = ops" "working env rep D config [] 0 w"
    and "D = nat (effective_iodepth config)"
  shows "safe (\<lambda>_. working env rep D config [] 0) (stopped env rep D config) (run_async_loop env w)"
proof -
  let ?depth = "effective_iodepth config"
  have cfg: "wk_config w = config" using assms(2) by (simp add: working_def)
  have "counting env rep D config [] 0 (w, 0)" using assms(2) by (simp add: counting_def)
  from prefill_safe [OF assms(1) this, of D]
  have "safe (\<lambda>_ x'. \<exists>k'. counting env rep D config [] k' x') (stopped_counting env rep D config)
      (prefill env D (w, 0))" by simp
  then have "safe (\<lambda>_. counting env rep D config [] 0) (stopped_counting env rep D config)
      (bindW (prefill env D) (\<lambda>_. loop_while (async_iteration env ?depth)) (w, 0))"
  proof (rule safe_bindW)
    fix u x' assume "\<exists>k'. counting env rep D config [] k' x'"
    then show "safe (\<lambda>_. counting env rep D config [] 0) (stopped_counting env rep D config)
        (loop_while (async_iteration env ?depth) x')"
      by (rule safe_loop_while [where I = "\<lambda>x. \<exists>k'. counting env rep D config [] k' x"])
        (use async_iteration_safe [OF assms(1)] in blast)
  qed
  then show ?thesis
    by (cases rule: safe_cases)
      (auto simp: run_async_loop_def cfg assms(3) Let_def counting_def stopped_counting_def)
qed

end

section \<open>From the constructor to the end of the thread\<close>

lemma unat_depth: "1 \<le> d \<Longrightarrow> d < 2 ^ 31 \<Longrightarrow> unat (word_of_int d :: u64) = nat d"
  by (simp add: unsigned_of_int take_bit_int_eq_self)

lemma created_working:
  assumes "worker_create env alloc bytes so sd c config s = Some (Inr w, s1)"
    and "rep s1 Map.empty" "1 \<le> effective_iodepth config" "effective_iodepth config < 2 ^ 31"
  shows "working env rep (nat (effective_iodepth config)) config [] 0 w \<and> wk_engine w = s1 \<and>
    \<not> wk_failed w"
proof -
  obtain pool s0 where p: "buffer_pool_create alloc bytes (jc_alignment config) (jc_block_size config)
      (word_of_int (effective_iodepth config)) = Inr pool"
    "w = \<lparr>wk_config = config, wk_pool = pool, wk_engine = s1, wk_histogram = hist_empty 64,
       wk_iops_count = 0, wk_bytes_transferred = 0, wk_read_error_count = 0, wk_write_error_count = 0,
       wk_offset_gen = offset_generator_create (jc_access_pattern config) (jc_file_size config)
         (jc_block_size config) (jc_alignment config) so,
       wk_direction_decider = direction_decider_create (jc_rw_mode config) (jc_rwmixread config) sd,
       wk_failed = False, wk_error_message = [],
       wk_direct_effective = eo_direct (we_ops env) s1, wk_env = c\<rparr>"
    using assms(1)
    by (auto simp: worker_create_def Let_def split: sum.splits option.splits prod.splits)
  have cap: "bp_capacity pool = word_of_int (effective_iodepth config)"
    using p(1) by (auto simp: buffer_pool_create_ok)
  have "accounted w []" by (simp add: accounted_def p(2))
  then show ?thesis
    using buffer_pool_create_inv [OF p(1), of "we_ndebug env"] assms(2) unat_depth [OF assms(3,4)]
    unfolding working_def by (auto simp: p(2) cap)
qed

text \<open>The result of a run: what the loops guarantee, with \<open>RecordFailure\<close> after an exception.\<close>

definition run_result ::
    "('g, 'd, 's, 'c) worker_env \<Rightarrow> ('s \<Rightarrow> (u64 \<Rightarrow> submit_info option) \<Rightarrow> bool) \<Rightarrow> job_config \<Rightarrow>
     ('g, 'd, 's, 'c) worker outcome option \<Rightarrow> bool" where
  "run_result env rep config r = (case r of
      None \<Rightarrow> True
    | Some (Done w) \<Rightarrow> wk_config w = config \<and> (\<exists>entries. accounted w entries) \<and>
        (if wk_failed w then \<exists>c. wk_env w = we_stop env c
         else held (wk_pool w) = {} \<and> rep (wk_engine w) Map.empty \<and> worker_error_message w = [])
    | Some (AssertFail x) \<Rightarrow> False
    | Some Undefined \<Rightarrow> False)"

lemma worker_run_result:
  assumes "safe (\<lambda>_. working env rep D config [] 0) (stopped env rep D config)
      (if effective_iodepth (wk_config w) = 1 then run_sync_loop env w else run_async_loop env w)"
  shows "run_result env rep config (worker_run env w)"
  using assms
proof (cases rule: safe_cases)
  case (2 a w')
  then obtain p where p: "rep (wk_engine w') p" "card (held (wk_pool w')) = 0"
      "ucast ` held (wk_pool w') = dom p \<union> set []"
    unfolding working_def by blast
  then have "held (wk_pool w') = {}" by simp
  moreover from this p(3) have "dom p = {}" by simp
  then have "p = Map.empty" by simp
  ultimately have "rep (wk_engine w') Map.empty" "held (wk_pool w') = {}" using p(1) by simp_all
  then show ?thesis
    using 2 by (auto simp: worker_run_def run_result_def worker_error_message_def working_def)
next
  case (3 e w')
  then obtain entries where "accounted w' entries" "wk_config w' = config"
    by (auto simp: stopped_def working_def)
  then have "accounted (record_failure env m w') entries" "wk_config (record_failure env m w') = config"
    "wk_failed (record_failure env m w')" "wk_env (record_failure env m w') = we_stop env (wk_env w')" for m
    by (simp_all add: record_failure_def accounted_def)
  then show ?thesis using 3 by (cases e) (auto simp: worker_run_def run_result_def)
qed (simp add: worker_run_def run_result_def)

lemma created_run_safe:
  assumes "worker_create env alloc bytes so sd c config s = Some (Inr w, s1)"
    and "io_engine (we_ops env) rep" "effective_iodepth config = 1 \<Longrightarrow> prompt_engine (we_ops env) rep"
    and "rep s1 Map.empty" "1 \<le> effective_iodepth config" "effective_iodepth config < 2 ^ 31"
  shows "run_result env rep config (worker_run env w)"
proof -
  let ?D = "nat (effective_iodepth config)"
  have w: "working env rep ?D config [] 0 w" using created_working [OF assms(1), of rep] assms(4-6) by blast
  then have cfg: "wk_config w = config" by (simp add: working_def)
  show ?thesis
  proof (cases "effective_iodepth config = 1")
    case True
    from prompt_engine.run_sync_loop_safe [OF assms(3) [OF True] refl w] True
    show ?thesis by (intro worker_run_result [where D = ?D]) (simp add: cfg)
  next
    case False
    from io_engine.run_async_loop_safe [OF assms(2) refl w refl] False
    show ?thesis by (intro worker_run_result [where D = ?D]) (simp add: cfg)
  qed
qed

section \<open>Properties\<close>


text \<open>A run of the whole: two reads of 512 bytes on the blocking engine, then the flag is cleared.\<close>

definition demo_config :: job_config where
  "demo_config = default_job\<lparr>jc_name := ''j'', jc_engine := ''psync'', jc_block_size := 512,
     jc_file_size := 1024, jc_alignment := 512, jc_filename := ''f''\<rparr>"

definition demo_env :: "(unit, unit, nat blocking_state, nat) worker_env" where
  "demo_env = \<lparr>we_ops = psync_engine (quiet_os 512), we_uniform = (\<lambda>lo hi g. (lo, g)),
     we_bernoulli = (\<lambda>p g. (True, g)), we_ndebug = False, we_now = (\<lambda>c. (int c, c + 1)),
     we_running = (\<lambda>c. (c < 5, c + 1)), we_stop = (\<lambda>c. 99)\<rparr>"


lemma created_opened:
  "worker_create env alloc bytes so sd c config s = Some (Inr w, s1) \<Longrightarrow>
    eo_open (we_ops env) config s = Some (Inr (), s1)"
  by (auto simp: worker_create_def Let_def split: sum.splits option.splits prod.splits)

lemma uring_opened:
  "eo_open (io_uring_engine os ring) config (new_io_uring_engine, v) = Some (Inr (), s1) \<Longrightarrow>
    uring_rep s1 Map.empty"
  by (auto simp: io_uring_engine_def uring_open_def new_io_uring_engine_def uring_rep_def
      split: sum.splits prod.splits if_splits)

lemma libaio_opened:
  "eo_open (libaio_engine os aio) config (new_libaio_engine, v) = Some (Inr (), s1) \<Longrightarrow>
    libaio_rep s1 Map.empty"
  by (auto simp: libaio_engine_def libaio_open_def new_libaio_engine_def libaio_rep_def Let_def
      split: sum.splits prod.splits if_splits)



end
