(* ===== verification/Metrics_Aggregator.thy ===== *)
theory Metrics_Aggregator
  imports Worker_Thread
begin

text \<open>
  \<open>MetricsAggregator\<close> (\<open>src/telemetry/metrics_aggregator.cpp\<close>) with the records of
  \<open>src/telemetry/metrics_snapshot.h\<close> and \<open>src/telemetry/benchmark_results.h\<close>. The sampling thread reads
  the counters of the workers while they run: a sample is the clock and, per worker, the values
  the loads returned. The calendar of the C library that formats the start time is a parameter.
\<close>

section \<open>Records\<close>

record per_job_metrics =
  pm_job_name :: string
  pm_iops_instant :: u64
  pm_iops_cumulative :: u64
  pm_bw_instant :: u64
  pm_bw_cumulative :: u64
  pm_lat_p50_ns :: u64
  pm_lat_p95_ns :: u64
  pm_lat_p99_ns :: u64
  pm_read_errors :: u64
  pm_write_errors :: u64

definition empty_metrics :: per_job_metrics where
  "empty_metrics = \<lparr>pm_job_name = [], pm_iops_instant = 0, pm_iops_cumulative = 0, pm_bw_instant = 0,
     pm_bw_cumulative = 0, pm_lat_p50_ns = 0, pm_lat_p95_ns = 0, pm_lat_p99_ns = 0,
     pm_read_errors = 0, pm_write_errors = 0\<rparr>"

record metrics_snapshot =
  ms_timestamp :: time_point
  ms_elapsed_seconds :: rat
  ms_jobs :: "per_job_metrics list"
  ms_aggregate :: per_job_metrics

definition empty_snapshot :: metrics_snapshot where
  "empty_snapshot = \<lparr>ms_timestamp = 0, ms_elapsed_seconds = 0, ms_jobs = [], ms_aggregate = empty_metrics\<rparr>"

text \<open>What the aggregator reads of a worker.\<close>

record worker_view =
  vw_config :: job_config
  vw_iops :: u64
  vw_bytes :: u64
  vw_histogram :: histogram
  vw_read_errors :: u64
  vw_write_errors :: u64
  vw_direct_effective :: bool
  vw_failed :: bool
  vw_error_message :: string

definition view_of :: "('g, 'd, 's, 'c) worker \<Rightarrow> worker_view" where
  "view_of w = \<lparr>vw_config = wk_config w, vw_iops = wk_iops_count w, vw_bytes = wk_bytes_transferred w,
     vw_histogram = wk_histogram w, vw_read_errors = wk_read_error_count w,
     vw_write_errors = wk_write_error_count w, vw_direct_effective = wk_direct_effective w,
     vw_failed = wk_failed w, vw_error_message = worker_error_message w\<rparr>"

record job_results =
  jr_name :: string
  jr_config :: job_config
  jr_iops_avg :: u64
  jr_bw_avg_bytes :: u64
  jr_lat_min_ns :: u64
  jr_lat_max_ns :: u64
  jr_lat_p50_ns :: u64
  jr_lat_p95_ns :: u64
  jr_lat_p99_ns :: u64
  jr_total_ios :: u64
  jr_total_bytes :: u64
  jr_read_errors :: u64
  jr_write_errors :: u64
  jr_direct_effective :: bool
  jr_failed :: bool
  jr_error_message :: string

record benchmark_results =
  br_cfio_version :: string
  br_timestamp :: string
  br_runtime_seconds :: int
  br_elapsed_seconds :: rat
  br_interrupted :: bool
  br_global_config :: cli_options
  br_jobs :: "job_results list"
  br_time_series :: "metrics_snapshot list"

record aggregator =
  ag_ts_capacity :: nat
  ag_time_series :: "metrics_snapshot list"
  ag_ts_write_index :: nat
  ag_ts_count :: nat
  ag_prev_iops :: "u64 list"
  ag_prev_bytes :: "u64 list"
  ag_start_time :: time_point
  ag_prev_sample_time :: time_point
  ag_end_time :: time_point
  ag_wall_start_time :: int
  ag_runtime_seconds :: int
  ag_latest_snapshot :: metrics_snapshot
  ag_stopped :: bool

section \<open>Rates\<close>

definition kMinElapsed :: rat where "kMinElapsed = fl (1 / 1000000000)"

definition kMinFinalRecordSeconds :: rat where
  "kMinFinalRecordSeconds = fl (fl (fl (of_int (500 * 2)) / 1000) / 2)"

definition kTicksPerRecord :: nat where "kTicksPerRecord = 2"

definition kP50 :: rat where "kP50 = fl (50 / 100)"
definition kP95 :: rat where "kP95 = fl (95 / 100)"
definition kP99 :: rat where "kP99 = fl (99 / 100)"

text \<open>The conversion of a count of nanoseconds to \<open>duration<double>\<close>, then \<open>std::max\<close>.\<close>

definition elapsed_seconds :: "time_point \<Rightarrow> time_point \<Rightarrow> rat" where
  "elapsed_seconds begin_time end_time =
     (let span = fl (fl (of_int (end_time - begin_time)) / 1000000000)
      in if span < kMinElapsed then kMinElapsed else span)"

definition round_rate :: "rat \<Rightarrow> u64" where
  "round_rate x = (if x \<le> 0 then 0 else word_of_int (llround x))"

definition rate_of :: "u64 \<Rightarrow> rat \<Rightarrow> u64" where
  "rate_of n seconds = round_rate (fl (of_u64 n / seconds))"

section \<open>Sampling\<close>

definition aggregator_create :: "nat \<Rightarrow> int \<Rightarrow> aggregator" where
  "aggregator_create workers runtime_seconds =
     \<lparr>ag_ts_capacity = nat (max 1 runtime_seconds),
      ag_time_series = replicate (nat (max 1 runtime_seconds)) empty_snapshot,
      ag_ts_write_index = 0, ag_ts_count = 0,
      ag_prev_iops = replicate workers 0, ag_prev_bytes = replicate workers 0,
      ag_start_time = 0, ag_prev_sample_time = 0, ag_end_time = 0, ag_wall_start_time = 0,
      ag_runtime_seconds = runtime_seconds, ag_latest_snapshot = empty_snapshot, ag_stopped = False\<rparr>"

definition aggregator_start :: "time_point \<Rightarrow> int \<Rightarrow> aggregator \<Rightarrow> aggregator" where
  "aggregator_start now wall a =
     a\<lparr>ag_start_time := now, ag_prev_sample_time := now, ag_wall_start_time := wall\<rparr>"

definition aggregator_stop :: "time_point \<Rightarrow> aggregator \<Rightarrow> aggregator" where
  "aggregator_stop now a =
     (if ag_stopped a then a else a\<lparr>ag_end_time := now, ag_stopped := True\<rparr>)"

definition job_metrics :: "rat \<Rightarrow> rat \<Rightarrow> u64 \<Rightarrow> u64 \<Rightarrow> worker_view \<Rightarrow> per_job_metrics" where
  "job_metrics since_start since_prev prev_iops prev_bytes v =
     \<lparr>pm_job_name = jc_name (vw_config v),
      pm_iops_instant = rate_of (vw_iops v - prev_iops) since_prev,
      pm_iops_cumulative = rate_of (vw_iops v) since_start,
      pm_bw_instant = rate_of (vw_bytes v - prev_bytes) since_prev,
      pm_bw_cumulative = rate_of (vw_bytes v) since_start,
      pm_lat_p50_ns = percentile (vw_histogram v) kP50,
      pm_lat_p95_ns = percentile (vw_histogram v) kP95,
      pm_lat_p99_ns = percentile (vw_histogram v) kP99,
      pm_read_errors = vw_read_errors v,
      pm_write_errors = vw_write_errors v\<rparr>"

definition add_metrics :: "per_job_metrics \<Rightarrow> per_job_metrics \<Rightarrow> per_job_metrics" where
  "add_metrics agg m =
     agg\<lparr>pm_iops_instant := pm_iops_instant agg + pm_iops_instant m,
         pm_iops_cumulative := pm_iops_cumulative agg + pm_iops_cumulative m,
         pm_bw_instant := pm_bw_instant agg + pm_bw_instant m,
         pm_bw_cumulative := pm_bw_cumulative agg + pm_bw_cumulative m,
         pm_read_errors := pm_read_errors agg + pm_read_errors m,
         pm_write_errors := pm_write_errors agg + pm_write_errors m\<rparr>"

text \<open>One round of the loop over the workers, on the accumulated jobs, aggregate and histogram.\<close>

fun sample_workers ::
    "rat \<Rightarrow> rat \<Rightarrow> u64 list \<Rightarrow> u64 list \<Rightarrow> worker_view list \<Rightarrow>
     per_job_metrics list \<times> per_job_metrics \<times> histogram \<Rightarrow>
     per_job_metrics list \<times> per_job_metrics \<times> histogram" where
  "sample_workers since_start since_prev (qi # qis) (qb # qbs) (v # vs) (jobs, agg, global) =
     (let m = job_metrics since_start since_prev qi qb v
      in sample_workers since_start since_prev qis qbs vs
           (jobs @ [m], add_metrics agg m, hist_merge global (vw_histogram v)))"
| "sample_workers since_start since_prev qis qbs vs acc = acc"

definition take_snapshot ::
    "bool \<Rightarrow> time_point \<Rightarrow> worker_view list \<Rightarrow> aggregator \<Rightarrow> metrics_snapshot \<times> aggregator" where
  "take_snapshot record_ts now views a =
     (let since_start = elapsed_seconds (ag_start_time a) now;
          since_prev = elapsed_seconds (ag_prev_sample_time a) now;
          (jobs, agg, global) = sample_workers since_start since_prev (ag_prev_iops a) (ag_prev_bytes a)
             views ([], empty_metrics\<lparr>pm_job_name := ''TOTAL''\<rparr>, hist_empty 64);
          agg' = agg\<lparr>pm_lat_p50_ns := percentile global kP50, pm_lat_p95_ns := percentile global kP95,
                     pm_lat_p99_ns := percentile global kP99\<rparr>;
          a' = (if record_ts
                then a\<lparr>ag_prev_iops := map vw_iops views, ag_prev_bytes := map vw_bytes views,
                       ag_prev_sample_time := now\<rparr>
                else a)
      in (\<lparr>ms_timestamp = now, ms_elapsed_seconds = since_start, ms_jobs = jobs, ms_aggregate = agg'\<rparr>, a'))"

definition record_time_series :: "metrics_snapshot \<Rightarrow> aggregator \<Rightarrow> aggregator" where
  "record_time_series snapshot a =
     a\<lparr>ag_time_series := (ag_time_series a)[ag_ts_write_index a := snapshot],
       ag_ts_write_index := (ag_ts_write_index a + 1) mod ag_ts_capacity a,
       ag_ts_count := ag_ts_count a + 1\<rparr>"

text \<open>
  \<open>Run\<close>: the loop ends when the flag is cleared or a stop is requested; its rounds are the samples it
  took before that.
\<close>

fun aggregator_run :: "nat \<Rightarrow> (time_point \<times> worker_view list) list \<Rightarrow> aggregator \<Rightarrow> aggregator" where
  "aggregator_run tick [] a = a"
| "aggregator_run tick ((now, views) # samples) a =
     (let tick' = tick + 1;
          record_ts = (tick' mod kTicksPerRecord = 0);
          (snapshot, a1) = take_snapshot record_ts now views a;
          a2 = a1\<lparr>ag_latest_snapshot := snapshot\<rparr>;
          a3 = (if record_ts then record_time_series snapshot a2 else a2)
      in aggregator_run tick' samples a3)"

text \<open>\<open>stop_now\<close>, \<open>tail_now\<close> and \<open>now\<close> are the three readings of the clock, in this order.\<close>

definition take_final_snapshot ::
    "time_point \<Rightarrow> time_point \<Rightarrow> time_point \<Rightarrow> worker_view list \<Rightarrow> aggregator \<Rightarrow> aggregator" where
  "take_final_snapshot stop_now tail_now now views a =
     (let a0 = aggregator_stop stop_now a;
          tail = elapsed_seconds (ag_prev_sample_time a0) tail_now;
          record_ts = (kMinFinalRecordSeconds \<le> tail);
          (snapshot, a1) = take_snapshot record_ts now views a0;
          a2 = (if record_ts then record_time_series snapshot a1 else a1)
      in a2\<lparr>ag_latest_snapshot := snapshot\<rparr>)"

definition time_series :: "aggregator \<Rightarrow> metrics_snapshot list" where
  "time_series a =
     (if ag_ts_count a = 0 then []
      else if ag_ts_count a \<le> ag_ts_capacity a
      then map (\<lambda>i. ag_time_series a ! i) [0..<ag_ts_count a]
      else map (\<lambda>k. ag_time_series a ! ((ag_ts_write_index a + k) mod ag_ts_capacity a))
             [0..<ag_ts_capacity a])"

definition job_result :: "rat \<Rightarrow> worker_view \<Rightarrow> job_results" where
  "job_result elapsed v =
     \<lparr>jr_name = jc_name (vw_config v), jr_config = vw_config v,
      jr_iops_avg = rate_of (vw_iops v) elapsed, jr_bw_avg_bytes = rate_of (vw_bytes v) elapsed,
      jr_lat_min_ns = min_value (vw_histogram v), jr_lat_max_ns = max_value (vw_histogram v),
      jr_lat_p50_ns = percentile (vw_histogram v) kP50, jr_lat_p95_ns = percentile (vw_histogram v) kP95,
      jr_lat_p99_ns = percentile (vw_histogram v) kP99,
      jr_total_ios = vw_iops v, jr_total_bytes = vw_bytes v,
      jr_read_errors = vw_read_errors v, jr_write_errors = vw_write_errors v,
      jr_direct_effective = vw_direct_effective v, jr_failed = vw_failed v,
      jr_error_message = vw_error_message v\<rparr>"

definition build_results ::
    "(int \<Rightarrow> string) \<Rightarrow> cli_options \<Rightarrow> time_point \<Rightarrow> worker_view list \<Rightarrow> aggregator \<Rightarrow> benchmark_results" where
  "build_results format_utc opts now views a =
     (let end_time = (if ag_end_time a > ag_start_time a then ag_end_time a else now);
          elapsed = elapsed_seconds (ag_start_time a) end_time
      in \<lparr>br_cfio_version = ''0.1.0'', br_timestamp = format_utc (ag_wall_start_time a),
          br_runtime_seconds = ag_runtime_seconds a, br_elapsed_seconds = elapsed,
          br_interrupted = False, br_global_config = opts,
          br_jobs = map (job_result elapsed) views, br_time_series = time_series a\<rparr>)"

section \<open>The ring of the time series\<close>

definition last_n :: "nat \<Rightarrow> 'a list \<Rightarrow> 'a list" where
  "last_n n xs = drop (length xs - n) xs"

text \<open>\<open>ring_holds a xs\<close>: \<open>xs\<close> are all the rows recorded, and the ring holds the newest of them.\<close>

definition ring_holds :: "aggregator \<Rightarrow> metrics_snapshot list \<Rightarrow> bool" where
  "ring_holds a xs \<longleftrightarrow>
     0 < ag_ts_capacity a \<and> length (ag_time_series a) = ag_ts_capacity a \<and>
     ag_ts_count a = length xs \<and> ag_ts_write_index a = length xs mod ag_ts_capacity a \<and>
     (\<forall>i < length xs. length xs \<le> i + ag_ts_capacity a \<longrightarrow>
        ag_time_series a ! (i mod ag_ts_capacity a) = xs ! i)"

lemma ring_holds_create: "ring_holds (aggregator_create n r) []"
  by (simp add: ring_holds_def aggregator_create_def)

lemma mod_window_inj:
  assumes "i < n" "n < i + c" "0 < (c :: nat)"
  shows "i mod c \<noteq> n mod c"
proof
  assume "i mod c = n mod c"
  then have "c dvd n - i" using assms(1) by (metis mod_eq_dvd_iff_nat less_imp_le)
  then show False using assms nat_dvd_not_less [of "n - i" c] by simp
qed

lemma ring_holds_record:
  assumes "ring_holds a xs"
  shows "ring_holds (record_time_series x a) (xs @ [x])"
proof -
  let ?c = "ag_ts_capacity a" and ?n = "length xs"
  have a: "0 < ?c" "length (ag_time_series a) = ?c" "ag_ts_count a = ?n" "ag_ts_write_index a = ?n mod ?c"
    "\<And>i. i < ?n \<Longrightarrow> ?n \<le> i + ?c \<Longrightarrow> ag_time_series a ! (i mod ?c) = xs ! i"
    using assms by (auto simp: ring_holds_def)
  have "(ag_time_series a)[?n mod ?c := x] ! (i mod ?c) = (xs @ [x]) ! i"
    if "i < Suc ?n" "Suc ?n \<le> i + ?c" for i
  proof (cases "i = ?n")
    case True
    then show ?thesis using a(1,2) by simp
  next
    case False
    then have "i < ?n" using that by simp
    moreover from this have "i mod ?c \<noteq> ?n mod ?c" using that a(1) by (intro mod_window_inj) simp_all
    ultimately show ?thesis using a(5) [of i] that by (simp add: nth_append)
  qed
  then show ?thesis
    using a by (simp add: ring_holds_def record_time_series_def mod_Suc_eq)
qed

lemma time_series_ring:
  assumes "ring_holds a xs"
  shows "time_series a = last_n (ag_ts_capacity a) xs"
proof -
  let ?c = "ag_ts_capacity a" and ?n = "length xs"
  have a: "0 < ?c" "length (ag_time_series a) = ?c" "ag_ts_count a = ?n" "ag_ts_write_index a = ?n mod ?c"
    "\<And>i. i < ?n \<Longrightarrow> ?n \<le> i + ?c \<Longrightarrow> ag_time_series a ! (i mod ?c) = xs ! i"
    using assms by (auto simp: ring_holds_def)
  show ?thesis
  proof (cases "?n \<le> ?c")
    case True
    have "ag_time_series a ! i = xs ! i" if "i < ?n" for i
      using a(5) [of i] that True by simp
    then have "map (\<lambda>i. ag_time_series a ! i) [0..<?n] = xs" by (intro nth_equalityI) simp_all
    then show ?thesis using True a(3) by (auto simp: time_series_def last_n_def)
  next
    case False
    have "ag_time_series a ! ((?n mod ?c + k) mod ?c) = xs ! (?n - ?c + k)" if "k < ?c" for k
    proof -
      have "(?n mod ?c + k) mod ?c = (?n - ?c + k + ?c) mod ?c" using False by (simp add: mod_simps)
      also have "\<dots> = (?n - ?c + k) mod ?c" by simp
      finally show ?thesis using a(5) [of "?n - ?c + k"] that False by simp
    qed
    then have "map (\<lambda>k. ag_time_series a ! ((?n mod ?c + k) mod ?c)) [0..<?c] = drop (?n - ?c) xs"
      using False by (intro nth_equalityI) simp_all
    then show ?thesis using False a by (simp add: time_series_def last_n_def)
  qed
qed

section \<open>The rounds of the sampling thread\<close>

lemma take_snapshot_frame:
  "take_snapshot r now views a = (snap, a') \<Longrightarrow>
    ms_timestamp snap = now \<and> ag_ts_capacity a' = ag_ts_capacity a \<and>
    ag_time_series a' = ag_time_series a \<and> ag_ts_write_index a' = ag_ts_write_index a \<and>
    ag_ts_count a' = ag_ts_count a \<and> ag_start_time a' = ag_start_time a"
  by (auto simp: take_snapshot_def Let_def split: prod.splits if_splits)

lemma ring_holds_cong:
  "ag_ts_capacity a' = ag_ts_capacity a \<Longrightarrow> ag_time_series a' = ag_time_series a \<Longrightarrow>
    ag_ts_write_index a' = ag_ts_write_index a \<Longrightarrow> ag_ts_count a' = ag_ts_count a \<Longrightarrow>
    ring_holds a' xs = ring_holds a xs"
  by (simp add: ring_holds_def)

lemma capacity_record [simp]: "ag_ts_capacity (record_time_series x a) = ag_ts_capacity a"
  by (simp add: record_time_series_def)

text \<open>The rounds that record are those with an even count.\<close>

definition recorded :: "nat \<Rightarrow> 'a list \<Rightarrow> 'a list" where
  "recorded tick samples = nths samples {i. even (tick + Suc i)}"

lemma recorded_Cons:
  "recorded tick (x # xs) = (if even (Suc tick) then x # recorded (Suc tick) xs else recorded (Suc tick) xs)"
  by (simp add: recorded_def nths_Cons)

lemma aggregator_run_rows:
  "ring_holds a xs \<Longrightarrow>
    \<exists>ys. ring_holds (aggregator_run tick samples a) (xs @ ys) \<and>
      map ms_timestamp ys = map fst (recorded tick samples) \<and>
      ag_ts_capacity (aggregator_run tick samples a) = ag_ts_capacity a"
proof (induction tick samples a arbitrary: xs rule: aggregator_run.induct)
  case (1 tick a)
  then show ?case by (intro exI [of _ "[]"]) (simp add: recorded_def)
next
  case (2 tick now views samples a)
  define r where "r \<longleftrightarrow> even (Suc tick)"
  obtain snap a1 where snap: "take_snapshot r now views a = (snap, a1)" by fastforce
  note frame = take_snapshot_frame [OF snap]
  define a3 where "a3 = (if r then record_time_series snap (a1\<lparr>ag_latest_snapshot := snap\<rparr>)
      else a1\<lparr>ag_latest_snapshot := snap\<rparr>)"
  have run: "aggregator_run tick ((now, views) # samples) a = aggregator_run (Suc tick) samples a3"
    using snap by (simp add: Let_def kTicksPerRecord_def r_def a3_def even_iff_mod_2_eq_zero)
  have cap: "ag_ts_capacity a3 = ag_ts_capacity a" using frame by (simp add: a3_def)
  have "ring_holds (a1\<lparr>ag_latest_snapshot := snap\<rparr>) xs"
    using "2.prems" frame by (subst ring_holds_cong [of _ a]) simp_all
  then have a3: "ring_holds a3 (if r then xs @ [snap] else xs)"
    by (simp add: a3_def ring_holds_record)
  have ih: "\<exists>ys. ring_holds (aggregator_run (Suc tick) samples a3) (zs @ ys) \<and>
      map ms_timestamp ys = map fst (recorded (Suc tick) samples) \<and>
      ag_ts_capacity (aggregator_run (Suc tick) samples a3) = ag_ts_capacity a3"
    if "ring_holds a3 zs" for zs
    using "2.IH" [of "Suc tick" r "(snap, a1)" snap a1 "a1\<lparr>ag_latest_snapshot := snap\<rparr>" a3 zs] that snap
    by (simp add: kTicksPerRecord_def r_def a3_def even_iff_mod_2_eq_zero)
  show ?case
  proof (cases r)
    case True
    then obtain ys where "ring_holds (aggregator_run (Suc tick) samples a3) ((xs @ [snap]) @ ys)"
      "map ms_timestamp ys = map fst (recorded (Suc tick) samples)"
      "ag_ts_capacity (aggregator_run (Suc tick) samples a3) = ag_ts_capacity a3"
      using ih [of "xs @ [snap]"] a3 by auto
    then show ?thesis unfolding run using True frame cap
      by (intro exI [of _ "snap # ys"]) (simp add: recorded_Cons r_def)
  next
    case False
    then obtain ys where "ring_holds (aggregator_run (Suc tick) samples a3) (xs @ ys)"
      "map ms_timestamp ys = map fst (recorded (Suc tick) samples)"
      "ag_ts_capacity (aggregator_run (Suc tick) samples a3) = ag_ts_capacity a3"
      using ih [of xs] a3 by auto
    then show ?thesis unfolding run using False cap
      by (intro exI [of _ ys]) (simp add: recorded_Cons r_def)
  qed
qed

lemma ring_holds_start: "ring_holds (aggregator_start t0 wall (aggregator_create n r)) []"
  using ring_holds_create [of n r] by (simp add: aggregator_start_def ring_holds_def)


section \<open>The aggregate of a snapshot\<close>

lemma sample_workers_eq:
  "length qis = length vs \<Longrightarrow> length qbs = length vs \<Longrightarrow>
    sample_workers ss sp qis qbs vs (jobs, agg, global) =
      (let ms = map2 (\<lambda>(i, b) v. job_metrics ss sp i b v) (zip qis qbs) vs
       in (jobs @ ms, foldl add_metrics agg ms, foldl hist_merge global (map vw_histogram vs)))"
proof (induction vs arbitrary: qis qbs jobs agg global)
  case (Cons v vs)
  then obtain i is' b bs where "qis = i # is'" "qbs = b # bs" by (metis length_Suc_conv)
  then show ?case using Cons by (simp add: Let_def)
qed simp

lemma foldl_add_metrics:
  "pm_iops_instant (foldl add_metrics agg ms) = pm_iops_instant agg + sum_list (map pm_iops_instant ms)"
  "pm_iops_cumulative (foldl add_metrics agg ms) = pm_iops_cumulative agg + sum_list (map pm_iops_cumulative ms)"
  "pm_bw_instant (foldl add_metrics agg ms) = pm_bw_instant agg + sum_list (map pm_bw_instant ms)"
  "pm_bw_cumulative (foldl add_metrics agg ms) = pm_bw_cumulative agg + sum_list (map pm_bw_cumulative ms)"
  "pm_read_errors (foldl add_metrics agg ms) = pm_read_errors agg + sum_list (map pm_read_errors ms)"
  "pm_write_errors (foldl add_metrics agg ms) = pm_write_errors agg + sum_list (map pm_write_errors ms)"
  by (induction ms arbitrary: agg) (simp_all add: add_metrics_def add.assoc)

lemma quantile_literals:
  "fl (of_nat 50 / 100) \<le> of_nat 50 / 100" "fl (of_nat 95 / 100) \<le> of_nat 95 / 100"
  "fl (of_nat 99 / 100) \<le> of_nat 99 / 100"
  by code_simp+

definition nearest_rank :: "u64 list \<Rightarrow> nat \<Rightarrow> u64" where
  "nearest_rank vs a = sort vs ! ((a * length vs + 99) div 100 - 1)"

lemma percentile_nearest_rank:
  assumes "represents h vs" "vs \<noteq> []" "length vs \<le> 2 ^ 45" "1 \<le> a" "a \<le> 100"
    and "fl (of_nat a / 100) \<le> of_nat a / 100"
  shows "percentile h (fl (of_nat a / 100)) = bucket_upper_bound (bucket (nearest_rank vs a))"
proof -
  have tot: "unat (total_count h) = length vs" by (rule total_count_represents [OF assms(1)])
  then have n: "1 \<le> unat (total_count h)" "unat (total_count h) \<le> 2 ^ 45"
    using assms(2,3) by (simp_all add: Suc_le_eq)
  show ?thesis
    using percentile_order_statistic [OF assms(1,2), of "fl (of_nat a / 100)"]
      percentile_target_exact [OF assms(4-6) n] tot
    by (simp add: nearest_rank_def)
qed

text \<open>
  C30. The aggregate row of a snapshot is the workload of all workers together: its percentiles are those
  of the pooled latencies, its rates and error counts are the sums of the rows of the jobs, and
  there is one row per worker, in their order, with the name of its job.
\<close>

theorem snapshot_aggregate:
  assumes "length (ag_prev_iops a) = length views" "length (ag_prev_bytes a) = length views"
    and "list_all2 represents (map vw_histogram views) vss"
    and "concat vss \<noteq> []" "length (concat vss) \<le> 2 ^ 45"
  shows "let snap = fst (take_snapshot record_ts now views a); agg = ms_aggregate snap; jobs = ms_jobs snap in
    pm_lat_p50_ns agg = bucket_upper_bound (bucket (nearest_rank (concat vss) 50)) \<and>
    pm_lat_p95_ns agg = bucket_upper_bound (bucket (nearest_rank (concat vss) 95)) \<and>
    pm_lat_p99_ns agg = bucket_upper_bound (bucket (nearest_rank (concat vss) 99)) \<and>
    pm_iops_instant agg = sum_list (map pm_iops_instant jobs) \<and>
    pm_iops_cumulative agg = sum_list (map pm_iops_cumulative jobs) \<and>
    pm_bw_instant agg = sum_list (map pm_bw_instant jobs) \<and>
    pm_bw_cumulative agg = sum_list (map pm_bw_cumulative jobs) \<and>
    pm_read_errors agg = sum_list (map vw_read_errors views) \<and>
    pm_write_errors agg = sum_list (map vw_write_errors views) \<and>
    map pm_job_name jobs = map (\<lambda>v. jc_name (vw_config v)) views"
proof -
  define ms where "ms = map2 (\<lambda>(i, b) v. job_metrics (elapsed_seconds (ag_start_time a) now)
      (elapsed_seconds (ag_prev_sample_time a) now) i b v) (zip (ag_prev_iops a) (ag_prev_bytes a)) views"
  define g where "g = foldl hist_merge (hist_empty 64) (map vw_histogram views)"
  have sw: "sample_workers (elapsed_seconds (ag_start_time a) now) (elapsed_seconds (ag_prev_sample_time a) now)
      (ag_prev_iops a) (ag_prev_bytes a) views ([], empty_metrics\<lparr>pm_job_name := ''TOTAL''\<rparr>, hist_empty 64) =
      (ms, foldl add_metrics (empty_metrics\<lparr>pm_job_name := ''TOTAL''\<rparr>) ms, g)"
    using assms(1,2) by (simp add: sample_workers_eq Let_def ms_def g_def)
  have "length (concat vss) < 2 ^ 64" using assms(5) by simp
  with assms(3) have g: "represents g (concat vss)"
    unfolding g_def by (rule latency_store.rep_merge_all)
  have p: "percentile g kP50 = bucket_upper_bound (bucket (nearest_rank (concat vss) 50))"
    "percentile g kP95 = bucket_upper_bound (bucket (nearest_rank (concat vss) 95))"
    "percentile g kP99 = bucket_upper_bound (bucket (nearest_rank (concat vss) 99))"
    using percentile_nearest_rank [OF g assms(4,5), of 50] percentile_nearest_rank [OF g assms(4,5), of 95]
      percentile_nearest_rank [OF g assms(4,5), of 99] quantile_literals
    by (simp_all add: kP50_def kP95_def kP99_def)
  have len: "length (zip (ag_prev_iops a) (ag_prev_bytes a)) = length views" using assms(1,2) by simp
  have proj: "map f ms = map h views" if "\<And>i b v. f (job_metrics (elapsed_seconds (ag_start_time a) now)
      (elapsed_seconds (ag_prev_sample_time a) now) i b v) = h v" for f :: "per_job_metrics \<Rightarrow> 'c" and h
    unfolding ms_def using len that by (intro nth_equalityI) (simp_all add: case_prod_beta)
  have "map pm_read_errors ms = map vw_read_errors views" "map pm_write_errors ms = map vw_write_errors views"
    "map pm_job_name ms = map (\<lambda>v. jc_name (vw_config v)) views"
    by (rule proj, simp add: job_metrics_def)+
  moreover have "fst (take_snapshot record_ts now views a) = \<lparr>ms_timestamp = now,
      ms_elapsed_seconds = elapsed_seconds (ag_start_time a) now, ms_jobs = ms,
      ms_aggregate = (foldl add_metrics (empty_metrics\<lparr>pm_job_name := ''TOTAL''\<rparr>) ms)
        \<lparr>pm_lat_p50_ns := percentile g kP50, pm_lat_p95_ns := percentile g kP95,
         pm_lat_p99_ns := percentile g kP99\<rparr>\<rparr>"
    unfolding take_snapshot_def Let_def sw by simp
  ultimately show ?thesis by (simp add: Let_def p foldl_add_metrics empty_metrics_def)
qed

theorem snapshot_aggregate_witness:
  "let h1 = hist_record 70 (hist_record 900 (hist_empty 64)); h2 = hist_record 3 (hist_empty 64);
       v = \<lparr>vw_config = default_job, vw_iops = 2, vw_bytes = 1024, vw_histogram = h1, vw_read_errors = 1,
            vw_write_errors = 0, vw_direct_effective = True, vw_failed = False, vw_error_message = []\<rparr>;
       snap = fst (take_snapshot True 2000000000 [v, v\<lparr>vw_histogram := h2\<rparr>]
                (aggregator_start 0 0 (aggregator_create 2 10)))
   in pm_lat_p50_ns (ms_aggregate snap) =
        bucket_upper_bound (bucket (nearest_rank (concat [[70, 900], [3]]) 50)) \<and>
      pm_read_errors (ms_aggregate snap) = 1 + (1 + 0)"
proof -
  let ?h1 = "hist_record 70 (hist_record 900 (hist_empty 64))" and ?h2 = "hist_record 3 (hist_empty 64)"
  let ?v = "\<lparr>vw_config = default_job, vw_iops = 2, vw_bytes = 1024, vw_histogram = ?h1, vw_read_errors = 1,
            vw_write_errors = 0, vw_direct_effective = True, vw_failed = False, vw_error_message = []\<rparr>"
  have "represents ?h1 [70, 900]" "represents ?h2 [3]"
    by (intro represents_record represents_empty; simp)+
  then have "list_all2 represents (map vw_histogram [?v, ?v\<lparr>vw_histogram := ?h2\<rparr>]) [[70, 900], [3]]"
    by simp
  from snapshot_aggregate [OF _ _ this, of "aggregator_start 0 0 (aggregator_create 2 10)" True 2000000000]
  show ?thesis by (simp add: Let_def aggregator_start_def aggregator_create_def)
qed

section \<open>Rates and totals\<close>

lemma llround_error: "0 \<le> x \<Longrightarrow> \<bar>of_int (llround x) - x\<bar> \<le> 1 / 2"
proof -
  assume "0 \<le> x"
  moreover have "of_int \<lfloor>x + 1 / 2\<rfloor> \<le> x + 1 / 2" "x + 1 / 2 < of_int \<lfloor>x + 1 / 2\<rfloor> + 1" by linarith+
  ultimately show ?thesis unfolding llround_def by (simp only: if_True)
qed

text \<open>
  C31. A reported rate is the quotient of the count and the time, up to the rounding to an integer and one
  rounding of the division, for every count below \<open>2 ^ 53\<close> and a quotient below \<open>2 ^ 62\<close>, where
  neither conversion is out of range.
\<close>

theorem rate_accurate:
  assumes "unat n \<le> 2 ^ 53" "0 < seconds" "seconds \<le> 2 ^ 64" "of_nat (unat n) / seconds \<le> 2 ^ 62"
  shows "\<bar>of_int (int (unat (rate_of n seconds))) - of_nat (unat n) / seconds\<bar>
    \<le> 1 / 2 + of_nat (unat n) / seconds / 2 ^ 53"
proof (cases "unat n = 0")
  case True
  then show ?thesis by (simp add: rate_of_def round_rate_def of_u64_exact)
next
  case False
  define x where "x = of_nat (unat n) / seconds"
  have n1: "1 \<le> (of_nat (unat n) :: rat)" using False of_nat_mono [of 1 "unat n", where 'a = rat] by simp
  have "1 / 2 ^ 64 \<le> 1 / seconds" using assms(2,3) by (intro divide_left_mono) simp_all
  also have "\<dots> \<le> x" unfolding x_def using n1 assms(2) by (intro divide_right_mono) simp_all
  finally have "pow2 (- 64) \<le> x" by (simp add: pow2_def)
  moreover have "pow2 (- 1022) \<le> pow2 (- 64)" by (rule pow2_mono) simp
  ultimately have x: "pow2 (- 1022) \<le> x" by linarith
  have xpos: "0 < x" using x pow2_pos [of "- 1022"] by linarith
  have err: "\<bar>fl x - x\<bar> \<le> x / 2 ^ 53" using fl_rel_error [OF x] by (simp add: pow2_def)
  have x62: "x \<le> 2 ^ 62" using assms(4) by (simp add: x_def)
  have fpos: "0 < fl x"
  proof -
    have "x / 2 ^ 53 < x" using xpos by simp
    then show ?thesis using err by linarith
  qed
  have f63: "fl x < 2 ^ 63 - 1"
  proof -
    have "x / 2 ^ 53 \<le> 2 ^ 62 / 2 ^ 53" using x62 by (rule divide_right_mono) simp
    then have "x / 2 ^ 53 \<le> 512" by simp
    moreover have "x \<le> 4611686018427387904" using x62 by simp
    ultimately have "fl x < 9223372036854775807" using err by linarith
    then show ?thesis by simp
  qed
  have l: "\<bar>of_int (llround (fl x)) - fl x\<bar> \<le> 1 / 2" by (rule llround_error) (use fpos in simp)
  have "- 1 < (of_int (llround (fl x)) :: rat)" using l fpos by linarith
  then have "of_int (- 1) < (of_int (llround (fl x)) :: rat)" by simp
  then have l0: "0 \<le> llround (fl x)" by (simp only: of_int_less_iff)
  have "(of_int (llround (fl x)) :: rat) < 2 ^ 63" using l f63 by linarith
  then have "(of_int (llround (fl x)) :: rat) < of_int (2 ^ 63)" by simp
  then have "llround (fl x) < 2 ^ 63" by (simp only: of_int_less_iff)
  then have "int (unat (word_of_int (llround (fl x)) :: u64)) = llround (fl x)"
    using l0 by (simp add: uint_word_of_int)
  moreover have "rate_of n seconds = word_of_int (llround (fl x))"
    using fpos assms(1) unfolding rate_of_def round_rate_def of_u64_exact [OF assms(1)] x_def by simp
  ultimately have r: "int (unat (rate_of n seconds)) = llround (fl x)" by simp
  show ?thesis unfolding r x_def [symmetric] using l err by linarith
qed

theorem rate_accurate_witness:
  "\<bar>of_int (int (unat (rate_of 1000 (fl (7 / 2))))) - of_nat (unat (1000 :: u64)) / fl (7 / 2)\<bar>
    \<le> 1 / 2 + of_nat (unat (1000 :: u64)) / fl (7 / 2) / 2 ^ 53"
proof (rule rate_accurate)
  have f: "fl (7 / 2) = 7 / 2" by code_simp
  show "0 < fl (7 / 2)" "fl (7 / 2) \<le> 2 ^ 64" "of_nat (unat (1000 :: u64)) / fl (7 / 2) \<le> 2 ^ 62"
    by (simp_all add: f)
qed simp

section \<open>The results of a job\<close>

lemma represents_foldr:
  "length vs < 2 ^ 64 \<Longrightarrow> represents (foldr hist_record vs (hist_empty 64)) vs"
  by (induction vs) (simp_all add: represents_empty represents_record)

lemma filter_le_length64: "length xs < 2 ^ 64 \<Longrightarrow> unat (of_nat (length (filter P xs)) :: u64) = length (filter P xs)"
  by (intro unat_of_nat64) (metis length_filter_le order_le_less_trans)

text \<open>
  C32. The results of a worker at the end of a run, for up to \<open>2 ^ 45\<close> completed requests: the totals are
  the numbers of recorded completions, failures never outnumber them, the latencies are ordered from
  the minimum over the three quantiles to the maximum, and these two enclose every latency measured.
\<close>

theorem job_result_consistent:
  assumes "accounted w entries" "entries \<noteq> []" "length entries \<le> 2 ^ 45"
  shows "let r = job_result elapsed (view_of w) in
    unat (jr_total_ios r) = length entries \<and>
    unat (jr_read_errors r) + unat (jr_write_errors r) = length (filter (\<lambda>x. \<not> cp_success (snd x)) entries) \<and>
    unat (jr_read_errors r) + unat (jr_write_errors r) \<le> unat (jr_total_ios r) \<and>
    jr_lat_min_ns r \<le> jr_lat_p50_ns r \<and> jr_lat_p50_ns r \<le> jr_lat_p95_ns r \<and>
    jr_lat_p95_ns r \<le> jr_lat_p99_ns r \<and> jr_lat_p99_ns r \<le> jr_lat_max_ns r \<and>
    (\<forall>v \<in> set (map fst entries). jr_lat_min_ns r \<le> v \<and> v \<le> jr_lat_max_ns r)"
proof -
  define vs where "vs = map fst entries"
  have n64: "length entries < 2 ^ 64" using assms(3) by simp
  have vs: "represents (wk_histogram w) vs" "vs \<noteq> []" "length vs \<le> 2 ^ 53"
    using assms represents_foldr [of vs] by (simp_all add: accounted_def vs_def)
  have fm: "kP50 \<le> kP95" "kP95 \<le> kP99" unfolding kP50_def kP95_def kP99_def by (intro fl_mono; simp)+
  note q = percentile_ordered [OF vs fm(1)] percentile_ordered [OF vs fm(2)]
  have errs: "length (filter (\<lambda>x. \<not> cp_success (snd x) \<and> cp_direction (snd x) = Dir_kRead) xs) +
      length (filter (\<lambda>x. \<not> cp_success (snd x) \<and> cp_direction (snd x) = Dir_kWrite) xs) =
      length (filter (\<lambda>x. \<not> cp_success (snd x)) xs)" for xs :: "(u64 \<times> io_completion) list"
  proof (induction xs)
    case (Cons x xs)
    then show ?case by (cases "cp_direction (snd x)") simp_all
  qed simp
  have "min_value (wk_histogram w) \<le> v \<and> v \<le> max_value (wk_histogram w)" if "v \<in> set vs" for v
    using q(1) that Min_le [of "set vs" v] Max_ge [of "set vs" v] by (meson List.finite_set order_trans)
  moreover have "unat (wk_iops_count w) = length entries"
    using assms(1) n64 by (simp add: accounted_def unat_of_nat64)
  moreover have "unat (wk_read_error_count w) + unat (wk_write_error_count w) =
      length (filter (\<lambda>x. \<not> cp_success (snd x)) entries)"
    using assms(1) errs [of entries] filter_le_length64 [OF n64] by (simp add: accounted_def)
  moreover from this have "unat (wk_read_error_count w) + unat (wk_write_error_count w) \<le> length entries"
    by simp
  ultimately show ?thesis
    using q by (simp add: Let_def job_result_def view_of_def vs_def)
qed

definition demo_worker :: "(unit, unit, unit, unit) worker" where
  "demo_worker = \<lparr>wk_config = demo_config,
     wk_pool = \<lparr>bp_storage = moved_from, bp_contents = [], bp_block_size = 512, bp_capacity = 1,
       bp_free_slots = [0], bp_in_use = [False]\<rparr>,
     wk_engine = (), wk_histogram = hist_record 70 (hist_record 900 (hist_empty 64)),
     wk_iops_count = 2, wk_bytes_transferred = 512, wk_read_error_count = 1, wk_write_error_count = 0,
     wk_offset_gen = offset_generator_create kSequential 1024 512 512 (),
     wk_direction_decider = direction_decider_create Mode_kRead 50 (), wk_failed = False,
     wk_error_message = [], wk_direct_effective = True, wk_env = ()\<rparr>"

theorem job_result_consistent_witness:
  "let r = job_result 2 (view_of demo_worker) in
    unat (jr_total_ios r) = 2 \<and> jr_lat_min_ns r \<le> jr_lat_p50_ns r \<and> jr_lat_p99_ns r \<le> jr_lat_max_ns r \<and>
    unat (jr_read_errors r) + unat (jr_write_errors r) \<le> unat (jr_total_ios r)"
proof -
  let ?ok = "no_completion\<lparr>cp_success := True, cp_bytes := 512\<rparr>"
  have "accounted demo_worker [(70, no_completion), (900, ?ok)]"
    by (simp add: accounted_def demo_worker_def no_completion_def)
  from job_result_consistent [OF this, of 2] show ?thesis by (simp add: Let_def)
qed

end
