(* ===== verification/Display.thy ===== *)
theory Display
  imports Metrics_Aggregator
begin

text \<open>
  The interface \<open>IDisplay\<close> (\<open>src/display/i_display.h\<close>), its contract, the header labels
  (\<open>src/display/display_context_build.cpp\<close>) and the choice of a backend
  (\<open>src/display/display_factory.cpp\<close>).
\<close>

section \<open>The header\<close>

record display_context =
  dc_engine_label :: string
  dc_direct_label :: string
  dc_log_path :: string

definition derive_engine_label :: "cli_options \<Rightarrow> job_config list \<Rightarrow> string" where
  "derive_engine_label options jobs =
     (case opt_engine_override options of
        Some e \<Rightarrow> e
      | None \<Rightarrow>
          (case jobs of
             [] \<Rightarrow> []
           | first # _ \<Rightarrow>
               if list_ex (\<lambda>job. jc_engine job \<noteq> jc_engine first) jobs then ''mixed''
               else jc_engine first))"

definition derive_direct_label :: "cli_options \<Rightarrow> job_config list \<Rightarrow> string" where
  "derive_direct_label options jobs =
     (case opt_direct_override options of
        Some d \<Rightarrow> if d then ''ON'' else ''OFF''
      | None \<Rightarrow>
          (case jobs of
             [] \<Rightarrow> ''OFF''
           | first # _ \<Rightarrow>
               if list_ex (\<lambda>job. jc_direct job \<noteq> jc_direct first) jobs then ''mixed''
               else if jc_direct first then ''ON'' else ''OFF''))"

definition make_display_context :: "cli_options \<Rightarrow> job_config list \<Rightarrow> string \<Rightarrow> display_context" where
  "make_display_context options jobs log_path =
     \<lparr>dc_engine_label = derive_engine_label options jobs,
      dc_direct_label = derive_direct_label options jobs, dc_log_path = log_path\<rparr>"

section \<open>The interface\<close>

record 's display_ops =
  di_init :: "int \<Rightarrow> ('s, unit) prog"
  di_update :: "metrics_snapshot \<Rightarrow> ('s, unit) prog"
  di_summary :: "benchmark_results \<Rightarrow> ('s, unit) prog"
  di_shutdown :: "('s, unit) prog"
  di_stop_requested :: "'s \<Rightarrow> bool \<times> 's"

text \<open>The calls of one run: start, the periodic updates, the summary, the end.\<close>

fun display_updates :: "'s display_ops \<Rightarrow> metrics_snapshot list \<Rightarrow> ('s, unit) prog" where
  "display_updates ops [] = returnP ()"
| "display_updates ops (x # xs) = bindP (di_update ops x) (\<lambda>_. display_updates ops xs)"

definition display_session ::
    "'s display_ops \<Rightarrow> int \<Rightarrow> metrics_snapshot list \<Rightarrow> benchmark_results option \<Rightarrow> ('s, unit) prog" where
  "display_session ops runtime snapshots results =
     bindP (di_init ops runtime) (\<lambda>_.
     bindP (display_updates ops snapshots) (\<lambda>_.
     bindP (case results of None \<Rightarrow> returnP () | Some r \<Rightarrow> di_summary ops r) (\<lambda>_.
       di_shutdown ops)))"

text \<open>What a client can do with a display, in any order.\<close>

inductive display_reach :: "'s display_ops \<Rightarrow> 's \<Rightarrow> 's \<Rightarrow> bool" for ops :: "'s display_ops" where
  start: "display_reach ops s s"
| init: "display_reach ops s s1 \<Longrightarrow> di_init ops runtime s1 = Some (r, s2) \<Longrightarrow> display_reach ops s s2"
| update: "display_reach ops s s1 \<Longrightarrow> di_update ops x s1 = Some (r, s2) \<Longrightarrow> display_reach ops s s2"
| summary: "display_reach ops s s1 \<Longrightarrow> di_summary ops res s1 = Some (r, s2) \<Longrightarrow> display_reach ops s s2"
| shutdown: "display_reach ops s s1 \<Longrightarrow> di_shutdown ops s1 = Some (r, s2) \<Longrightarrow> display_reach ops s s2"
| poll: "display_reach ops s s1 \<Longrightarrow> di_stop_requested ops s1 = (b, s2) \<Longrightarrow> display_reach ops s s2"

lemma display_reach_invariant:
  assumes "display_reach ops s s'" "I s"
    and "\<And>runtime s r s'. I s \<Longrightarrow> di_init ops runtime s = Some (r, s') \<Longrightarrow> I s'"
    and "\<And>x s r s'. I s \<Longrightarrow> di_update ops x s = Some (r, s') \<Longrightarrow> I s'"
    and "\<And>res s r s'. I s \<Longrightarrow> di_summary ops res s = Some (r, s') \<Longrightarrow> I s'"
    and "\<And>s r s'. I s \<Longrightarrow> di_shutdown ops s = Some (r, s') \<Longrightarrow> I s'"
    and "\<And>s b s'. I s \<Longrightarrow> di_stop_requested ops s = (b, s') \<Longrightarrow> I s'"
  shows "I s'"
  using assms(1,2) by (induction rule: display_reach.induct) (auto intro: assms(3-7))

text \<open>
  The contract: the calls return, \<open>active\<close> says that the display holds the screen or shows a run in
  progress, an update keeps that, the summary and the shutdown end it.
\<close>

locale display_backend =
  fixes ops :: "'s display_ops" and active :: "'s \<Rightarrow> bool"
  assumes init_returns: "\<exists>s'. di_init ops runtime s = Some (Inr (), s')"
    and update_returns: "\<exists>s'. di_update ops x s = Some (Inr (), s') \<and> active s' = active s"
    and summary_ends: "\<exists>s'. di_summary ops r s = Some (Inr (), s') \<and> \<not> active s'"
    and shutdown_ends: "\<exists>s'. di_shutdown ops s = Some (Inr (), s') \<and> \<not> active s'"
begin

lemma updates_return: "\<exists>s'. display_updates ops xs s = Some (Inr (), s') \<and> active s' = active s"
proof (induction xs arbitrary: s)
  case (Cons x xs)
  obtain s1 where "di_update ops x s = Some (Inr (), s1)" "active s1 = active s"
    using update_returns by blast
  with Cons [of s1] show ?case by (auto simp: prog_simps)
qed (simp add: prog_simps)

lemma session_ends: "\<exists>s'. display_session ops runtime xs results s = Some (Inr (), s') \<and> \<not> active s'"
proof -
  obtain s1 where s1: "di_init ops runtime s = Some (Inr (), s1)" using init_returns by blast
  obtain s2 where s2: "display_updates ops xs s1 = Some (Inr (), s2)" using updates_return by blast
  obtain s3 where s3: "(case results of None \<Rightarrow> returnP () | Some r \<Rightarrow> di_summary ops r) s2 = Some (Inr (), s3)"
    using summary_ends by (cases results) (force simp: prog_simps)+
  obtain s4 where "di_shutdown ops s3 = Some (Inr (), s4)" "\<not> active s4" using shutdown_ends by blast
  with s1 s2 s3 show ?thesis by (simp add: display_session_def prog_simps)
qed

end

section \<open>The factory\<close>

type_synonym 'd registry = "string \<Rightarrow> (display_context \<Rightarrow> 'd) option"

definition display_register :: "string \<Rightarrow> (display_context \<Rightarrow> 'd) \<Rightarrow> 'd registry \<Rightarrow> 'd registry" where
  "display_register name creator registry = registry(name \<mapsto> creator)"

text \<open>\<open>terminal\<close> is the constructor of the built-in backend.\<close>

definition display_create ::
    "'d registry \<Rightarrow> (display_context \<Rightarrow> 'd) \<Rightarrow> string \<Rightarrow> display_context \<Rightarrow> 'd result" where
  "display_create registry terminal ui_backend ctx =
     (case registry ui_backend of
        Some creator \<Rightarrow> Inr (creator ctx)
      | None \<Rightarrow>
          if ui_backend = ''terminal'' then Inr (terminal ctx)
          else if ui_backend = ''tui''
          then Inl (RuntimeError ''tui backend not compiled in, rebuild with -DCFIO_ENABLE_TUI=ON'')
          else if ui_backend = ''qt''
          then Inl (RuntimeError ''qt backend not compiled in, rebuild with -DCFIO_ENABLE_QT=ON'')
          else Inl (RuntimeError (''unknown display backend '' @ sq ui_backend)))"

end
