(* ===== verification/Results_Exporter.thy ===== *)
theory Results_Exporter
  imports Metrics_Aggregator
begin

text \<open>
  \<open>ResultsExporter\<close> (\<open>src/reporting/results_exporter.cpp\<close>): the JSON summary and the CSV time series. A
  JSON value is the tree that the program builds; its printing and the output files are
  parameters.
\<close>

section \<open>JSON values\<close>

datatype json =
  JNull | JBool bool | JInt int | JUInt u64 | JReal rat | JStr string
| JArr "json list" | JObj "(string \<times> json) list"

text \<open>
  \<open>out[key] = v\<close> on an \<open>ordered_json\<close>: a null becomes an object, a new key goes to the end. Every
  value the program indexes is one of the two.
\<close>

fun json_set :: "string \<Rightarrow> json \<Rightarrow> json \<Rightarrow> json" where
  "json_set k v (JObj kvs) = JObj (AList.update k v kvs)"
| "json_set k v JNull = JObj [(k, v)]"
| "json_set k v other = other"

definition json_sets :: "(string \<times> json) list \<Rightarrow> json" where
  "json_sets kvs = foldl (\<lambda>j (k, v). json_set k v j) JNull kvs"

fun json_push :: "json \<Rightarrow> json \<Rightarrow> json" where
  "json_push (JArr xs) x = JArr (xs @ [x])"
| "json_push other x = other"

definition kSecondsScale :: rat where "kSecondsScale = 1000"

definition round_seconds :: "rat \<Rightarrow> rat" where
  "round_seconds seconds = fl (of_int (llround (fl (seconds * kSecondsScale))) / kSecondsScale)"

definition job_config_to_json :: "job_config \<Rightarrow> json" where
  "job_config_to_json config =
     json_sets
       [(''engine'', JStr (jc_engine config)), (''rw'', JStr (rw_mode_to_string (jc_rw_mode config))),
        (''bs'', JUInt (jc_block_size config)), (''size'', JUInt (jc_file_size config)),
        (''iodepth'', JInt (jc_iodepth config))]"

definition job_results_to_json :: "job_results \<Rightarrow> json" where
  "job_results_to_json results =
     (let errors = json_sets [(''read'', JUInt (jr_read_errors results)), (''write'', JUInt (jr_write_errors results))]
      in json_sets
       [(''iops_avg'', JUInt (jr_iops_avg results)), (''bw_avg_bytes'', JUInt (jr_bw_avg_bytes results)),
        (''lat_min_ns'', JUInt (jr_lat_min_ns results)), (''lat_max_ns'', JUInt (jr_lat_max_ns results)),
        (''lat_p50_ns'', JUInt (jr_lat_p50_ns results)), (''lat_p95_ns'', JUInt (jr_lat_p95_ns results)),
        (''lat_p99_ns'', JUInt (jr_lat_p99_ns results)), (''total_ios'', JUInt (jr_total_ios results)),
        (''total_bytes'', JUInt (jr_total_bytes results)),
        (''direct_effective'', JBool (jr_direct_effective results)), (''failed'', JBool (jr_failed results)),
        (''error'', if jr_error_message results = [] then JNull else JStr (jr_error_message results)),
        (''errors'', errors)])"

definition global_config_to_json :: "cli_options \<Rightarrow> json" where
  "global_config_to_json opts =
     json_sets
       [(''engine_override'', case opt_engine_override opts of Some e \<Rightarrow> JStr e | None \<Rightarrow> JNull),
        (''direct'', case opt_direct_override opts of Some d \<Rightarrow> JBool d | None \<Rightarrow> JNull)]"

definition job_to_json :: "job_results \<Rightarrow> json" where
  "job_to_json job =
     json_sets [(''name'', JStr (jr_name job)), (''config'', job_config_to_json (jr_config job)),
                (''results'', job_results_to_json job)]"

definition summary_json :: "benchmark_results \<Rightarrow> json" where
  "summary_json results =
     json_sets
       [(''cfio_version'', JStr (br_cfio_version results)), (''timestamp'', JStr (br_timestamp results)),
        (''runtime_seconds'', JInt (br_runtime_seconds results)),
        (''elapsed_seconds'', JReal (round_seconds (br_elapsed_seconds results))),
        (''interrupted'', JBool (br_interrupted results)),
        (''global_config'', global_config_to_json (br_global_config results)),
        (''jobs'', foldl json_push (JArr []) (map job_to_json (br_jobs results)))]"

section \<open>Output files\<close>

text \<open>
  \<open>oa_open\<close> opens and truncates, and says whether that worked; \<open>oa_write\<close> inserts a text and flushes,
  and says whether the stream is still good.
\<close>

record 'w out_api =
  oa_open :: "string \<Rightarrow> 'w \<Rightarrow> bool \<times> 'w"
  oa_write :: "string \<Rightarrow> string \<Rightarrow> 'w \<Rightarrow> bool \<times> 'w"

text \<open>\<open>operator/\<close> of a directory and a name: an absolute name stays alone.\<close>

definition path_append :: "string \<Rightarrow> string \<Rightarrow> string" where
  "path_append dir name =
     (if name \<noteq> [] \<and> hd name = CHR ''/'' then name
      else if dir = [] \<or> last dir = CHR ''/'' then dir @ name else dir @ ''/'' @ name)"

definition write_out :: "'w out_api \<Rightarrow> string \<Rightarrow> string + string \<Rightarrow> ('w, unit) prog" where
  "write_out api out_path content = (\<lambda>w.
     case oa_open api out_path w of (opened, w1) \<Rightarrow>
       if \<not> opened then Some (Inl (RuntimeError (''cannot open output file: '' @ sq out_path)), w1)
       else case content of
           Inl m \<Rightarrow> Some (Inl (LibraryError m), w1)
         | Inr out \<Rightarrow>
             (case oa_write api out_path out w1 of (good, w2) \<Rightarrow>
                if \<not> good then Some (Inl (RuntimeError (''failed writing output file: '' @ sq out_path)), w2)
                else Some (Inr (), w2)))"

text \<open>\<open>dump\<close> prints with an indentation of two; it refuses a text that is not UTF-8.\<close>

definition export_json ::
    "'w out_api \<Rightarrow> (json \<Rightarrow> string + string) \<Rightarrow> benchmark_results \<Rightarrow> string \<Rightarrow> ('w, unit) prog" where
  "export_json api dump results output_dir =
     write_out api (path_append output_dir ''summary.json'')
       (case dump (summary_json results) of Inl m \<Rightarrow> Inl m | Inr text \<Rightarrow> Inr (text @ [CHR 0x0A]))"

definition csv_header :: string where
  "csv_header = ''timestamp_s,job_name,iops,bw_bytes,lat_p50_ns,lat_p95_ns,lat_p99_ns,errors'' @ [CHR 0x0A]"

definition csv_row :: "int \<Rightarrow> per_job_metrics \<Rightarrow> string" where
  "csv_row second job =
     dec_int second @ '','' @ pm_job_name job @ '','' @ dec64 (pm_iops_instant job) @ '','' @
     dec64 (pm_bw_instant job) @ '','' @ dec64 (pm_lat_p50_ns job) @ '','' @ dec64 (pm_lat_p95_ns job) @ '','' @
     dec64 (pm_lat_p99_ns job) @ '','' @ dec64 (pm_read_errors job + pm_write_errors job)"

definition csv_sample :: "metrics_snapshot \<Rightarrow> string" where
  "csv_sample sample =
     (let second = llround (ms_elapsed_seconds sample)
      in concat (map (\<lambda>job. csv_row second job @ [CHR 0x0A]) (ms_jobs sample)))"

definition export_csv :: "'w out_api \<Rightarrow> metrics_snapshot list \<Rightarrow> string \<Rightarrow> ('w, unit) prog" where
  "export_csv api samples output_dir =
     write_out api (path_append output_dir ''timeseries.csv'')
       (Inr (csv_header @ concat (map csv_sample samples)))"

section \<open>Reading a row back\<close>

text \<open>A reader that splits at every comma, as for a file without quoted fields.\<close>

fun split_on :: "char \<Rightarrow> string \<Rightarrow> string list" where
  "split_on c [] = [[]]"
| "split_on c (x # xs) =
     (if x = c then [] # split_on c xs
      else (case split_on c xs of [] \<Rightarrow> [[x]] | f # fs \<Rightarrow> (x # f) # fs))"

lemma split_on_ne [simp]: "split_on c s \<noteq> []"
  by (cases s) (auto split: list.splits)

lemma split_on_append: "c \<notin> set s \<Longrightarrow> split_on c (s @ c # t) = s # split_on c t"
  by (induction s) auto

lemma split_on_whole: "c \<notin> set s \<Longrightarrow> split_on c s = [s]"
  by (induction s) auto

lemma length_split_on: "length (split_on c s) = Suc (count_list s c)"
  by (induction s) (auto split: list.splits)

lemma dec_plain [simp]: "CHR '','' \<notin> set (dec n)"
  using dec_digits [of "CHR '',''" n] by (auto simp: is_digit_def)

lemma dec_int_plain [simp]: "CHR '','' \<notin> set (dec_int i)"
  by (auto simp: dec_int_def)

lemma count_dec [simp]: "count_list (dec n) (CHR '','') = 0" "count_list (dec_int i) (CHR '','') = 0"
  by (simp_all add: count_list_0_iff)

text \<open>
  C33. The CSV file is the header and one line for every job of every sample, in order. Splitting a
  line at its commas gives the eight columns back when the job name has no comma; every comma of
  the name, which is written as it is, adds a column.
\<close>

theorem export_csv_rows:
  "export_csv api samples dir =
     write_out api (path_append dir ''timeseries.csv'')
       (Inr (concat (map (\<lambda>row. row @ [CHR 0x0A])
          (butlast csv_header #
           concat (map (\<lambda>x. map (csv_row (llround (ms_elapsed_seconds x))) (ms_jobs x)) samples))))) \<and>
   length (split_on CHR '','' (csv_row second job)) = 8 + count_list (pm_job_name job) CHR '','' \<and>
   (CHR '','' \<in> set (pm_job_name job) \<or>
    split_on CHR '','' (csv_row second job) =
      [dec_int second, pm_job_name job, dec64 (pm_iops_instant job), dec64 (pm_bw_instant job),
       dec64 (pm_lat_p50_ns job), dec64 (pm_lat_p95_ns job), dec64 (pm_lat_p99_ns job),
       dec64 (pm_read_errors job + pm_write_errors job)])"
proof -
  have whole: "csv_header @ concat (map csv_sample xs) =
      concat (map (\<lambda>row. row @ [CHR 0x0A])
        (butlast csv_header #
         concat (map (\<lambda>x. map (csv_row (llround (ms_elapsed_seconds x))) (ms_jobs x)) xs)))" for xs
  proof -
    have b: "concat (map csv_sample xs) = concat (map (\<lambda>row. row @ [CHR 0x0A])
         (concat (map (\<lambda>x. map (csv_row (llround (ms_elapsed_seconds x))) (ms_jobs x)) xs)))"
      by (induction xs) (simp_all only: list.map concat.simps map_append concat_append csv_sample_def Let_def
          map_map o_def)
    have "butlast csv_header @ [CHR 0x0A] = csv_header" by (simp add: csv_header_def)
    then show ?thesis unfolding b by (simp only: list.map concat.simps)
  qed
  have len: "length (split_on CHR '','' (csv_row second job)) = 8 + count_list (pm_job_name job) CHR '',''"
    by (simp add: length_split_on csv_row_def)
  have fields: "split_on CHR '','' (csv_row second job) =
      [dec_int second, pm_job_name job, dec64 (pm_iops_instant job), dec64 (pm_bw_instant job),
       dec64 (pm_lat_p50_ns job), dec64 (pm_lat_p95_ns job), dec64 (pm_lat_p99_ns job),
       dec64 (pm_read_errors job + pm_write_errors job)]" if "CHR '','' \<notin> set (pm_job_name job)"
    using that by (simp add: csv_row_def split_on_append split_on_whole)
  show ?thesis
    by (intro conjI len) (simp only: export_csv_def whole, use fields in blast)
qed

section \<open>What the summary tells\<close>

lemma json_sets_distinct: "distinct (map fst kvs) \<Longrightarrow> kvs \<noteq> [] \<Longrightarrow> json_sets kvs = JObj kvs"
proof -
  have step: "distinct (map fst (as @ bs)) \<Longrightarrow>
      foldl (\<lambda>j (k, v). json_set k v j) (JObj as) bs = JObj (as @ bs)" for as bs
  proof (induction bs arbitrary: as)
    case (Cons b bs)
    have "AList.update (fst b) (snd b) as = as @ [b]"
      using Cons.prems by (induction as) auto
    then show ?case using Cons.IH [of "as @ [b]"] Cons.prems by (simp add: case_prod_unfold)
  qed simp
  assume "distinct (map fst kvs)" "kvs \<noteq> []"
  then show ?thesis
    using step [of "[hd kvs]" "tl kvs"] by (cases kvs) (auto simp: json_sets_def)
qed

lemma json_push_all: "foldl json_push (JArr xs) ys = JArr (xs @ ys)"
  by (induction ys arbitrary: xs) simp_all

text \<open>The part of a result that the summary carries.\<close>

definition exported_config :: "job_config \<Rightarrow> string \<times> rw_mode \<times> u64 \<times> u64 \<times> int" where
  "exported_config c = (jc_engine c, jc_rw_mode c, jc_block_size c, jc_file_size c, jc_iodepth c)"

definition exported :: "job_results \<Rightarrow> string \<times> (string \<times> rw_mode \<times> u64 \<times> u64 \<times> int) \<times> u64 list \<times> bool list \<times> string" where
  "exported r = (jr_name r, exported_config (jr_config r),
     [jr_iops_avg r, jr_bw_avg_bytes r, jr_lat_min_ns r, jr_lat_max_ns r, jr_lat_p50_ns r, jr_lat_p95_ns r,
      jr_lat_p99_ns r, jr_total_ios r, jr_total_bytes r, jr_read_errors r, jr_write_errors r],
     [jr_direct_effective r, jr_failed r], jr_error_message r)"

lemma job_config_to_json_inj:
  "job_config_to_json a = job_config_to_json b \<longleftrightarrow> exported_config a = exported_config b"
  by (simp add: job_config_to_json_def json_sets_distinct exported_config_def
      rw_mode_eq_iff)

lemma job_results_to_json_inj:
  "job_results_to_json a = job_results_to_json b \<longleftrightarrow> snd (snd (exported a)) = snd (snd (exported b))"
  by (auto simp: job_results_to_json_def json_sets_distinct exported_def split: if_splits)

lemma job_to_json_inj: "job_to_json a = job_to_json b \<longleftrightarrow> exported a = exported b"
proof -
  have "job_to_json a = job_to_json b \<longleftrightarrow>
      jr_name a = jr_name b \<and> job_config_to_json (jr_config a) = job_config_to_json (jr_config b) \<and>
      job_results_to_json a = job_results_to_json b"
    by (simp add: job_to_json_def json_sets_distinct)
  then show ?thesis unfolding job_config_to_json_inj job_results_to_json_inj by (auto simp: exported_def)
qed

lemma summary_json_eq:
  "summary_json r = JObj
     [(''cfio_version'', JStr (br_cfio_version r)), (''timestamp'', JStr (br_timestamp r)),
      (''runtime_seconds'', JInt (br_runtime_seconds r)),
      (''elapsed_seconds'', JReal (round_seconds (br_elapsed_seconds r))),
      (''interrupted'', JBool (br_interrupted r)),
      (''global_config'', global_config_to_json (br_global_config r)),
      (''jobs'', JArr (map job_to_json (br_jobs r)))]"
  by (simp add: summary_json_def json_sets_distinct json_push_all)

text \<open>A reader: the value at the end of a path of keys, and the keys of an object in order.\<close>

fun json_at :: "string list \<Rightarrow> json \<Rightarrow> json option" where
  "json_at [] j = Some j"
| "json_at (k # ks) (JObj kvs) = (case map_of kvs k of None \<Rightarrow> None | Some j \<Rightarrow> json_at ks j)"
| "json_at (k # ks) _ = None"

fun json_keys :: "json \<Rightarrow> string list" where
  "json_keys (JObj kvs) = map fst kvs"
| "json_keys _ = []"

definition reads :: "json \<Rightarrow> (string list \<times> json) list \<Rightarrow> bool" where
  "reads j pvs \<longleftrightarrow> list_all (\<lambda>(path, v). json_at path j = Some v) pvs"

text \<open>The entry of a job: its keys and the value under every one of them.\<close>

lemma job_to_json_reads:
  "json_keys (job_to_json job) = [''name'', ''config'', ''results''] \<and>
   map_option json_keys (json_at [''config''] (job_to_json job)) =
     Some [''engine'', ''rw'', ''bs'', ''size'', ''iodepth''] \<and>
   map_option json_keys (json_at [''results''] (job_to_json job)) =
     Some [''iops_avg'', ''bw_avg_bytes'', ''lat_min_ns'', ''lat_max_ns'', ''lat_p50_ns'', ''lat_p95_ns'', ''lat_p99_ns'',
           ''total_ios'', ''total_bytes'', ''direct_effective'', ''failed'', ''error'', ''errors''] \<and>
   map_option json_keys (json_at [''results'', ''errors''] (job_to_json job)) = Some [''read'', ''write''] \<and>
   reads (job_to_json job)
     [([''name''], JStr (jr_name job)),
      ([''config'', ''engine''], JStr (jc_engine (jr_config job))),
      ([''config'', ''rw''], JStr (rw_mode_to_string (jc_rw_mode (jr_config job)))),
      ([''config'', ''bs''], JUInt (jc_block_size (jr_config job))),
      ([''config'', ''size''], JUInt (jc_file_size (jr_config job))),
      ([''config'', ''iodepth''], JInt (jc_iodepth (jr_config job))),
      ([''results'', ''iops_avg''], JUInt (jr_iops_avg job)),
      ([''results'', ''bw_avg_bytes''], JUInt (jr_bw_avg_bytes job)),
      ([''results'', ''lat_min_ns''], JUInt (jr_lat_min_ns job)),
      ([''results'', ''lat_max_ns''], JUInt (jr_lat_max_ns job)),
      ([''results'', ''lat_p50_ns''], JUInt (jr_lat_p50_ns job)),
      ([''results'', ''lat_p95_ns''], JUInt (jr_lat_p95_ns job)),
      ([''results'', ''lat_p99_ns''], JUInt (jr_lat_p99_ns job)),
      ([''results'', ''total_ios''], JUInt (jr_total_ios job)),
      ([''results'', ''total_bytes''], JUInt (jr_total_bytes job)),
      ([''results'', ''direct_effective''], JBool (jr_direct_effective job)),
      ([''results'', ''failed''], JBool (jr_failed job)),
      ([''results'', ''error''], if jr_error_message job = [] then JNull else JStr (jr_error_message job)),
      ([''results'', ''errors'', ''read''], JUInt (jr_read_errors job)),
      ([''results'', ''errors'', ''write''], JUInt (jr_write_errors job))]"
  by (simp add: reads_def job_to_json_def job_config_to_json_def job_results_to_json_def json_sets_distinct Let_def)

text \<open>
  C34. The JSON summary, read back. It has the seven documented keys in order, and under each of them,
  and under each key of the nested objects, stands the value of its own field: the overrides or
  null, and for every job, in the order of the results, its name, its configuration, its counters,
  percentiles and flags, the error message or null, and read and write errors apart. It determines
  what it carries: two runs have the same summary exactly when all of this agrees.
\<close>

theorem summary_json_faithful:
  "json_keys (summary_json a) = [''cfio_version'', ''timestamp'', ''runtime_seconds'', ''elapsed_seconds'',
     ''interrupted'', ''global_config'', ''jobs''] \<and>
   reads (summary_json a)
     [([''cfio_version''], JStr (br_cfio_version a)), ([''timestamp''], JStr (br_timestamp a)),
      ([''runtime_seconds''], JInt (br_runtime_seconds a)),
      ([''elapsed_seconds''], JReal (round_seconds (br_elapsed_seconds a))),
      ([''interrupted''], JBool (br_interrupted a)),
      ([''global_config'', ''engine_override''],
         case opt_engine_override (br_global_config a) of None \<Rightarrow> JNull | Some e \<Rightarrow> JStr e),
      ([''global_config'', ''direct''],
         case opt_direct_override (br_global_config a) of None \<Rightarrow> JNull | Some d \<Rightarrow> JBool d)] \<and>
   (\<exists>js. json_at [''jobs''] (summary_json a) = Some (JArr js) \<and>
      list_all2 (\<lambda>job j.
        json_keys j = [''name'', ''config'', ''results''] \<and>
        map_option json_keys (json_at [''config''] j) = Some [''engine'', ''rw'', ''bs'', ''size'', ''iodepth''] \<and>
        map_option json_keys (json_at [''results''] j) =
          Some [''iops_avg'', ''bw_avg_bytes'', ''lat_min_ns'', ''lat_max_ns'', ''lat_p50_ns'', ''lat_p95_ns'', ''lat_p99_ns'',
                ''total_ios'', ''total_bytes'', ''direct_effective'', ''failed'', ''error'', ''errors''] \<and>
        map_option json_keys (json_at [''results'', ''errors''] j) = Some [''read'', ''write''] \<and>
        reads j
          [([''name''], JStr (jr_name job)),
           ([''config'', ''engine''], JStr (jc_engine (jr_config job))),
           ([''config'', ''rw''], JStr (rw_mode_to_string (jc_rw_mode (jr_config job)))),
           ([''config'', ''bs''], JUInt (jc_block_size (jr_config job))),
           ([''config'', ''size''], JUInt (jc_file_size (jr_config job))),
           ([''config'', ''iodepth''], JInt (jc_iodepth (jr_config job))),
           ([''results'', ''iops_avg''], JUInt (jr_iops_avg job)),
           ([''results'', ''bw_avg_bytes''], JUInt (jr_bw_avg_bytes job)),
           ([''results'', ''lat_min_ns''], JUInt (jr_lat_min_ns job)),
           ([''results'', ''lat_max_ns''], JUInt (jr_lat_max_ns job)),
           ([''results'', ''lat_p50_ns''], JUInt (jr_lat_p50_ns job)),
           ([''results'', ''lat_p95_ns''], JUInt (jr_lat_p95_ns job)),
           ([''results'', ''lat_p99_ns''], JUInt (jr_lat_p99_ns job)),
           ([''results'', ''total_ios''], JUInt (jr_total_ios job)),
           ([''results'', ''total_bytes''], JUInt (jr_total_bytes job)),
           ([''results'', ''direct_effective''], JBool (jr_direct_effective job)),
           ([''results'', ''failed''], JBool (jr_failed job)),
           ([''results'', ''error''], if jr_error_message job = [] then JNull else JStr (jr_error_message job)),
           ([''results'', ''errors'', ''read''], JUInt (jr_read_errors job)),
           ([''results'', ''errors'', ''write''], JUInt (jr_write_errors job))])
        (br_jobs a) js) \<and>
   (summary_json a = summary_json b \<longleftrightarrow>
      br_cfio_version a = br_cfio_version b \<and> br_timestamp a = br_timestamp b \<and>
      br_runtime_seconds a = br_runtime_seconds b \<and>
      round_seconds (br_elapsed_seconds a) = round_seconds (br_elapsed_seconds b) \<and>
      br_interrupted a = br_interrupted b \<and>
      opt_engine_override (br_global_config a) = opt_engine_override (br_global_config b) \<and>
      opt_direct_override (br_global_config a) = opt_direct_override (br_global_config b) \<and>
      map exported (br_jobs a) = map exported (br_jobs b))"
    (is "_ \<and> _ \<and> (\<exists>js. _ \<and> list_all2 ?row _ js) \<and> _")
proof (intro conjI)
  show "\<exists>js. json_at [''jobs''] (summary_json a) = Some (JArr js) \<and> list_all2 ?row (br_jobs a) js"
    by (intro exI [of _ "map job_to_json (br_jobs a)"] conjI)
      (simp add: summary_json_eq, simp only: list_all2_map2 list_all2_same job_to_json_reads, simp)
  have jobs: "map job_to_json xs = map job_to_json ys \<longleftrightarrow> map exported xs = map exported ys" for xs ys
  proof (induction xs arbitrary: ys)
    case (Cons x xs)
    then show ?case by (cases ys) (simp_all add: job_to_json_inj)
  qed auto
  have global: "global_config_to_json x = global_config_to_json y \<longleftrightarrow>
      opt_engine_override x = opt_engine_override y \<and> opt_direct_override x = opt_direct_override y" for x y
    by (auto simp: global_config_to_json_def json_sets_distinct split: option.splits)
  show "summary_json a = summary_json b \<longleftrightarrow>
      br_cfio_version a = br_cfio_version b \<and> br_timestamp a = br_timestamp b \<and>
      br_runtime_seconds a = br_runtime_seconds b \<and>
      round_seconds (br_elapsed_seconds a) = round_seconds (br_elapsed_seconds b) \<and>
      br_interrupted a = br_interrupted b \<and>
      opt_engine_override (br_global_config a) = opt_engine_override (br_global_config b) \<and>
      opt_direct_override (br_global_config a) = opt_direct_override (br_global_config b) \<and>
      map exported (br_jobs a) = map exported (br_jobs b)"
    unfolding summary_json_eq by (simp add: jobs global)
qed (simp_all add: summary_json_eq reads_def global_config_to_json_def json_sets_distinct split: option.splits)

end
