(* ===== verification/Logger.thy ===== *)
theory Logger
  imports Prelude
begin

text \<open>
  The process-wide logger (\<open>src/logging/logger.cpp\<close>). Its state is the static pointer \<open>logger_\<close>: the log
  file and whether debug messages are on. The calls into the logging library are parameters; those
  that can throw return the message.
\<close>

record 'w log_api =
  lo_init_thread_pool :: "nat \<Rightarrow> nat \<Rightarrow> 'w \<Rightarrow> 'w"
  lo_file_sink :: "string \<Rightarrow> 'w \<Rightarrow> (string + unit) \<times> 'w"
  lo_register :: "'w \<Rightarrow> (string + unit) \<times> 'w"
  lo_flush :: "'w \<Rightarrow> 'w"
  lo_drop :: "'w \<Rightarrow> 'w"
  lo_shutdown :: "'w \<Rightarrow> 'w"

type_synonym logger = "(string \<times> bool) option"

definition logger_init :: "'w log_api \<Rightarrow> string \<Rightarrow> bool \<Rightarrow> (logger \<times> 'w, unit) prog" where
  "logger_init api log_path verbose = (\<lambda>(lg, w).
     if lg \<noteq> None then Some (Inl (RuntimeError ''Logger::Init() multiple calls not allowed''), (lg, w))
     else case lo_file_sink api log_path (lo_init_thread_pool api 8192 1 w) of
         (Inl m, w1) \<Rightarrow> Some (Inl (LibraryError m), (None, w1))
       | (Inr _, w1) \<Rightarrow>
           (case lo_register api w1 of
              (Inl m, w2) \<Rightarrow> Some (Inl (LibraryError m), (Some (log_path, verbose), w2))
            | (Inr _, w2) \<Rightarrow> Some (Inr (), (Some (log_path, verbose), w2))))"

definition logger_get :: "(logger \<times> 'w, unit) prog" where
  "logger_get = (\<lambda>(lg, w).
     if lg = None then Some (Inl (RuntimeError ''Logger::Get() not allowed before init''), (lg, w))
     else Some (Inr (), (lg, w)))"

definition logger_shutdown :: "'w log_api \<Rightarrow> (logger \<times> 'w, unit) prog" where
  "logger_shutdown api = (\<lambda>(lg, w).
     let w1 = (if lg \<noteq> None then lo_drop api (lo_flush api w) else w)
     in Some (Inr (), (None, lo_shutdown api w1)))"

text \<open>Starting over never fails for a logger that is already there.\<close>

lemma logger_restart:
  "bindP (logger_shutdown api) (\<lambda>_. logger_init api path verbose) (lg, w) =
     logger_init api path verbose (None, snd (snd (the (logger_shutdown api (lg, w)))))"
  by (simp add: prog_simps logger_shutdown_def Let_def)

lemma logger_init_get:
  "logger_init api path verbose (lg, w) = Some (Inr (), (lg', w')) \<Longrightarrow>
     lg = None \<and> logger_get (lg', w'') = Some (Inr (), (lg', w''))"
  by (cases lg) (auto simp: logger_init_def logger_get_def split: if_splits sum.splits prod.splits)

end
