(* ===== verification/Orchestrator.thy ===== *)
theory Orchestrator
  imports Config_Parsers File_Preparator Display Results_Exporter Logger
begin

text \<open>
  \<open>BenchmarkOrchestrator\<close> (\<open>src/orchestrator/benchmark_orchestrator.cpp\<close>) and \<open>main\<close> (\<open>src/main.cpp\<close>): the
  main thread. It prepares the files, creates the workers, runs them for the configured time under
  the eye of the display, and exports and cleans up. The other threads, the signal handler and the
  operating system are the world: a function of the environment acts on the world and whatever
  the others did until then has happened in it.
\<close>

section \<open>State and environment\<close>

record orchestrator =
  or_options :: cli_options
  or_jobs :: "job_config list"
  or_output_dir :: string
  or_file_prep :: file_preparator
  or_logging_ready :: bool
  or_any_worker_failed :: bool
  or_logger :: logger
  or_workers :: nat
  or_threads :: "nat list"
  or_sampling :: bool

text \<open>
  \<open>or_workers\<close> counts the workers constructed, \<open>or_threads\<close> are those whose thread is joinable, \<open>or_sampling\<close> says
  that the thread of the aggregator is.
  \<open>oe_new_worker\<close> constructs a worker on an engine of the given kind, \<open>oe_start_worker\<close> starts the
  thread of the worker with the given index and \<open>oe_join_worker\<close> waits for it and reads the worker.
  \<open>oe_start_sampling\<close> and \<open>oe_stop_sampling\<close> start and join the thread of the aggregator, the second with
  the samples it took. \<open>oe_destroy_worker\<close> is the destructor of a worker without a running thread, which
  closes its engine and may use the logger on the way. \<open>oe_running\<close> and \<open>oe_clear_running\<close> load and clear \<open>g_running_\<close>.
\<close>

record 'w orch_env =
  oe_log :: "'w log_api"
  oe_files :: "'w file_api"
  oe_out :: "'w out_api"
  oe_dump :: "json \<Rightarrow> string + string"
  oe_create_directories :: "string \<Rightarrow> 'w \<Rightarrow> (string + unit) \<times> 'w"
  oe_local_timestamp :: "'w \<Rightarrow> string \<times> 'w"
  oe_format_utc :: "int \<Rightarrow> string"
  oe_new_worker :: "engine_kind \<Rightarrow> job_config \<Rightarrow> ('w, unit) prog"
  oe_start_worker :: "nat \<Rightarrow> ('w, unit) prog"
  oe_join_worker :: "nat \<Rightarrow> 'w \<Rightarrow> (worker_view \<times> 'w) option"
  oe_destroy_worker :: "nat \<Rightarrow> logger \<Rightarrow> ('w, unit) prog"
  oe_start_sampling :: "('w, unit) prog"
  oe_stop_sampling :: "'w \<Rightarrow> ((time_point \<times> worker_view list) list \<times> 'w) option"
  oe_latest_snapshot :: "'w \<Rightarrow> metrics_snapshot \<times> 'w"
  oe_registry :: "'w display_ops registry"
  oe_terminal :: "display_context \<Rightarrow> 'w display_ops"
  oe_now :: "'w \<Rightarrow> time_point \<times> 'w"
  oe_wall_now :: "'w \<Rightarrow> int \<times> 'w"
  oe_sleep_for :: "int \<Rightarrow> 'w \<Rightarrow> 'w"
  oe_running :: "'w \<Rightarrow> bool \<times> 'w"
  oe_clear_running :: "'w \<Rightarrow> 'w"
  oe_install_handlers :: "'w \<Rightarrow> 'w"
  oe_restore_handlers :: "'w \<Rightarrow> 'w"

type_synonym 'w orch_state = "orchestrator \<times> 'w"

definition orchestrator_create :: "cli_options \<Rightarrow> job_config list \<Rightarrow> logger \<Rightarrow> orchestrator" where
  "orchestrator_create options jobs lg =
     \<lparr>or_options = options, or_jobs = jobs, or_output_dir = [],
      or_file_prep = file_preparator_create (opt_keep_files options),
      or_logging_ready = False, or_any_worker_failed = False, or_logger = lg, or_workers = 0, or_threads = [],
      or_sampling = False\<rparr>"

text \<open>Programs on a part of the state.\<close>

definition on_world :: "('w, 'a) prog \<Rightarrow> ('w orch_state, 'a) prog" where
  "on_world m = (\<lambda>(o1, w). case m w of None \<Rightarrow> None | Some (r, w') \<Rightarrow> Some (r, (o1, w')))"

definition on_logger :: "(logger \<times> 'w, 'a) prog \<Rightarrow> ('w orch_state, 'a) prog" where
  "on_logger m = (\<lambda>(o1, w). case m (or_logger o1, w) of
      None \<Rightarrow> None | Some (r, (lg, w')) \<Rightarrow> Some (r, (o1\<lparr>or_logger := lg\<rparr>, w')))"

definition on_files :: "(file_preparator \<times> 'w, 'a) prog \<Rightarrow> ('w orch_state, 'a) prog" where
  "on_files m = (\<lambda>(o1, w). case m (or_file_prep o1, w) of
      None \<Rightarrow> None | Some (r, (p, w')) \<Rightarrow> Some (r, (o1\<lparr>or_file_prep := p\<rparr>, w')))"

definition call :: "('w \<Rightarrow> 'a \<times> 'w) \<Rightarrow> ('w, 'a) prog" where
  "call f = (\<lambda>w. case f w of (a, w') \<Rightarrow> Some (Inr a, w'))"

definition waits :: "('w \<Rightarrow> ('a \<times> 'w) option) \<Rightarrow> ('w, 'a) prog" where
  "waits f = (\<lambda>w. case f w of None \<Rightarrow> None | Some (a, w') \<Rightarrow> Some (Inr a, w'))"

definition checked :: "('w \<Rightarrow> (string + 'a) \<times> 'w) \<Rightarrow> ('w, 'a) prog" where
  "checked f = (\<lambda>w. case f w of (r, w') \<Rightarrow> Some (lift_lib r, w'))"

text \<open>A program that looks at the state first.\<close>

definition withP :: "('s \<Rightarrow> ('s, 'a) prog) \<Rightarrow> ('s, 'a) prog" where
  "withP f = (\<lambda>s. f s s)"

text \<open>
  A local object whose destructor runs \<open>fin\<close> on every way out. A destructor that throws ends the
  process.
\<close>

definition scoped :: "('s, 'a) prog \<Rightarrow> ('s, unit) prog \<Rightarrow> ('s, 'a) prog" where
  "scoped m fin = (\<lambda>s. case m s of
      None \<Rightarrow> None
    | Some (r, s') \<Rightarrow> (case fin s' of Some (Inr _, s'') \<Rightarrow> Some (r, s'') | _ \<Rightarrow> None))"

section \<open>Waiting\<close>

definition kSleepSlice :: int where "kSleepSlice = 100 * 1000000"

abbreviation seconds_ns :: "int \<Rightarrow> int" where "seconds_ns n \<equiv> n * 1000000000"

definition should_stop :: "'w orch_env \<Rightarrow> 'w display_ops \<Rightarrow> 'w \<Rightarrow> bool \<times> 'w" where
  "should_stop env disp w =
     (case oe_running env w of (running, w1) \<Rightarrow>
        if \<not> running then (True, w1) else di_stop_requested disp w1)"

partial_function (option) sleep_loop ::
    "'w orch_env \<Rightarrow> 'w display_ops \<Rightarrow> time_point \<Rightarrow> time_point \<Rightarrow> 'w \<Rightarrow> 'w option" where
  "sleep_loop env disp until now w =
     (if now < until
      then case should_stop env disp w of (stop, w1) \<Rightarrow>
             if stop then Some w1
             else case oe_now env (oe_sleep_for env (min kSleepSlice (until - now)) w1) of
                 (now', w2) \<Rightarrow> sleep_loop env disp until now' w2
      else Some w)"

definition sleep_sliced :: "'w orch_env \<Rightarrow> 'w display_ops \<Rightarrow> time_point \<Rightarrow> 'w \<Rightarrow> 'w option" where
  "sleep_sliced env disp until w =
     (case oe_now env w of (now, w1) \<Rightarrow> sleep_loop env disp until now w1)"

text \<open>The loop of \<open>RunBenchmark\<close>.\<close>

partial_function (option) run_loop ::
    "'w orch_env \<Rightarrow> 'w display_ops \<Rightarrow> time_point \<Rightarrow> time_point \<Rightarrow> 'w \<Rightarrow> (unit result \<times> 'w) option" where
  "run_loop env disp deadline next_tick w =
     (case should_stop env disp w of (stop, w1) \<Rightarrow>
        if stop then Some (Inr (), w1)
        else case oe_now env w1 of (now, w2) \<Rightarrow>
          if now < deadline
          then (case sleep_sliced env disp (min next_tick deadline) w2 of
              None \<Rightarrow> None
            | Some w3 \<Rightarrow>
                (case should_stop env disp w3 of (stop', w4) \<Rightarrow>
                   if stop' then Some (Inr (), w4)
                   else case oe_latest_snapshot env w4 of (snapshot, w5) \<Rightarrow>
                     case di_update disp snapshot w5 of
                       None \<Rightarrow> None
                     | Some (Inl e, w6) \<Rightarrow> Some (Inl e, w6)
                     | Some (Inr _, w6) \<Rightarrow> run_loop env disp deadline (next_tick + seconds_ns 1) w6))
          else Some (Inr (), w2))"

declare sleep_loop.simps [code] run_loop.simps [code]

section \<open>The run\<close>

text \<open>\<open>Start\<close> and \<open>Join\<close> of the workers, by index.\<close>

fun start_workers :: "'w orch_env \<Rightarrow> nat list \<Rightarrow> ('w orch_state, unit) prog" where
  "start_workers env [] = returnP ()"
| "start_workers env (i # is) =
     bindP (on_world (oe_start_worker env i)) (\<lambda>_.
     bindP (modifyP (\<lambda>(o1, w). (o1\<lparr>or_threads := or_threads o1 @ [i]\<rparr>, w))) (\<lambda>_.
       start_workers env is))"

fun join_workers :: "'w orch_env \<Rightarrow> nat list \<Rightarrow> ('w orch_state, worker_view list) prog" where
  "join_workers env [] = returnP []"
| "join_workers env (i # is) =
     bindP (on_world (waits (oe_join_worker env i))) (\<lambda>v.
     bindP (modifyP (\<lambda>(o1, w). (o1\<lparr>or_threads := remove1 i (or_threads o1)\<rparr>, w))) (\<lambda>_.
     bindP (join_workers env is) (\<lambda>vs. returnP (v # vs))))"

text \<open>From the stop of the aggregator, whose thread took \<open>samples\<close>, to the results.\<close>

definition collect_results ::
    "'w orch_env \<Rightarrow> cli_options \<Rightarrow> aggregator \<Rightarrow> bool \<Rightarrow> worker_view list \<Rightarrow>
     (time_point \<times> worker_view list) list \<Rightarrow> ('w, benchmark_results) prog" where
  "collect_results env opts agg was_interrupted views samples =
     bindP (call (oe_now env)) (\<lambda>end_time.
     bindP (call (oe_now env)) (\<lambda>tail_now.
     bindP (call (oe_now env)) (\<lambda>now.
       let a = take_final_snapshot end_time tail_now now views
                 (aggregator_stop end_time (aggregator_run 0 samples agg))
       in bindP (if ag_end_time a > ag_start_time a then returnP 0 else call (oe_now env)) (\<lambda>late_now.
          returnP ((build_results (oe_format_utc env) opts late_now views a)\<lparr>br_interrupted := was_interrupted\<rparr>)))))"

text \<open>Between the start of the workers and the summary.\<close>

definition supervise ::
    "'w orch_env \<Rightarrow> 'w display_ops \<Rightarrow> cli_options \<Rightarrow> nat \<Rightarrow> aggregator \<Rightarrow> ('w orch_state, benchmark_results) prog" where
  "supervise env disp opts workers agg =
     bindP (start_workers env [0..<workers]) (\<lambda>_.
     bindP (on_world (call (oe_now env))) (\<lambda>begin_time.
     bindP (on_world (call (oe_now env))) (\<lambda>tick_base.
     bindP (on_world (run_loop env disp (begin_time + seconds_ns (opt_runtime_seconds opts))
              (tick_base + seconds_ns 1))) (\<lambda>_.
     bindP (on_world (call (should_stop env disp))) (\<lambda>was_interrupted.
     bindP (on_world (modifyP (oe_clear_running env))) (\<lambda>_.
     bindP (join_workers env [0..<workers]) (\<lambda>views.
     bindP (modifyP (\<lambda>(o1, w).
              (o1\<lparr>or_any_worker_failed := or_any_worker_failed o1 \<or> list_ex vw_failed views\<rparr>, w))) (\<lambda>_.
     bindP (on_world (waits (oe_stop_sampling env))) (\<lambda>samples.
     bindP (modifyP (\<lambda>(o1, w). (o1\<lparr>or_sampling := False\<rparr>, w))) (\<lambda>_.
     bindP (on_world (collect_results env opts agg was_interrupted views samples)) (\<lambda>results.
     bindP (on_world (di_summary disp results)) (\<lambda>_. returnP results))))))))))))"

text \<open>From the first call of the display, which is shut down on every way out.\<close>

definition run_with_display ::
    "'w orch_env \<Rightarrow> 'w display_ops \<Rightarrow> cli_options \<Rightarrow> nat \<Rightarrow> ('w orch_state, benchmark_results) prog" where
  "run_with_display env disp opts workers =
     scoped
       (bindP (on_world (di_init disp (opt_runtime_seconds opts))) (\<lambda>_.
        bindP (on_world (call (oe_now env))) (\<lambda>start_time.
        bindP (on_world (call (oe_wall_now env))) (\<lambda>wall.
        bindP (on_world (oe_start_sampling env)) (\<lambda>_.
        bindP (modifyP (\<lambda>(o1, w). (o1\<lparr>or_sampling := True\<rparr>, w))) (\<lambda>_.
        bindP (on_world (modifyP (oe_install_handlers env))) (\<lambda>_.
          scoped
            (supervise env disp opts workers
               (aggregator_start start_time wall (aggregator_create workers (opt_runtime_seconds opts))))
            (on_world (modifyP (oe_restore_handlers env))))))))))
       (on_world (di_shutdown disp))"

definition run_benchmark :: "'w orch_env \<Rightarrow> ('w orch_state, benchmark_results) prog" where
  "run_benchmark env = withP (\<lambda>(o1, w).
     case display_create (oe_registry env) (oe_terminal env) (opt_ui_backend (or_options o1))
            (make_display_context (or_options o1) (or_jobs o1) (path_append (or_output_dir o1) ''cfio.log'')) of
       Inl e \<Rightarrow> throwP e
     | Inr disp \<Rightarrow> run_with_display env disp (or_options o1) (length (or_jobs o1)))"

section \<open>The other steps\<close>

definition setup_output_directory :: "'w orch_env \<Rightarrow> ('w orch_state, unit) prog" where
  "setup_output_directory env = withP (\<lambda>(o1, w).
     (if opt_output_dir (or_options o1) = []
      then bindP (on_world (call (oe_local_timestamp env))) (\<lambda>stamp.
             modifyP (\<lambda>(o1, w). (o1\<lparr>or_output_dir :=
               path_append ''cfio-results'' (jc_name (hd (or_jobs o1)) @ ''-'' @ stamp)\<rparr>, w)))
      else modifyP (\<lambda>(o1, w). (o1\<lparr>or_output_dir := opt_output_dir (or_options o1)\<rparr>, w))))"

definition create_output_directory :: "'w orch_env \<Rightarrow> ('w orch_state, unit) prog" where
  "create_output_directory env = withP (\<lambda>(o1, w).
     on_world (checked (oe_create_directories env (or_output_dir o1))))"

definition init_logging :: "'w orch_env \<Rightarrow> ('w orch_state, unit) prog" where
  "init_logging env = withP (\<lambda>(o1, w).
     bindP (on_logger (logger_shutdown (oe_log env))) (\<lambda>_.
     bindP (on_logger (logger_init (oe_log env) (path_append (or_output_dir o1) ''cfio.log'')
              (opt_verbose (or_options o1)))) (\<lambda>_.
       modifyP (\<lambda>(o1, w). (o1\<lparr>or_logging_ready := True\<rparr>, w)))))"

fun precreate_files :: "'w orch_env \<Rightarrow> job_config list \<Rightarrow> ('w orch_state, unit) prog" where
  "precreate_files env [] = returnP ()"
| "precreate_files env (job # jobs) =
     bindP (on_files (create_and_fill (oe_files env) job)) (\<lambda>_. precreate_files env jobs)"

fun create_workers :: "'w orch_env \<Rightarrow> job_config list \<Rightarrow> ('w orch_state, unit) prog" where
  "create_workers env [] = returnP ()"
| "create_workers env (job # jobs) =
     (case create_engine (jc_engine job) of
        Inl e \<Rightarrow> throwP e
      | Inr kind \<Rightarrow> 
          bindP (on_world (oe_new_worker env kind job)) (\<lambda>_.
          bindP (modifyP (\<lambda>(o1, w). (o1\<lparr>or_workers := or_workers o1 + 1\<rparr>, w))) (\<lambda>_.
            create_workers env jobs)))"

definition export_results :: "'w orch_env \<Rightarrow> benchmark_results \<Rightarrow> ('w orch_state, unit) prog" where
  "export_results env results = withP (\<lambda>(o1, w).
     bindP (on_world (export_json (oe_out env) (oe_dump env) results (or_output_dir o1))) (\<lambda>_.
     bindP (on_logger logger_get) (\<lambda>_.
     bindP (on_world (export_csv (oe_out env) (br_time_series results) (or_output_dir o1))) (\<lambda>_.
       on_logger logger_get))))"

definition cleanup_files :: "'w orch_env \<Rightarrow> ('w orch_state, unit) prog" where
  "cleanup_files env = on_files (\<lambda>s. Some (Inr (), file_cleanup (oe_files env) s))"

text \<open>The \<open>try\<close> block of \<open>Run\<close>.\<close>

definition orchestrate :: "'w orch_env \<Rightarrow> ('w orch_state, benchmark_results) prog" where
  "orchestrate env = withP (\<lambda>(o1, w).
     bindP (setup_output_directory env) (\<lambda>_.
     bindP (create_output_directory env) (\<lambda>_.
     bindP (init_logging env) (\<lambda>_.
     bindP (on_logger logger_get) (\<lambda>_.
     bindP (bindP (on_logger logger_get) (\<lambda>_. precreate_files env (or_jobs o1))) (\<lambda>_.
     bindP (bindP (on_logger logger_get) (\<lambda>_. create_workers env (or_jobs o1))) (\<lambda>_.
     bindP (bindP (on_logger logger_get) (\<lambda>_. run_benchmark env)) (\<lambda>results.
     bindP (export_results env results) (\<lambda>_.
     bindP (cleanup_files env) (\<lambda>_. returnP results))))))))))"

definition orchestrator_run :: "'w orch_env \<Rightarrow> ('w orch_state, int) prog" where
  "orchestrator_run env = (\<lambda>s.
     case orchestrate env s of
       None \<Rightarrow> None
     | Some (Inr _, (o1, w)) \<Rightarrow> Some (Inr (if or_any_worker_failed o1 then 1 else 0), (o1, w))
     | Some (Inl NonStdError, s1) \<Rightarrow> Some (Inl NonStdError, s1)
     | Some (Inl e, (o1, w)) \<Rightarrow>
         (if or_logging_ready o1 then bindP (on_logger logger_get) (\<lambda>_. returnP 1) (o1, w)
          else Some (Inr 1, (o1, w))))"

text \<open>
  The destructor of the orchestrator: the aggregator goes first, which stops and joins its thread if
  \<open>Stop\<close> was not reached; then, worker for worker, a thread that is still joinable is joined and
  the worker goes, then the file preparator. An exception in a destructor ends the process.
\<close>

fun destroy_workers :: "'w orch_env \<Rightarrow> nat list \<Rightarrow> ('w orch_state, unit) prog" where
  "destroy_workers env [] = returnP ()"
| "destroy_workers env (i # is) =
     (\<lambda>(o1, w).
        bindP (if i \<in> set (or_threads o1) then join_workers env [i] else returnP []) (\<lambda>_ (o2, w2).
          case oe_destroy_worker env i (or_logger o2) w2 of
            Some (Inr _, w3) \<Rightarrow> destroy_workers env is (o2, w3)
          | _ \<Rightarrow> None) (o1, w))"

definition orchestrator_destroy :: "'w orch_env \<Rightarrow> ('w orch_state, unit) prog" where
  "orchestrator_destroy env = withP (\<lambda>(o1, w).
     bindP (if or_sampling o1 then on_world (waits (oe_stop_sampling env)) else returnP []) (\<lambda>_.
     bindP (destroy_workers env [0..<or_workers o1]) (\<lambda>_.
       modifyP (\<lambda>(o1, w). (o1, file_preparator_destroy (oe_files env) (or_file_prep o1, w))))))"

section \<open>The program\<close>

text \<open>
  \<open>main\<close> after the command line was parsed. The orchestrator, a local object, goes last. An exception
  that leaves \<open>main\<close> ends the process. \<open>qt_gui\<close> is
  \<open>RunQtGui\<close> when the program is built with it.
\<close>

definition main_program ::
    "'w orch_env \<Rightarrow> 'j json_api \<Rightarrow> (string \<Rightarrow> string option) \<Rightarrow> 'r csv_api \<Rightarrow>
     (cli_options \<Rightarrow> job_config list \<Rightarrow> (logger \<times> 'w, int) prog) option \<Rightarrow>
     cli_options \<Rightarrow> (logger \<times> 'w, int) prog" where
  "main_program env japi files capi qt_gui opts =
     bindP (logger_init (oe_log env) ''cfio.log'' (opt_verbose opts)) (\<lambda>_.
     bindP logger_get (\<lambda>_.
       case main_load japi files capi opts of
         Inl NonStdError \<Rightarrow> throwP NonStdError
       | Inl e \<Rightarrow> bindP (logger_shutdown (oe_log env)) (\<lambda>_. returnP 1)
       | Inr jobs \<Rightarrow>
           if qt_gui \<noteq> None \<and> opt_ui_backend opts = ''qt''
           then bindP (the qt_gui opts jobs) (\<lambda>rc.
                bindP (logger_shutdown (oe_log env)) (\<lambda>_. returnP rc))
           else (\<lambda>(lg, w).
             case bindP (orchestrator_run env) (\<lambda>rc.
                  bindP (on_logger (logger_shutdown (oe_log env))) (\<lambda>_.
                  bindP (orchestrator_destroy env) (\<lambda>_. returnP rc))) (orchestrator_create opts jobs lg, w) of
               None \<Rightarrow> None
             | Some (r, (o1, w1)) \<Rightarrow> Some (r, (or_logger o1, w1)))))"

text \<open>\<open>main\<close> with the values that the command line library stored.\<close>

definition main_after_parse ::
    "'w orch_env \<Rightarrow> 'j json_api \<Rightarrow> (string \<Rightarrow> string option) \<Rightarrow> 'r csv_api \<Rightarrow>
     (cli_options \<Rightarrow> job_config list \<Rightarrow> (logger \<times> 'w, int) prog) option \<Rightarrow>
     bool \<Rightarrow> bool \<Rightarrow> string option \<Rightarrow> cli_options \<Rightarrow> (logger \<times> 'w, int) prog" where
  "main_after_parse env japi files capi qt_gui direct_flag no_direct_flag engine_opt opts =
     main_program env japi files capi qt_gui (set_overrides direct_flag no_direct_flag engine_opt opts)"

end
