(* ===== verification/Orchestrator_Run.thy ===== *)
theory Orchestrator_Run
  imports Orchestrator
begin

text \<open>
  What a run of the orchestrator guarantees. The proofs use a small calculus of postconditions for
  programs; one lemma for each step says how it changes the orchestrator.
\<close>

section \<open>Postconditions\<close>

text \<open>\<open>post m s Q\<close>: if \<open>m\<close> returns or throws from \<open>s\<close>, then \<open>Q\<close> holds of its result and the state it leaves.\<close>

definition post :: "('s, 'a) prog \<Rightarrow> 's \<Rightarrow> ('a result \<Rightarrow> 's \<Rightarrow> bool) \<Rightarrow> bool" where
  "post m s Q \<longleftrightarrow> (\<forall>r s'. m s = Some (r, s') \<longrightarrow> Q r s')"

named_theorems post_intros "one rule for every way to build a program"

lemma postD: "post m s Q \<Longrightarrow> m s = Some (r, s') \<Longrightarrow> Q r s'"
  by (simp add: post_def)

lemma post_mono: "post m s P \<Longrightarrow> (\<And>r s'. P r s' \<Longrightarrow> Q r s') \<Longrightarrow> post m s Q"
  by (auto simp: post_def)

lemma post_bind:
  assumes "post m s P"
    and "\<And>e s'. P (Inl e) s' \<Longrightarrow> Q (Inl e) s'" "\<And>a s'. P (Inr a) s' \<Longrightarrow> post (f a) s' Q"
  shows "post (bindP m f) s Q"
  using assms unfolding post_def bindP_def by (fastforce split: option.splits sum.splits)

lemma post_return [post_intros]: "Q (Inr a) s \<Longrightarrow> post (returnP a) s Q"
  by (simp add: post_def returnP_def)

lemma post_throw [post_intros]: "Q (Inl e) s \<Longrightarrow> post (throwP e) s Q"
  by (simp add: post_def throwP_def)

lemma post_modify [post_intros]: "Q (Inr ()) (f s) \<Longrightarrow> post (modifyP f) s Q"
  by (simp add: post_def modifyP_def)

lemma post_with [post_intros]: "post (f s) s Q \<Longrightarrow> post (withP f) s Q"
  by (simp add: post_def withP_def)

lemma post_world: "(\<And>r w'. m w = Some (r, w') \<Longrightarrow> Q r (o1, w')) \<Longrightarrow> post (on_world m) (o1, w) Q"
  by (auto simp: post_def on_world_def split: option.splits)

lemma post_logger:
  "(\<And>r lg w'. m (or_logger o1, w) = Some (r, (lg, w')) \<Longrightarrow> Q r (o1\<lparr>or_logger := lg\<rparr>, w')) \<Longrightarrow>
     post (on_logger m) (o1, w) Q"
  by (auto simp: post_def on_logger_def split: option.splits)

lemma post_files:
  "(\<And>r p w'. m (or_file_prep o1, w) = Some (r, (p, w')) \<Longrightarrow> Q r (o1\<lparr>or_file_prep := p\<rparr>, w')) \<Longrightarrow>
     post (on_files m) (o1, w) Q"
  by (auto simp: post_def on_files_def split: option.splits)

lemma post_scoped:
  assumes "post m s (\<lambda>r s'. post fin s' (\<lambda>r' s''. r' = Inr () \<longrightarrow> Q r s''))"
  shows "post (scoped m fin) s Q"
  using assms unfolding post_def scoped_def by (fastforce split: option.splits sum.splits)

text \<open>A step of the world only, followed by the rest.\<close>

lemma post_world_bind:
  assumes "\<And>e w'. Q (Inl e) (o1, w')" "\<And>a w'. m w = Some (Inr a, w') \<Longrightarrow> post (f a) (o1, w') Q"
  shows "post (bindP (on_world m) f) (o1, w) Q"
  by (rule post_bind [where P = "\<lambda>r s. \<exists>w'. s = (o1, w') \<and> (\<forall>a. r = Inr a \<longrightarrow> m w = Some (Inr a, w'))"])
    (auto intro!: post_world assms)

lemma post_modify_bind: "post (g ()) (f s) Q \<Longrightarrow> post (bindP (modifyP f) g) s Q"
  by (simp add: post_def bindP_def modifyP_def)

lemma call_Inr [simp]: "call f w = Some (Inl e, w') \<longleftrightarrow> False"
  by (simp add: call_def split: prod.splits)

lemma waits_Inr [simp]: "waits f w = Some (Inl e, w') \<longleftrightarrow> False"
  by (simp add: waits_def split: prod.splits option.splits)

section \<open>The steps\<close>

text \<open>The part of the orchestrator that a run of the benchmark leaves alone.\<close>

definition kept :: "orchestrator \<Rightarrow> orchestrator \<Rightarrow> bool" where
  "kept o1 o2 \<longleftrightarrow>
     o2 = o1\<lparr>or_threads := or_threads o2, or_any_worker_failed := or_any_worker_failed o2,
             or_sampling := or_sampling o2\<rparr>"

lemma kept_refl [simp]: "kept o1 o1"
  by (simp add: kept_def)

lemma kept_upd [simp]:
  "kept o1 (o2\<lparr>or_threads := ts\<rparr>) = kept o1 o2"
  "kept o1 (o2\<lparr>or_any_worker_failed := b\<rparr>) = kept o1 o2"
  "kept o1 (o2\<lparr>or_sampling := b\<rparr>) = kept o1 o2"
  by (cases o1; cases o2; simp add: kept_def)+

lemma start_workers_post:
  "post (start_workers env is) (o1, w)
     (\<lambda>r s. \<exists>ks w'. s = (o1\<lparr>or_threads := or_threads o1 @ ks\<rparr>, w') \<and> (is_ok r \<longrightarrow> ks = is))"
proof (induction "is" arbitrary: o1 w)
  case Nil
  show ?case by (auto intro!: post_return exI [of _ "[]"])
next
  case (Cons i "is")
  show ?case
    unfolding start_workers.simps
  proof (rule post_world_bind)
    show "\<exists>ks w''. (o1, w') = (o1\<lparr>or_threads := or_threads o1 @ ks\<rparr>, w'') \<and>
        (is_ok (Inl e :: unit result) \<longrightarrow> ks = i # is)" for e w'
      by (auto intro!: exI [of _ "[]"])
  qed (auto intro!: post_modify_bind post_mono [OF Cons.IH])
qed

lemma join_workers_post:
  "post (join_workers env is) (o1, w)
     (\<lambda>r s. \<exists>vs w'. r = Inr vs \<and> length vs = length is \<and>
        s = (o1\<lparr>or_threads := fold remove1 is (or_threads o1)\<rparr>, w'))"
proof (induction "is" arbitrary: o1 w)
  case Nil
  show ?case by (auto intro!: post_return)
next
  case (Cons i "is")
  show ?case
    unfolding join_workers.simps
    apply (rule post_bind [OF post_world, where P = "\<lambda>r s. is_ok r \<and> fst s = o1"])
      apply (auto simp: is_ok_def split: sum.splits)[1]
     apply simp
    apply (clarsimp intro!: post_modify_bind)
    apply (rule post_bind [OF Cons.IH])
     apply (auto intro!: post_return)
    done
qed

lemma remove_all: "fold remove1 is (is @ ts) = ts"
  by (induction "is") simp_all

lemma collect_results_post:
  assumes "collect_results env opts agg b views samples w = Some (r, w')"
  shows "\<exists>results. r = Inr results \<and> length (br_jobs results) = length views \<and>
    br_interrupted results = b \<and> map jr_failed (br_jobs results) = map vw_failed views"
proof -
  have "post (collect_results env opts agg b views samples) w
     (\<lambda>r w'. \<exists>results. r = Inr results \<and> length (br_jobs results) = length views \<and>
        br_interrupted results = b \<and> map jr_failed (br_jobs results) = map vw_failed views)"
    unfolding collect_results_def Let_def
    apply (rule post_bind [where P = "\<lambda>r s. is_ok r"], simp add: post_def call_def is_ok_def split: prod.splits, simp)+
    apply (rule post_bind [where P = "\<lambda>r s. is_ok r"])
      apply (simp add: post_def call_def returnP_def is_ok_def split: prod.splits)
     apply simp
    apply (rule post_return)
    apply (simp add: build_results_def Let_def job_result_def o_def)
    done
  then show ?thesis using assms by (rule postD)
qed

text \<open>What a run of the benchmark does to the orchestrator, and what its results say.\<close>

definition ran :: "orchestrator \<Rightarrow> orchestrator \<Rightarrow> benchmark_results \<Rightarrow> bool" where
  "ran o1 o2 results \<longleftrightarrow>
     kept o1 o2 \<and> or_threads o2 = or_threads o1 \<and> \<not> or_sampling o2 \<and>
     length (br_jobs results) = length (or_jobs o1) \<and>
     or_any_worker_failed o2 = (or_any_worker_failed o1 \<or> list_ex jr_failed (br_jobs results))"

lemma supervise_post:
  assumes "or_threads o1 = []"
  shows "post (supervise env disp opts (length (or_jobs o1)) agg) (o1, w)
    (\<lambda>r (o2, w2). kept o1 o2 \<and> (\<forall>results. r = Inr results \<longrightarrow> ran o1 o2 results))"
  unfolding supervise_def
  apply (rule post_bind [OF start_workers_post])
   apply clarsimp
  apply (clarsimp simp: assms)
  apply (rule post_world_bind, simp)+
  apply (rule post_bind [OF join_workers_post], simp)
  apply (clarsimp intro!: post_modify_bind)
  apply (rule post_world_bind, simp)
  apply (clarsimp intro!: post_modify_bind)
  apply (rule post_world_bind, simp)
  apply (drule collect_results_post)
  apply clarsimp
  apply (rule post_world_bind, simp)
  apply (rule post_return)
  apply (simp add: ran_def remove_all [where ts = "[]", simplified] assms)
  apply (simp add: list_ex_iff)
  by (metis (no_types, lifting) image_iff list.set_map)

lemma kept_threads: "kept o1 (o1\<lparr>or_sampling := b\<rparr>)" "kept (o1\<lparr>or_sampling := b\<rparr>) o2 = kept o1 o2"
  by (cases o1; cases o2; auto simp: kept_def)+

lemma post_release: "(\<And>w'. Q (o1, w')) \<Longrightarrow> post (on_world fin) (o1, w) (\<lambda>r' s. r' = Inr () \<longrightarrow> Q s)"
  by (rule post_world) simp

lemma run_with_display_post:
  assumes "or_threads o1 = []"
  shows "post (run_with_display env disp opts (length (or_jobs o1))) (o1, w)
    (\<lambda>r (o2, w2). kept o1 o2 \<and> (\<forall>results. r = Inr results \<longrightarrow> ran o1 o2 results))"
    (is "post _ _ ?Q")
proof -
  have inner: "post (scoped (supervise env disp opts (length (or_jobs o1)) agg)
      (on_world (modifyP (oe_restore_handlers env)))) (o1\<lparr>or_sampling := True\<rparr>, w') ?Q" for agg w'
  proof (rule post_scoped)
    show "post (supervise env disp opts (length (or_jobs o1)) agg) (o1\<lparr>or_sampling := True\<rparr>, w')
      (\<lambda>r s'. post (on_world (modifyP (oe_restore_handlers env))) s' (\<lambda>r' s''. r' = Inr () \<longrightarrow> ?Q r s''))"
      by (rule post_mono [OF supervise_post [where ?o1.0 = "o1\<lparr>or_sampling := True\<rparr>", simplified, OF assms]])
        (auto intro!: post_release simp: ran_def kept_threads)
  qed
  show ?thesis
    unfolding run_with_display_def
    apply (rule post_scoped)
    apply (rule post_world_bind, rule post_release, simp)+
    apply (rule post_modify_bind, unfold prod.case)
    apply (rule post_world_bind, rule post_release, simp)
    apply (rule post_mono [OF inner])
    apply (auto intro!: post_release)
    done
qed

lemma run_benchmark_post:
  assumes "or_threads o1 = []"
  shows "post (run_benchmark env) (o1, w)
    (\<lambda>r (o2, w2). kept o1 o2 \<and> (\<forall>results. r = Inr results \<longrightarrow> ran o1 o2 results))"
  unfolding run_benchmark_def
  by (rule post_with, unfold prod.case)
    (auto intro!: post_throw run_with_display_post [OF assms] split: sum.split)

section \<open>The whole run\<close>

text \<open>The orchestrator with more files tracked.\<close>

definition tracks :: "string list \<Rightarrow> orchestrator \<Rightarrow> orchestrator \<Rightarrow> bool" where
  "tracks paths o1 o2 \<longleftrightarrow>
     o2 = o1\<lparr>or_file_prep := (or_file_prep o1)\<lparr>fp_created := fp_created (or_file_prep o2)\<rparr>\<rparr> \<and>
     map fst (fp_created (or_file_prep o2)) = map fst (fp_created (or_file_prep o1)) @ paths"

lemma tracks_refl: "tracks [] o1 o1"
  by (simp add: tracks_def)

lemma tracks_trans:
  assumes "tracks ps o1 o2" "tracks qs o2 o3"
  shows "tracks (ps @ qs) o1 o3"
proof -
  have "o3 = o2\<lparr>or_file_prep := (or_file_prep o2)\<lparr>fp_created := fp_created (or_file_prep o3)\<rparr>\<rparr>"
    using assms(2) by (simp only: tracks_def)
  moreover have "o2 = o1\<lparr>or_file_prep := (or_file_prep o1)\<lparr>fp_created := fp_created (or_file_prep o2)\<rparr>\<rparr>"
    using assms(1) by (simp only: tracks_def)
  ultimately have "o3 = o1\<lparr>or_file_prep := (or_file_prep o1)\<lparr>fp_created := fp_created (or_file_prep o3)\<rparr>\<rparr>"
    by (cases "or_file_prep o1"; cases "or_file_prep o2"; cases "or_file_prep o3"; cases o1; cases o2; cases o3; simp)
  then show ?thesis using assms by (simp add: tracks_def)
qed

lemma create_and_fill_tracks:
  assumes "create_and_fill api config (or_file_prep o1, w) = Some (r, (p', w'))"
  shows "tracks (if is_ok r then [jc_filename config] else []) o1 (o1\<lparr>or_file_prep := p'\<rparr>)"
  using assms
  by (auto simp: create_and_fill_def tracks_def split: prod.splits option.splits sum.splits if_splits)

lemma precreate_files_post:
  "post (precreate_files env jobs) (o1, w)
     (\<lambda>r (o2, w2). \<exists>ps. tracks ps o1 o2 \<and> (is_ok r \<longrightarrow> ps = map jc_filename jobs))"
proof (induction jobs arbitrary: o1 w)
  case Nil
  show ?case by (auto intro!: post_return tracks_refl)
next
  case (Cons job jobs)
  have step: "post (on_files (create_and_fill (oe_files env) job)) (o1, w)
      (\<lambda>r (o2, w2). tracks (if is_ok r then [jc_filename job] else []) o1 o2)"
    by (rule post_files, drule create_and_fill_tracks) simp
  show ?case
    unfolding precreate_files.simps
  proof (rule post_bind [OF step], clarsimp, blast, clarsimp)
    fix o2 w2
    assume "tracks [jc_filename job] o1 o2"
    then show "post (precreate_files env jobs) (o2, w2)
        (\<lambda>r (o2, w2). \<exists>ps. tracks ps o1 o2 \<and> (is_ok r \<longrightarrow> ps = jc_filename job # map jc_filename jobs))"
      by (intro post_mono [OF Cons.IH]) (auto dest: tracks_trans)
  qed
qed

lemma create_workers_post:
  "post (create_workers env jobs) (o1, w)
     (\<lambda>r (o2, w2). o2 = o1\<lparr>or_workers := or_workers o2\<rparr> \<and>
        (is_ok r \<longrightarrow> or_workers o2 = or_workers o1 + length jobs))"
proof (induction jobs arbitrary: o1 w)
  case Nil
  show ?case by (auto intro!: post_return)
next
  case (Cons job jobs)
  have upd: "o2 = o1\<lparr>or_workers := or_workers o2\<rparr>" if "o2 = (o1\<lparr>or_workers := n\<rparr>)\<lparr>or_workers := or_workers o2\<rparr>" for o2 n
    using that by simp
  show ?case
    by (cases "create_engine (jc_engine job)")
      (auto intro!: post_throw post_world_bind post_modify_bind post_mono [OF Cons.IH] intro: upd)
qed

lemma init_logging_post:
  "post (init_logging env) (o1, w)
     (\<lambda>r (o2, w2). if is_ok r then \<exists>lg. lg \<noteq> None \<and> o2 = o1\<lparr>or_logging_ready := True, or_logger := lg\<rparr>
        else \<exists>lg. o2 = o1\<lparr>or_logger := lg\<rparr>)"
  unfolding init_logging_def
  apply (rule post_with, unfold prod.case)
  apply (rule post_bind [OF post_logger, where P = "\<lambda>r (o2, w2). is_ok r \<and> (\<exists>lg. o2 = o1\<lparr>or_logger := lg\<rparr>)"])
    apply (auto simp: logger_shutdown_def Let_def)[1]
   apply simp
  apply (clarsimp)
  apply (rule post_bind [OF post_logger,
    where P = "\<lambda>r (o2, w2). \<exists>lg. (is_ok r \<longrightarrow> lg \<noteq> None) \<and> o2 = o1\<lparr>or_logger := lg\<rparr>"])
    apply (auto simp: logger_init_def split: if_splits sum.splits prod.splits)[1]
   apply auto[1]
  apply (clarsimp intro!: post_modify)
  by (cases o1; auto)

lemma setup_output_directory_post:
  "post (setup_output_directory env) (o1, w) (\<lambda>r (o2, w2). is_ok r \<and> (\<exists>d. o2 = o1\<lparr>or_output_dir := d\<rparr>))"
  unfolding setup_output_directory_def
  apply (rule post_with, unfold prod.case, split if_split, intro conjI impI)
   apply (rule post_bind [OF post_world, where P = "\<lambda>r s. is_ok r \<and> fst s = o1"])
     apply (auto simp: is_ok_def intro!: post_modify split: sum.splits)
  done

text \<open>Every state the run passes through: a logger that is ready is there.\<close>

definition logged :: "orchestrator \<Rightarrow> bool" where
  "logged o1 \<longleftrightarrow> (or_logging_ready o1 \<longrightarrow> or_logger o1 \<noteq> None)"

lemma post_get: "or_logger o1 \<noteq> None \<Longrightarrow> Q (Inr ()) (o1, w) \<Longrightarrow> post (on_logger logger_get) (o1, w) Q"
  by (rule post_logger) (cases o1, auto simp: logger_get_def)

lemma post_get_bind:
  "or_logger o1 \<noteq> None \<Longrightarrow> post (f ()) (o1, w) Q \<Longrightarrow> post (bindP (on_logger logger_get) f) (o1, w) Q"
  by (auto simp: post_def bindP_def on_logger_def logger_get_def split: if_splits)

lemma export_results_post:
  assumes "or_logger o1 \<noteq> None"
  shows "post (export_results env results) (o1, w) (\<lambda>r s. fst s = o1)"
  unfolding export_results_def
  by (rule post_with, unfold prod.case)
    (intro post_world_bind post_get_bind post_get assms fst_conv)

text \<open>What holds when the run came through, and at least when it did not.\<close>

definition completed :: "job_config list \<Rightarrow> orchestrator \<Rightarrow> benchmark_results \<Rightarrow> bool" where
  "completed jobs o2 results \<longleftrightarrow>
     length (br_jobs results) = length jobs \<and>
     or_any_worker_failed o2 = list_ex jr_failed (br_jobs results) \<and>
     or_workers o2 = length jobs \<and> or_threads o2 = [] \<and> \<not> or_sampling o2 \<and>
     map fst (fp_created (or_file_prep o2)) = map jc_filename jobs \<and> fp_cleaned (or_file_prep o2)"

text \<open>The run after its logger has moved into the output directory.\<close>

definition started :: "job_config list \<Rightarrow> orchestrator \<Rightarrow> bool" where
  "started jobs o1 \<longleftrightarrow>
     or_jobs o1 = jobs \<and> or_logger o1 \<noteq> None \<and> \<not> or_any_worker_failed o1 \<and> or_threads o1 = []"

lemma started_logged: "started jobs o1 \<Longrightarrow> logged o1"
  by (simp add: started_def logged_def)

lemma started_files: "tracks ps o1 o2 \<Longrightarrow> started jobs o1 \<Longrightarrow>
  started jobs o2 \<and> or_workers o2 = or_workers o1 \<and>
  map fst (fp_created (or_file_prep o2)) = map fst (fp_created (or_file_prep o1)) @ ps"
  unfolding tracks_def started_def by (cases o1; cases o2) simp

lemma started_workers: "o2 = o1\<lparr>or_workers := n\<rparr> \<Longrightarrow> started jobs o1 \<Longrightarrow>
  started jobs o2 \<and> or_file_prep o2 = or_file_prep o1"
  by (simp add: started_def)

lemma kept_fields: "kept o1 o2 \<Longrightarrow>
  or_jobs o2 = or_jobs o1 \<and> or_logger o2 = or_logger o1 \<and> or_workers o2 = or_workers o1 \<and>
  or_file_prep o2 = or_file_prep o1 \<and> or_logging_ready o2 = or_logging_ready o1"
  unfolding kept_def by (cases o1; cases o2) simp

lemma cleanup_files_post:
  "post (cleanup_files env) (o1, w) (\<lambda>r (o2, w2). r = Inr () \<and>
     (\<exists>p. o2 = o1\<lparr>or_file_prep := p\<rparr> \<and> fp_created p = fp_created (or_file_prep o1) \<and> fp_cleaned p))"
proof -
  have "\<exists>q. o1\<lparr>or_file_prep := p\<rparr> = o1\<lparr>or_file_prep := q\<rparr> \<and> fp_created q = fp_created (or_file_prep o1) \<and> fp_cleaned q"
    if "file_cleanup (oe_files env) (or_file_prep o1, w) = (p, w2)" for p w2
    using that by (intro exI [of _ p]) (auto simp: file_cleanup_def split: if_splits)
  then show ?thesis unfolding cleanup_files_def by (intro post_files) auto
qed

text \<open>From the creation of the files to the end.\<close>

lemma started_post:
  assumes "started jobs o1" "or_workers o1 = 0" "fp_created (or_file_prep o1) = []"
  shows "post
     (bindP (on_logger logger_get) (\<lambda>_.
      bindP (bindP (on_logger logger_get) (\<lambda>_. precreate_files env jobs)) (\<lambda>_.
      bindP (bindP (on_logger logger_get) (\<lambda>_. create_workers env jobs)) (\<lambda>_.
      bindP (bindP (on_logger logger_get) (\<lambda>_. run_benchmark env)) (\<lambda>results.
      bindP (export_results env results) (\<lambda>_.
      bindP (cleanup_files env) (\<lambda>_. returnP results)))))))
     (o1, w) (\<lambda>r (o2, w2). logged o2 \<and> (\<forall>results. r = Inr results \<longrightarrow> completed jobs o2 results))"
    (is "post _ _ ?Q")
proof -
  have there: "or_logger o1 \<noteq> None" if "started jobs o1" for o1 using that by (simp add: started_def)
  have finish: "post (bindP (export_results env results) (\<lambda>_. bindP (cleanup_files env) (\<lambda>_. returnP results))) (o4, w4) ?Q"
    if o3: "started jobs o3" "or_workers o3 = length jobs"
      "map fst (fp_created (or_file_prep o3)) = map jc_filename jobs" and ran: "ran o3 o4 results" for o3 o4 w4 results
  proof -
    have k: "or_logger o4 \<noteq> None" "or_workers o4 = length jobs" "or_file_prep o4 = or_file_prep o3"
      using o3(1,2) ran kept_fields [of o3 o4] by (simp_all add: started_def ran_def)
    show ?thesis
      apply (rule post_bind [OF export_results_post [OF k(1)]])
       apply (use k(1) in \<open>clarsimp simp: logged_def\<close>)
      apply (clarsimp simp: prod_eq_iff)
      apply (rule post_bind [OF cleanup_files_post])
       apply simp
      apply (clarsimp intro!: post_return)
      apply (use o3 ran k in \<open>clarsimp simp: logged_def completed_def ran_def started_def\<close>)
      done
  qed
  have bench: "post (bindP (bindP (on_logger logger_get) (\<lambda>_. run_benchmark env)) (\<lambda>results.
      bindP (export_results env results) (\<lambda>_. bindP (cleanup_files env) (\<lambda>_. returnP results)))) (o3, w3) ?Q"
    if o3: "started jobs o3" "or_workers o3 = length jobs"
      "map fst (fp_created (or_file_prep o3)) = map jc_filename jobs" for o3 w3
    apply (rule post_bind [OF post_get_bind [OF there [OF o3(1)] run_benchmark_post]])
      apply (use o3(1) in \<open>simp add: started_def\<close>)
     apply (use started_logged [OF o3(1)] in \<open>auto dest: kept_fields simp: logged_def\<close>)[1]
    apply (clarsimp simp del: bindP_apply)
    apply (rule finish [OF o3])
    apply simp
    done
  have workers: "post (bindP (bindP (on_logger logger_get) (\<lambda>_. create_workers env jobs)) (\<lambda>_.
      bindP (bindP (on_logger logger_get) (\<lambda>_. run_benchmark env)) (\<lambda>results.
      bindP (export_results env results) (\<lambda>_. bindP (cleanup_files env) (\<lambda>_. returnP results))))) (o2, w2) ?Q"
    if o2: "started jobs o2" "or_workers o2 = 0" "map fst (fp_created (or_file_prep o2)) = map jc_filename jobs" for o2 w2
    apply (rule post_bind [OF post_get_bind [OF there [OF o2(1)] create_workers_post]])
     apply (use o2(1) in \<open>auto dest: started_workers started_logged\<close>)[1]
    apply clarsimp
    apply (rule bench)
      apply (use o2 in \<open>auto dest: started_workers simp: started_def\<close>)
    done
  show ?thesis
    apply (rule post_get_bind [OF there [OF assms(1)]])
    apply (rule post_bind [OF post_get_bind [OF there [OF assms(1)] precreate_files_post]])
     apply (use assms(1) in \<open>auto dest: started_files started_logged\<close>)[1]
    apply clarsimp
    apply (rule workers)
      apply (use assms in \<open>auto dest: started_files\<close>)
    done
qed

lemma orchestrate_post:
  "post (orchestrate env) (orchestrator_create opts jobs lg, w)
     (\<lambda>r (o2, w2). logged o2 \<and> (\<forall>results. r = Inr results \<longrightarrow> completed jobs o2 results))"
  unfolding orchestrate_def
  apply (rule post_with, unfold prod.case)
  apply (rule post_bind [OF setup_output_directory_post])
   apply (clarsimp simp: is_ok_def)
  apply clarsimp
  apply (rule post_bind [where P = "\<lambda>r (o2, w2). \<exists>d. o2 = (orchestrator_create opts jobs lg)\<lparr>or_output_dir := d\<rparr>"])
    apply (simp add: create_output_directory_def)
    apply (rule post_with, unfold prod.case, rule post_world)
    apply blast
   apply (clarsimp simp: logged_def orchestrator_create_def)
  apply clarsimp
  apply (rule post_bind [OF init_logging_post])
   apply (clarsimp simp: logged_def orchestrator_create_def is_ok_def)
  apply (clarsimp simp: is_ok_def)
  apply (simp only: orchestrator_create_def orchestrator.simps)
  apply (rule started_post)
    apply (simp_all add: started_def file_preparator_create_def)
  done

text \<open>
  C3. \<open>Run\<close> gives an exit code, or passes on an exception that is not a \<open>std::exception\<close>. The code is
  0 exactly when every step came through and no job failed; it is 1 when the steps came through and
  the exported results tell of a failed job, and after any other exception. When the steps came
  through there was one worker and one result for each job, every thread was joined, and the files
  of all jobs were prepared, in order, and cleaned up.
\<close>

theorem run_exit_code:
  assumes "orchestrator_run env (orchestrator_create opts jobs lg, w) = Some (r, (o2, w2))"
  shows "(case orchestrate env (orchestrator_create opts jobs lg, w) of
       Some (Inr results, s) \<Rightarrow>
         r = Inr (if list_ex jr_failed (br_jobs results) then 1 else 0) \<and> s = (o2, w2) \<and>
         length (br_jobs results) = length jobs \<and> or_workers o2 = length jobs \<and>
         or_threads o2 = [] \<and> \<not> or_sampling o2 \<and>
         map fst (fp_created (or_file_prep o2)) = map jc_filename jobs \<and> fp_cleaned (or_file_prep o2)
     | Some (Inl NonStdError, s) \<Rightarrow> r = Inl NonStdError \<and> s = (o2, w2)
     | Some (Inl e, s) \<Rightarrow> r = Inr 1 \<and> s = (o2, w2)
     | None \<Rightarrow> False)"
proof (cases "orchestrate env (orchestrator_create opts jobs lg, w)")
  case None
  then show ?thesis using assms by (simp add: orchestrator_run_def)
next
  case (Some res)
  obtain r1 o1 w1 where res: "res = (r1, (o1, w1))" by (metis prod.collapse)
  have p: "logged o1" "\<And>results. r1 = Inr results \<Longrightarrow> completed jobs o1 results"
    using postD [OF orchestrate_post Some [unfolded res]] by auto
  show ?thesis
  proof (cases r1)
    case (Inr results)
    then show ?thesis using p(2) [OF Inr] assms Some
      by (auto simp: orchestrator_run_def res completed_def)
  next
    case (Inl e)
    have get: "bindP (on_logger logger_get) (\<lambda>_. returnP (1 :: int)) (o1, w1) = Some (Inr 1, (o1, w1))"
      if "or_logging_ready o1"
      using that p(1) by (cases o1) (auto simp: logged_def prog_simps on_logger_def logger_get_def bindP_def)
    from Inl get show ?thesis using assms Some
      by (cases e; cases "or_logging_ready o1") (auto simp: orchestrator_run_def res)
  qed
qed

end
