(* ===== verification/Run_Files.thy ===== *)
theory Run_Files
  imports Orchestrator_Run
begin

text \<open>
  What a run does to the files on disk and to the display: files that were there stay, files the run
  created go, and the display is released.
\<close>

section \<open>Which files are there\<close>

text \<open>
  \<open>node path w\<close> says that the path names a file. An \<open>open\<close> that succeeds creates it, \<open>remove\<close> deletes
  it, \<open>exists\<close> tells; nothing else changes which files there are.
\<close>

definition file_nodes :: "'w file_api \<Rightarrow> ('w \<Rightarrow> string \<Rightarrow> bool) \<Rightarrow> bool" where
  "file_nodes api node \<longleftrightarrow>
     (\<forall>path w b w'. fa_exists api path w = (b, w') \<longrightarrow> b = node w path \<and> node w' = node w) \<and>
     (\<forall>path w fd e w'. fa_open api path w = ((fd, e), w') \<longrightarrow>
        node w' = (if fd < 0 then node w else (node w)(path := True))) \<and>
     (\<forall>fd data w. node (snd (fa_write api fd data w)) = node w) \<and>
     (\<forall>fd size w. node (snd (fa_fallocate api fd size w)) = node w) \<and>
     (\<forall>fd w. node (snd (fa_fsync api fd w)) = node w) \<and>
     (\<forall>fd w. node (snd (fa_close api fd w)) = node w) \<and>
     (\<forall>w. node (snd (fa_seed api w)) = node w) \<and>
     (\<forall>path w. node (fa_remove api path w) = (node w)(path := False))"

lemma after_attempts_keeps: "(\<And>w. I (snd (f w)) = I w) \<Longrightarrow> I (after_attempts f n w) = I w"
  by (induction n arbitrary: w) simp_all

lemma retry_keeps:
  assumes "retry_on_eintr f w = Some (r, w')" "\<And>w. I (snd (f w)) = I w"
  shows "I w' = I w"
proof -
  obtain k where "(r, w') = f (after_attempts f k w)"
    using retry_found [OF assms(1)] unfolding first_attempt_def by blast
  then have "I w' = I (after_attempts f k w)" using assms(2) by (metis snd_conv)
  then show ?thesis using after_attempts_keeps [of I f k w] assms(2) by simp
qed

lemma write_fully_keeps:
  assumes "write_fully api fd buf written w = Some (r, w')" "\<And>data w. I (snd (fa_write api fd data w)) = I w"
  shows "I w' = I w"
proof -
  let ?P = "\<lambda>api fd buf (written :: nat) w y. (\<forall>data w. I (snd (fa_write api fd data w)) = I w) \<longrightarrow> I (snd y) = I w"
  have "?P api fd buf written w (r, w')"
  proof (rule write_fully.raw_induct [OF _ assms(1), where P = ?P], rule impI)
    fix rec and api :: "'a file_api" and fd buf written w y
    assume ih: "\<And>api fd buf written w y. rec api fd buf written w = Some y \<Longrightarrow> ?P api fd buf written w y"
      and eq: "(if written < length buf
        then case retry_on_eintr (fa_write api fd (drop written buf)) w of
            None \<Rightarrow> None
          | Some ((n, errno), w') \<Rightarrow>
              if n < 0
              then Some (Inl (system_error (fa_strerror api) errno ''write during file fill failed''), w')
              else rec api fd buf (written + nat n) w'
        else Some (Inr (), w)) = Some y"
      and keeps: "\<forall>data w. I (snd (fa_write api fd data w)) = I w"
    show "I (snd y) = I w"
    proof (cases "written < length buf")
      case False
      then show ?thesis using eq by auto
    next
      case True
      with eq obtain n errno w1 where r: "retry_on_eintr (fa_write api fd (drop written buf)) w = Some ((n, errno), w1)"
        by (auto split: option.splits)
      have "I w1 = I w" using retry_keeps [where I = I, OF r] keeps by blast
      then show ?thesis using eq True r ih [of api fd buf "written + nat n" w1 y] keeps
        by (auto split: if_splits)
    qed
  qed
  then show ?thesis using assms(2) by simp
qed

lemma fill_file_keeps:
  assumes "\<And>data w. I (snd (fa_write api fd data w)) = I w"
  shows "fill_file api rng fd k n w = Some (r, w') \<Longrightarrow> I w' = I w"
proof (induction n arbitrary: k w rule: less_induct)
  case (less n)
  show ?case
  proof (cases "n = 0")
    case True
    then show ?thesis using less.prems by (simp add: fill_file.simps)
  next
    case False
    let ?m = "min kChunkSize n"
    obtain r1 w1 where c: "write_fully api fd (take ?m (chunk_bytes rng k)) 0 w = Some (r1, w1)"
      using less.prems False by (auto simp: fill_file.simps [of api rng fd k n] Let_def split: option.splits)
    have w1: "I w1 = I w" by (rule write_fully_keeps [OF c assms])
    have lt: "n - ?m < n" using False by (simp add: kChunkSize_def)
    show ?thesis
      using less.prems False c w1 less.IH [OF lt, of "k + kChunkSize div 8" w1]
      by (cases r1) (auto simp: fill_file.simps [of api rng fd k n] Let_def)
  qed
qed

lemma fill_and_sync_keeps:
  assumes fn: "file_nodes api node" and r: "fill_and_sync api fd config w = Some (r, w')"
  shows "node w' = node w"
proof -
  have "node (snd (fa_write api fd data w)) = node w" for data w using fn by (simp add: file_nodes_def)
  note fill = fill_file_keeps [where I = node, OF this]
  have "node w1 = node w" if "reserve_space api fd n path w = (r1, w1)" for n path r1 w1
    using that fn by (auto simp: reserve_space_def file_nodes_def split: prod.splits if_splits) (metis snd_conv)+
  moreover have "node w2 = node w1" if "fa_seed api w1 = (rng, w2)" for w1 rng w2
    using that fn unfolding file_nodes_def by (metis snd_conv)
  moreover have "node w2 = node w1" if "fa_fsync api fd w1 = (x, w2)" for w1 x w2
    using that fn unfolding file_nodes_def by (metis snd_conv)
  ultimately show ?thesis
    using r unfolding fill_and_sync_def
    by (auto split: prod.splits sum.splits option.splits if_splits dest!: fill)
qed

text \<open>Creating one file: the path is there afterwards, unless it could not be opened.\<close>

lemma create_and_fill_nodes:
  assumes fn: "file_nodes api node" and c: "create_and_fill api config (p, w) = Some (r, (p', w'))"
  shows "(\<forall>path. node w' path \<longrightarrow> node w path \<or> path = jc_filename config) \<and> (\<forall>path. node w path \<longrightarrow> node w' path) \<and>
    p' = (if is_ok r then p\<lparr>fp_created := fp_created p @ [(jc_filename config, node w (jc_filename config))]\<rparr> else p)"
proof -
  let ?f = "jc_filename config"
  obtain pre w1 where ex: "fa_exists api ?f w = (pre, w1)" by (metis prod.collapse)
  obtain fd e w2 where op: "fa_open api ?f w1 = ((fd, e), w2)" by (metis prod.collapse)
  have n1: "pre = node w ?f" "node w1 = node w" using fn ex unfolding file_nodes_def by metis+
  have n2: "node w2 = (if fd < 0 then node w else (node w)(?f := True))"
    using fn op n1(2) unfolding file_nodes_def by metis
  show ?thesis
  proof (cases "fd < 0")
    case True
    then show ?thesis using c ex op n1 n2 by (auto simp: create_and_fill_def)
  next
    case False
    obtain r3 w3 where f: "fill_and_sync api fd config w2 = Some (r3, w3)"
      using c ex op False by (auto simp: create_and_fill_def split: option.splits)
    have "node w3 = node w2" by (rule fill_and_sync_keeps [OF fn f])
    moreover have "node (snd (fa_close api fd w3)) = node w3" using fn by (simp add: file_nodes_def)
    ultimately have "node (snd (fa_close api fd w3)) = (node w)(?f := True)" using n2 False by simp
    then show ?thesis using c ex op False f n1 by (cases r3) (auto simp: create_and_fill_def)
  qed
qed

text \<open>Between the world \<open>w0\<close> before the first file and \<open>w\<close>, with the tracked files \<open>fs\<close>; \<open>extra\<close> are untracked.\<close>

definition tracked_nodes ::
    "('w \<Rightarrow> string \<Rightarrow> bool) \<Rightarrow> 'w \<Rightarrow> (string \<times> bool) list \<Rightarrow> string set \<Rightarrow> 'w \<Rightarrow> bool" where
  "tracked_nodes node w0 fs extra w \<longleftrightarrow>
     (\<forall>path. node w0 path \<longrightarrow> node w path) \<and>
     (\<forall>path. node w path \<longrightarrow> node w0 path \<or> (path, False) \<in> set fs \<or> path \<in> extra) \<and>
     (\<forall>path. (path, False) \<in> set fs \<longrightarrow> \<not> node w0 path)"

lemma precreate_files_nodes:
  assumes fn: "file_nodes (oe_files env) node"
  shows "precreate_files env jobs (o1, w) = Some (r, (o2, w2)) \<Longrightarrow>
    tracked_nodes node w0 (fp_created (or_file_prep o1)) {} w \<Longrightarrow>
    tracked_nodes node w0 (fp_created (or_file_prep o2)) (if is_ok r then {} else jc_filename ` set jobs) w2 \<and>
    fp_keep_files (or_file_prep o2) = fp_keep_files (or_file_prep o1) \<and>
    fp_cleaned (or_file_prep o2) = fp_cleaned (or_file_prep o1)"
proof (induction jobs arbitrary: o1 w)
  case Nil
  then show ?case by (auto simp: returnP_def)
next
  case (Cons job jobs)
  let ?f = "jc_filename job" and ?p = "or_file_prep o1"
  obtain r1 p1 w1 where c: "create_and_fill (oe_files env) job (?p, w) = Some (r1, (p1, w1))"
    using Cons.prems(1) by (cases "create_and_fill (oe_files env) job (?p, w)") (auto simp: bindP_def on_files_def)
  note n = create_and_fill_nodes [OF fn c]
  show ?case
  proof (cases r1)
    case (Inl e)
    then have "r = Inl e" "o2 = o1\<lparr>or_file_prep := ?p\<rparr>" "w2 = w1"
      using Cons.prems(1) c n by (auto simp: bindP_def on_files_def)
    then show ?thesis using Inl n Cons.prems(2) unfolding tracked_nodes_def by auto
  next
    case (Inr u)
    then have p1: "p1 = ?p\<lparr>fp_created := fp_created ?p @ [(?f, node w ?f)]\<rparr>" using n by simp
    have rest: "precreate_files env jobs (o1\<lparr>or_file_prep := p1\<rparr>, w1) = Some (r, (o2, w2))"
      using Cons.prems(1) c Inr by (simp add: bindP_def on_files_def)
    have "tracked_nodes node w0 (fp_created (or_file_prep (o1\<lparr>or_file_prep := p1\<rparr>))) {} w1"
      using n Cons.prems(2) unfolding tracked_nodes_def p1 by auto
    from Cons.IH [OF rest this] show ?thesis by (auto simp: tracked_nodes_def p1 split: if_splits)
  qed
qed

lemma removed_nodes:
  assumes "file_nodes api node"
  shows "node (fold (fa_remove api) paths w) path = (node w path \<and> path \<notin> set paths)"
proof (induction paths arbitrary: w)
  case (Cons p paths)
  have "node (fa_remove api p w) = (node w)(p := False)" using assms by (simp add: file_nodes_def)
  then show ?case by (simp add: Cons.IH)
qed simp


section \<open>The display is released\<close>

text \<open>
  C20. Whichever display the run creates, if it keeps the contract of displays it no longer holds the
  screen when \<open>RunBenchmark\<close> is left, by returning or by an exception. Only when there is no such
  display nothing is done at all.
\<close>

theorem display_released:
  assumes contract: "\<And>backend ctx disp.
      display_create (oe_registry env) (oe_terminal env) backend ctx = Inr disp \<Longrightarrow> display_backend disp active"
    and run: "run_benchmark env (o1, w) = Some (r, (o2, w2))"
  shows "\<not> active w2 \<or> w2 = w \<and> o2 = o1 \<and> (\<exists>e. r = Inl e)"
proof (cases "display_create (oe_registry env) (oe_terminal env) (opt_ui_backend (or_options o1))
      (make_display_context (or_options o1) (or_jobs o1) (path_append (or_output_dir o1) ''cfio.log''))")
  case (Inl e)
  then show ?thesis using run by (auto simp: run_benchmark_def withP_def throwP_def)
next
  case (Inr disp)
  then have db: "display_backend disp active" by (rule contract)
  have "run_with_display env disp (or_options o1) (length (or_jobs o1)) (o1, w) = Some (r, (o2, w2))"
    using run Inr by (simp add: run_benchmark_def withP_def)
  then obtain w3 x where "di_shutdown disp w3 = Some (Inr x, w2)"
    by (auto simp: run_with_display_def scoped_def on_world_def split: option.splits sum.splits prod.splits)
  then show ?thesis using display_backend.shutdown_ends [OF db, of w3] by auto
qed

end
