(* ===== verification/Run_Mailbox.thy ===== *)
theory Run_Mailbox
  imports Display
begin

text \<open>
  The handoff between the benchmark thread and the GUI: \<open>RunMailbox\<close>
  (\<open>src/display/qt/run_mailbox.cpp\<close>) and the backend \<open>QtDisplay\<close> (\<open>src/display/qt/qt_display.cpp\<close>) that
  publishes into it. Every member function is one critical section or one atomic access, so two
  threads interleave whole member functions.
\<close>

section \<open>State and member functions\<close>

datatype phase = kIdle | kRunning | kFinished

record run_mailbox =
  mb_latest :: metrics_snapshot
  mb_context :: "display_context option"
  mb_results :: "benchmark_results option"
  mb_phase :: phase
  mb_runtime_seconds :: int
  mb_sequence :: u64
  mb_stop_requested :: bool

definition run_mailbox_create :: run_mailbox where
  "run_mailbox_create =
     \<lparr>mb_latest = empty_snapshot, mb_context = None, mb_results = None, mb_phase = kIdle,
      mb_runtime_seconds = 0, mb_sequence = 0, mb_stop_requested = False\<rparr>"

definition set_runtime :: "int \<Rightarrow> run_mailbox \<Rightarrow> run_mailbox" where
  "set_runtime runtime m = m\<lparr>mb_runtime_seconds := runtime, mb_phase := kRunning\<rparr>"

definition publish_context :: "display_context \<Rightarrow> run_mailbox \<Rightarrow> run_mailbox" where
  "publish_context context m = m\<lparr>mb_context := Some context\<rparr>"

definition publish_snapshot :: "metrics_snapshot \<Rightarrow> run_mailbox \<Rightarrow> run_mailbox" where
  "publish_snapshot snapshot m = m\<lparr>mb_latest := snapshot, mb_sequence := mb_sequence m + 1\<rparr>"

definition publish_results :: "benchmark_results \<Rightarrow> run_mailbox \<Rightarrow> run_mailbox" where
  "publish_results results m =
     m\<lparr>mb_results := Some results, mb_phase := kFinished, mb_sequence := mb_sequence m + 1\<rparr>"

definition mark_shutdown :: "run_mailbox \<Rightarrow> run_mailbox" where
  "mark_shutdown m = m\<lparr>mb_phase := kFinished\<rparr>"

definition take_context :: "run_mailbox \<Rightarrow> display_context option \<times> run_mailbox" where
  "take_context m =
     (if mb_context m = None then (None, m) else (mb_context m, m\<lparr>mb_context := None\<rparr>))"

definition take_results :: "run_mailbox \<Rightarrow> benchmark_results option \<times> run_mailbox" where
  "take_results m =
     (if mb_results m = None then (None, m) else (mb_results m, m\<lparr>mb_results := None\<rparr>))"

definition current_phase :: "run_mailbox \<Rightarrow> phase \<times> run_mailbox" where
  "current_phase m = (mb_phase m, m)"

definition get_runtime_seconds :: "run_mailbox \<Rightarrow> int \<times> run_mailbox" where
  "get_runtime_seconds m = (mb_runtime_seconds m, m)"

definition get_sequence :: "run_mailbox \<Rightarrow> u64 \<times> run_mailbox" where
  "get_sequence m = (mb_sequence m, m)"

definition latest_snapshot :: "run_mailbox \<Rightarrow> metrics_snapshot \<times> run_mailbox" where
  "latest_snapshot m = (mb_latest m, m)"

definition stop_requested :: "run_mailbox \<Rightarrow> bool \<times> run_mailbox" where
  "stop_requested m = (mb_stop_requested m, m)"

definition request_stop :: "run_mailbox \<Rightarrow> run_mailbox" where
  "request_stop m = m\<lparr>mb_stop_requested := True\<rparr>"

section \<open>The backend\<close>

type_synonym qt_state = "display_context \<times> run_mailbox"

definition qt_init :: "int \<Rightarrow> (qt_state, unit) prog" where
  "qt_init runtime = modifyP (\<lambda>(ctx, m). (ctx, set_runtime runtime (publish_context ctx m)))"

definition qt_update :: "metrics_snapshot \<Rightarrow> (qt_state, unit) prog" where
  "qt_update snapshot = modifyP (\<lambda>(ctx, m). (ctx, publish_snapshot snapshot m))"

definition qt_summary :: "benchmark_results \<Rightarrow> (qt_state, unit) prog" where
  "qt_summary results = modifyP (\<lambda>(ctx, m). (ctx, publish_results results m))"

definition qt_shutdown :: "(qt_state, unit) prog" where
  "qt_shutdown = modifyP (\<lambda>(ctx, m). (ctx, mark_shutdown m))"

definition qt_ops :: "qt_state display_ops" where
  "qt_ops = \<lparr>di_init = qt_init, di_update = qt_update, di_summary = qt_summary, di_shutdown = qt_shutdown,
     di_stop_requested = (\<lambda>(ctx, m). map_prod id (Pair ctx) (stop_requested m))\<rparr>"

lemmas mailbox_defs =
  set_runtime_def publish_context_def publish_snapshot_def publish_results_def mark_shutdown_def
  take_context_def take_results_def request_stop_def

interpretation qt: display_backend qt_ops "\<lambda>(ctx, m). mb_phase m = kRunning"
  by unfold_locales
    (auto simp: qt_ops_def qt_init_def qt_update_def qt_summary_def qt_shutdown_def mailbox_defs prog_simps)

section \<open>Interleavings of the two threads\<close>

text \<open>The steps of the benchmark thread, then those of the GUI with what they return.\<close>

datatype mailbox_step =
  Set_Runtime int | Publish_Context display_context | Publish_Snapshot metrics_snapshot
| Publish_Results benchmark_results | Mark_Shutdown
| Take_Context "display_context option" | Take_Results "benchmark_results option" | Request_Stop

inductive mailbox_step_rel :: "run_mailbox \<Rightarrow> mailbox_step \<Rightarrow> run_mailbox \<Rightarrow> bool" where
  "mailbox_step_rel m (Set_Runtime n) (set_runtime n m)"
| "mailbox_step_rel m (Publish_Context c) (publish_context c m)"
| "mailbox_step_rel m (Publish_Snapshot x) (publish_snapshot x m)"
| "mailbox_step_rel m (Publish_Results r) (publish_results r m)"
| "mailbox_step_rel m Mark_Shutdown (mark_shutdown m)"
| "take_context m = (c, m') \<Longrightarrow> mailbox_step_rel m (Take_Context c) m'"
| "take_results m = (r, m') \<Longrightarrow> mailbox_step_rel m (Take_Results r) m'"
| "mailbox_step_rel m Request_Stop (request_stop m)"

inductive_simps mailbox_step_simps [simp]:
  "mailbox_step_rel m (Set_Runtime n) m'" "mailbox_step_rel m (Publish_Context c) m'"
  "mailbox_step_rel m (Publish_Snapshot x) m'" "mailbox_step_rel m (Publish_Results r) m'"
  "mailbox_step_rel m Mark_Shutdown m'" "mailbox_step_rel m (Take_Context oc) m'"
  "mailbox_step_rel m (Take_Results res) m'" "mailbox_step_rel m Request_Stop m'"

text \<open>The history of a mailbox, latest step last.\<close>

inductive mailbox_run :: "mailbox_step list \<Rightarrow> run_mailbox \<Rightarrow> bool" where
  start: "mailbox_run [] run_mailbox_create"
| step: "mailbox_run h m \<Longrightarrow> mailbox_step_rel m a m' \<Longrightarrow> mailbox_run (h @ [a]) m'"

inductive_cases mailbox_run_snocE: "mailbox_run (h @ [a]) m"

text \<open>What the history says each member holds.\<close>

definition phase_after :: "mailbox_step list \<Rightarrow> phase" where
  "phase_after h = foldl (\<lambda>p a. case a of
     Set_Runtime _ \<Rightarrow> kRunning | Publish_Results _ \<Rightarrow> kFinished | Mark_Shutdown \<Rightarrow> kFinished | _ \<Rightarrow> p) kIdle h"

definition results_after :: "mailbox_step list \<Rightarrow> benchmark_results option" where
  "results_after h = foldl (\<lambda>r a. case a of
     Publish_Results x \<Rightarrow> Some x | Take_Results _ \<Rightarrow> None | _ \<Rightarrow> r) None h"

definition latest_after :: "mailbox_step list \<Rightarrow> metrics_snapshot" where
  "latest_after h = foldl (\<lambda>s a. case a of Publish_Snapshot x \<Rightarrow> x | _ \<Rightarrow> s) empty_snapshot h"

definition publications :: "mailbox_step list \<Rightarrow> nat" where
  "publications h = length (filter (\<lambda>a. case a of Publish_Snapshot _ \<Rightarrow> True | Publish_Results _ \<Rightarrow> True | _ \<Rightarrow> False) h)"

lemmas history_defs = phase_after_def results_after_def latest_after_def publications_def

lemma mailbox_run_state:
  assumes "mailbox_run h m"
  shows "mb_phase m = phase_after h \<and> mb_results m = results_after h \<and> mb_latest m = latest_after h \<and>
    mb_sequence m = of_nat (publications h) \<and> mb_stop_requested m = (Request_Stop \<in> set h)"
  using assms
proof (induction rule: mailbox_run.induct)
  case start
  show ?case by (simp add: run_mailbox_create_def history_defs)
next
  case (step h m a m')
  then show ?case
    by (cases a) (auto simp: mailbox_defs history_defs split: if_splits)
qed

lemma taken_published:
  "mailbox_run (h @ [Take_Results res]) m \<Longrightarrow> res = results_after h"
  by (erule mailbox_run_snocE) (auto dest!: mailbox_run_state simp: take_results_def split: if_splits)

lemma results_after_cases: "results_after h = Some r \<Longrightarrow>
  \<exists>h1 h2. h = h1 @ Publish_Results r # h2 \<and> filter (\<lambda>a. case a of Publish_Results _ \<Rightarrow> True | Take_Results _ \<Rightarrow> True | _ \<Rightarrow> False) h2 = []"
proof (induction h rule: rev_induct)
  case (snoc a h)
  show ?case
  proof (cases "results_after (h @ [a]) = results_after h \<and> (case a of Publish_Results _ \<Rightarrow> False | Take_Results _ \<Rightarrow> False | _ \<Rightarrow> True)")
    case True
    then obtain h1 h2 where "h = h1 @ Publish_Results r # h2"
      "filter (\<lambda>a. case a of Publish_Results _ \<Rightarrow> True | Take_Results _ \<Rightarrow> True | _ \<Rightarrow> False) h2 = []"
      using snoc by auto
    then show ?thesis using True by (intro exI [of _ h1] exI [of _ "h2 @ [a]"]) (auto split: mailbox_step.splits)
  next
    case False
    then have "a = Publish_Results r" using snoc.prems by (cases a) (auto simp: results_after_def)
    then show ?thesis by (intro exI [of _ h] exI [of _ "[]"]) simp
  qed
qed (simp add: results_after_def)

text \<open>
  C23. In every interleaving of the benchmark thread and the GUI: results that the GUI takes are the
  last ones published, and were not taken before; the mailbox holds the newest sample; the
  sequence counts the publications; the phase is the one the last phase change set; a stop once
  requested stays requested.
\<close>

theorem mailbox_interleavings:
  assumes "mailbox_run (h @ [Take_Results res]) m"
  shows "(case res of
      None \<Rightarrow> results_after h = None
    | Some r \<Rightarrow> \<exists>h1 h2. h = h1 @ Publish_Results r # h2 \<and>
        list_all (\<lambda>a. case a of Publish_Results _ \<Rightarrow> False | Take_Results _ \<Rightarrow> False | _ \<Rightarrow> True) h2) \<and>
    mb_results m = None \<and> mb_latest m = latest_after h \<and> mb_phase m = phase_after h \<and>
    mb_sequence m = of_nat (publications h) \<and> mb_stop_requested m = (Request_Stop \<in> set h)"
proof -
  have t: "res = results_after h" by (rule taken_published [OF assms])
  have "filter (\<lambda>a. case a of Publish_Results _ \<Rightarrow> True | Take_Results _ \<Rightarrow> True | _ \<Rightarrow> False) h2 = [] \<longleftrightarrow>
      list_all (\<lambda>a. case a of Publish_Results _ \<Rightarrow> False | Take_Results _ \<Rightarrow> False | _ \<Rightarrow> True) h2" for h2
    by (auto simp: filter_empty_conv list_all_iff split: mailbox_step.splits)
  then have c: "case res of
      None \<Rightarrow> results_after h = None
    | Some r \<Rightarrow> \<exists>h1 h2. h = h1 @ Publish_Results r # h2 \<and>
        list_all (\<lambda>a. case a of Publish_Results _ \<Rightarrow> False | Take_Results _ \<Rightarrow> False | _ \<Rightarrow> True) h2"
    using t results_after_cases [of h] by (simp split: option.splits)
  with mailbox_run_state [OF assms] show ?thesis by (simp add: history_defs)
qed

theorem mailbox_interleavings_witness:
  "\<exists>m r. mailbox_run ([Set_Runtime 10, Publish_Snapshot empty_snapshot, Request_Stop, Publish_Results r] @
        [Take_Results (Some r)]) m \<and> mb_results m = None \<and> mb_phase m = kFinished \<and> mb_sequence m = 2"
proof -
  define opts where "opts = \<lparr>opt_config_path = [], opt_runtime_seconds = 10, opt_output_dir = [], opt_ui_backend = ''qt'',
     opt_direct_override = None, opt_engine_override = None, opt_verbose = False, opt_keep_files = False\<rparr>"
  define r where "r = \<lparr>br_cfio_version = [], br_timestamp = [], br_runtime_seconds = 10, br_elapsed_seconds = 1,
     br_interrupted = True, br_global_config = opts, br_jobs = [], br_time_series = []\<rparr>"
  let ?h = "[Set_Runtime 10, Publish_Snapshot empty_snapshot, Request_Stop, Publish_Results r]"
  have "\<exists>m. mailbox_run ([] @ [Set_Runtime 10]) m" by (blast intro: mailbox_run.intros mailbox_step_rel.intros)
  then have "\<exists>m. mailbox_run (([] @ [Set_Runtime 10]) @ [Publish_Snapshot empty_snapshot]) m"
    by (blast intro: mailbox_run.step mailbox_step_rel.intros)
  then have "\<exists>m. mailbox_run ((([] @ [Set_Runtime 10]) @ [Publish_Snapshot empty_snapshot]) @ [Request_Stop]) m"
    by (blast intro: mailbox_run.step mailbox_step_rel.intros)
  then have "\<exists>m. mailbox_run (((([] @ [Set_Runtime 10]) @ [Publish_Snapshot empty_snapshot]) @ [Request_Stop]) @
      [Publish_Results r]) m"
    by (blast intro: mailbox_run.step mailbox_step_rel.intros)
  then obtain m0 where m0: "mailbox_run ?h m0" by auto
  have "mb_results m0 = Some r" using mailbox_run_state [OF m0] by (simp add: results_after_def)
  then have "take_results m0 = (Some r, m0\<lparr>mb_results := None\<rparr>)" by (simp add: take_results_def)
  from mailbox_run.step [OF m0 mailbox_step_rel.intros(7) [OF this]]
  have m: "mailbox_run (?h @ [Take_Results (Some r)]) (m0\<lparr>mb_results := None\<rparr>)" .
  from mailbox_interleavings [OF m] m show ?thesis
    by (intro exI [of _ "m0\<lparr>mb_results := None\<rparr>"] exI [of _ r]) (simp add: history_defs)
qed

end
