(* ===== verification/Metric_Format.thy ===== *)
theory Metric_Format
  imports Prelude Float64
begin

text \<open>
  The number formats of the displays (\<open>src/display/metric_format.cpp\<close>). A replacement field of the
  format library is a function of \<open>fmt_api\<close>: \<open>{}\<close> of an integer, \<open>{:02}\<close>, \<open>{:3}\<close>, \<open>{:.1f}\<close> and the
  left alignment \<open>{:<n}\<close> of a text.
\<close>

section \<open>The format library\<close>

record fmt_api =
  fm_int :: "int \<Rightarrow> string"
  fm_zero2 :: "int \<Rightarrow> string"
  fm_right3 :: "int \<Rightarrow> string"
  fm_fixed1 :: "rat \<Rightarrow> string"
  fm_left :: "nat \<Rightarrow> string \<Rightarrow> string"

text \<open>\<open>{}\<close> of a 64-bit counter.\<close>

abbreviation fm_u64 :: "fmt_api \<Rightarrow> u64 \<Rightarrow> string" where
  "fm_u64 fmt v \<equiv> fm_int fmt (int (unat v))"

section \<open>Formats\<close>

definition kBytesPerKiB :: u64 where "kBytesPerKiB = 1024"
definition kBytesPerMiB :: u64 where "kBytesPerMiB = 1024 * 1024"
definition kBytesPerGiB :: u64 where "kBytesPerGiB = 1024 * 1024 * 1024"
definition kNsPerUs :: u64 where "kNsPerUs = 1000"

text \<open>The micro sign, in UTF-8.\<close>

definition kMicroSign :: string where "kMicroSign = [CHR 0xCE, CHR 0xBC]"

definition format_count :: "u64 \<Rightarrow> string" where
  "format_count v =
     (let digits = dec64 v; count = length digits
      in concat (map (\<lambda>i. (if i \<noteq> 0 \<and> (count - i) mod 3 = 0 then '','' else []) @ [digits ! i])
                  [0..<count]))"

definition format_bytes :: "fmt_api \<Rightarrow> u64 \<Rightarrow> string" where
  "format_bytes fmt bytes =
     (if bytes \<ge> kBytesPerGiB then fm_fixed1 fmt (fl (of_u64 bytes / of_u64 kBytesPerGiB)) @ '' GiB''
      else if bytes \<ge> kBytesPerMiB then fm_fixed1 fmt (fl (of_u64 bytes / of_u64 kBytesPerMiB)) @ '' MiB''
      else if bytes \<ge> kBytesPerKiB then fm_fixed1 fmt (fl (of_u64 bytes / of_u64 kBytesPerKiB)) @ '' KiB''
      else fm_u64 fmt bytes @ '' B'')"

definition rate_mib :: "u64 \<Rightarrow> u64" where
  "rate_mib bytes_per_sec = bytes_per_sec div kBytesPerMiB"

definition latency_us :: "u64 \<Rightarrow> u64" where
  "latency_us nanoseconds = nanoseconds div kNsPerUs"

definition format_rate :: "fmt_api \<Rightarrow> u64 \<Rightarrow> string" where
  "format_rate fmt bytes_per_sec = fm_u64 fmt (rate_mib bytes_per_sec) @ '' MB/s''"

definition format_latency_us :: "fmt_api \<Rightarrow> u64 \<Rightarrow> string" where
  "format_latency_us fmt nanoseconds = fm_u64 fmt (latency_us nanoseconds) @ '' '' @ kMicroSign @ ''s''"

definition kSecPerMin :: int where "kSecPerMin = 60"

definition format_duration :: "fmt_api \<Rightarrow> int \<Rightarrow> string" where
  "format_duration fmt seconds =
     (let clamped = max 0 seconds
      in fm_zero2 fmt (clamped div kSecPerMin) @ '':'' @ fm_zero2 fmt (clamped mod kSecPerMin))"

section \<open>Thousands separators\<close>

text \<open>The digits in groups of three from the right, as a reference for the loop.\<close>

lemma group_suffix:
  assumes "i = length digits - 3 * k" "3 * k < length digits"
  shows "concat (map (\<lambda>i. (if i \<noteq> 0 \<and> (length digits - i) mod 3 = 0 then '','' else []) @ [digits ! i])
            [i..<length digits]) =
         concat (map (\<lambda>j. CHR '','' # take 3 (drop j digits))
            (map (\<lambda>m. length digits - 3 * (k - m)) [0..<k]))"
  using assms
proof (induction k arbitrary: i)
  case (Suc k)
  let ?n = "length digits"
  have i: "i + 3 \<le> ?n" "i \<noteq> 0" using Suc.prems by simp_all
  have i3: "i + 3 = ?n - 3 * k" using Suc.prems by simp
  let ?f = "\<lambda>i. (if i \<noteq> 0 \<and> (?n - i) mod 3 = 0 then '','' else []) @ [digits ! i]"
  have ni: "?n - i = 3 * Suc k" using Suc.prems by simp
  have "[i..<?n] = [i, i + 1, i + 2] @ [i + 3..<?n]"
    using i(1) by (simp add: upt_conv_Cons numeral_3_eq_3 numeral_2_eq_2)
  moreover have "?f i = [CHR '','', digits ! i]" using ni i(2) by simp
  moreover have "?f (i + 1) = [digits ! (i + 1)]" "?f (i + 2) = [digits ! (i + 2)]"
  proof -
    have m: "?n - (i + 1) = 3 * k + 2" "?n - (i + 2) = 3 * k + 1" using ni by simp_all
    have "(3 * k + 2) mod 3 = 2" "(3 * k + 1) mod 3 = 1" by presburger+
    with m have "(?n - (i + 1)) mod 3 = 2" "(?n - (i + 2)) mod 3 = 1" by (simp_all only:)
    then show "?f (i + 1) = [digits ! (i + 1)]" "?f (i + 2) = [digits ! (i + 2)]" by simp_all
  qed
  moreover have "take 3 (drop i digits) = [digits ! i, digits ! (i + 1), digits ! (i + 2)]"
    using i(1) by (simp add: Cons_nth_drop_Suc [symmetric] numeral_3_eq_3 numeral_2_eq_2)
  moreover have "map (\<lambda>m. ?n - 3 * (Suc k - m)) [0..<Suc k] = i # map (\<lambda>m. ?n - 3 * (k - m)) [0..<k]"
    using Suc.prems(1) by (simp add: upt_conv_Cons map_Suc_upt [symmetric] del: upt_Suc)
  ultimately show ?case using Suc.IH [OF i3] Suc.prems(2) by simp
qed simp

lemma group_prefix:
  assumes "i \<le> 3" "length digits = 3 * k + i"
  shows "concat (map (\<lambda>j. (if j \<noteq> 0 \<and> (length digits - j) mod 3 = 0 then '','' else []) @ [digits ! j]) [0..<i]) =
    take i digits"
proof -
  have "(if j \<noteq> 0 \<and> (length digits - j) mod 3 = 0 then '','' else []) @ [digits ! j] = [digits ! j]"
    if "j < i" for j
  proof (cases "j = 0")
    case False
    then have "length digits - j = 3 * k + (i - j)" "1 \<le> i - j" "i - j \<le> 2" using that assms by simp_all
    then have "(length digits - j) mod 3 \<noteq> 0" by presburger
    then show ?thesis by simp
  qed simp
  then have "concat (map (\<lambda>j. (if j \<noteq> 0 \<and> (length digits - j) mod 3 = 0 then '','' else []) @ [digits ! j]) [0..<i]) =
      concat (map (\<lambda>j. [digits ! j]) [0..<i])"
    by (intro arg_cong [of _ _ concat] map_cong) simp_all
  also have "\<dots> = map ((!) digits) [0..<i]" by (induction i) simp_all
  also have "\<dots> = take i digits" using assms by (intro nth_equalityI) simp_all
  finally show ?thesis .
qed

text \<open>
  \<open>FormatCount\<close> writes the decimal digits of the counter in groups split by commas: the first
  group has one to three digits, every other one exactly three, and without the commas the text is
  the number again.
\<close>

lemma format_count_groups:
  "\<exists>g gs. format_count v = g @ concat (map (\<lambda>x. CHR '','' # x) gs) \<and>
     1 \<le> length g \<and> length g \<le> 3 \<and> list_all (\<lambda>x. length x = 3) gs \<and> g @ concat gs = dec64 v \<and>
     list_all is_digit (g @ concat gs) \<and> dec_val (filter (\<lambda>c. c \<noteq> CHR '','') (format_count v)) = unat v"
proof -
  define ds where "ds = dec64 v"
  define k where "k = (length ds - 1) div 3"
  define i where "i = length ds - 3 * k"
  define pos where "pos = map (\<lambda>m. length ds - 3 * (k - m)) [0..<k]"
  define gs where "gs = map (\<lambda>j. take 3 (drop j ds)) pos"
  have n: "0 < length ds" by (simp add: ds_def)
  have k: "3 * k < length ds" "length ds = 3 * k + i" "1 \<le> i" "i \<le> 3"
    using n unfolding i_def k_def by presburger+
  let ?f = "\<lambda>i. (if i \<noteq> 0 \<and> (length ds - i) mod 3 = 0 then '','' else []) @ [ds ! i]"
  have "[0..<length ds] = [0..<i] @ [i..<length ds]" 
    using k(2) upt_add_eq_append [of 0 i "3 * k"] by (simp add: add.commute)
  then have fc: "format_count v = take i ds @ concat (map (\<lambda>x. CHR '','' # x) gs)"
    using group_suffix [OF i_def k(1)] group_prefix [OF k(4) k(2)]
    by (simp add: format_count_def Let_def ds_def [symmetric] gs_def pos_def o_def)
  have pos: "j + 3 \<le> length ds" if "j \<in> set pos" for j
    using that k(2) by (auto simp: pos_def)
  then have len: "list_all (\<lambda>x. length x = 3) gs"
    by (fastforce simp: list_all_iff gs_def)
  have cat: "concat (map (\<lambda>j. take 3 (drop j ds)) (map (\<lambda>m. length ds - 3 * (l - m)) [0..<l])) =
      drop (length ds - 3 * l) ds" if "3 * l \<le> length ds" for l
    using that
  proof (induction l)
    case (Suc l)
    have "map (\<lambda>m. length ds - 3 * (Suc l - m)) [0..<Suc l] =
        (length ds - 3 * Suc l) # map (\<lambda>m. length ds - 3 * (l - m)) [0..<l]"
      by (simp add: upt_conv_Cons map_Suc_upt [symmetric] del: upt_Suc)
    moreover have "take 3 (drop (length ds - 3 * Suc l) ds) @ drop (length ds - 3 * l) ds =
        drop (length ds - 3 * Suc l) ds"
      using Suc.prems append_take_drop_id [of 3 "drop (length ds - 3 * Suc l) ds"] by simp
    ultimately show ?case using Suc by simp
  qed simp
  have all: "take i ds @ concat gs = ds"
    using cat [of k] k(1) by (simp add: gs_def pos_def i_def o_def)
  have dig: "list_all is_digit ds" unfolding ds_def list_all_iff using dec_digits by blast
  have nc: "filter (\<lambda>c. c \<noteq> CHR '','') xs = xs" if "set xs \<subseteq> set ds" for xs
    using that dig by (force simp: list_all_iff is_digit_def filter_id_conv)
  have "filter (\<lambda>c. c \<noteq> CHR '','') (concat (map (\<lambda>x. CHR '','' # x) gs)) =
      filter (\<lambda>c. c \<noteq> CHR '','') (concat gs)" by (induction gs) simp_all
  then have "filter (\<lambda>c. c \<noteq> CHR '','') (format_count v) = ds"
    using nc [of ds] all unfolding fc by (metis filter_append order_refl)
  then have "dec_val (filter (\<lambda>c. c \<noteq> CHR '','') (format_count v)) = unat v" by (simp add: ds_def)
  moreover have "length (take i ds) = i" using k(2) by simp
  ultimately show ?thesis using fc len all dig k(3,4) ds_def by metis
qed

end
