(* ===== verification/Terminal_Display.thy ===== *)
theory Terminal_Display
  imports Display Metric_Format Size_Parser
begin

text \<open>
  \<open>TerminalDisplay\<close> (\<open>src/display/terminal_display.cpp\<close>). The stream is the list of what was
  inserted, one text for each use of the insertion operator; the clock is a parameter. Glyphs
  are their UTF-8 bytes.
\<close>

section \<open>Control sequences and glyphs\<close>

definition esc :: "string \<Rightarrow> string" where "esc s = CHR 0x1B # s"

definition kClearScreen :: string where "kClearScreen = esc ''[2J''"
definition kCursorHome :: string where "kCursorHome = esc ''[H''"
definition kHideCursor :: string where "kHideCursor = esc ''[?25l''"
definition kShowCursor :: string where "kShowCursor = esc ''[?25h''"
definition kClearLine :: string where "kClearLine = esc ''[K''"
definition kClearBelow :: string where "kClearBelow = esc ''[0J''"
definition kEnterAlt :: string where "kEnterAlt = esc ''[?1049h''"
definition kLeaveAlt :: string where "kLeaveAlt = esc ''[?1049l''"

definition kVert :: string where "kVert = [CHR 0xE2, CHR 0x94, CHR 0x82]"
definition kCross :: string where "kCross = [CHR 0xE2, CHR 0x94, CHR 0xBC]"
definition kHoriz :: string where "kHoriz = [CHR 0xE2, CHR 0x94, CHR 0x80]"
definition kDouble :: string where "kDouble = [CHR 0xE2, CHR 0x95, CHR 0x90]"
definition kBarFull :: string where "kBarFull = [CHR 0xE2, CHR 0x96, CHR 0x88]"
definition kBarEmpty :: string where "kBarEmpty = [CHR 0xE2, CHR 0x96, CHR 0x91]"
definition kDash :: string where "kDash = [CHR 0xE2, CHR 0x80, CHR 0x94]"

definition kColJob :: int where "kColJob = 16"
definition kColIops :: int where "kColIops = 19"
definition kColBw :: int where "kColBw = 18"
definition kColLat :: int where "kColLat = 16"

definition kRowWidth :: int where
  "kRowWidth = 1 + kColJob + 3 + kColIops + 3 + kColBw + 3 + kColLat"

definition kBarWidth :: int where "kBarWidth = 40"

section \<open>Cells and rows\<close>

definition repeat_glyph :: "string \<Rightarrow> int \<Rightarrow> string" where
  "repeat_glyph glyph count = (if count \<le> 0 then [] else concat (replicate (nat count) glyph))"

text \<open>\<open>static_cast<int>\<close> of a double that is not negative cuts the fraction off.\<close>

definition format_progress_bar :: "fmt_api \<Rightarrow> int \<Rightarrow> int \<Rightarrow> int \<Rightarrow> string" where
  "format_progress_bar fmt elapsed all width =
     (let frac = (if all > 0 then clamp (fl (of_int elapsed / of_int all)) 0 1 else 0);
          filled = \<lfloor>fl (frac * of_int width)\<rfloor>;
          pct = llround (fl (frac * 100))
      in ''['' @ repeat_glyph kBarFull filled @ repeat_glyph kBarEmpty (width - filled) @ ''] '' @
         fm_right3 fmt pct @ ''%'')"

definition format_iops_cell :: "u64 \<Rightarrow> u64 \<Rightarrow> string" where
  "format_iops_cell instant average = format_count instant @ '' / '' @ format_count average"

definition format_bw_cell :: "fmt_api \<Rightarrow> u64 \<Rightarrow> u64 \<Rightarrow> string" where
  "format_bw_cell fmt instant average =
     fm_u64 fmt (rate_mib instant) @ ''/'' @ fm_u64 fmt (rate_mib average) @ '' MB/s''"

definition format_lat_cell :: "fmt_api \<Rightarrow> u64 \<Rightarrow> u64 \<Rightarrow> u64 \<Rightarrow> string" where
  "format_lat_cell fmt p50 p95 p99 =
     fm_u64 fmt (latency_us p50) @ ''/'' @ fm_u64 fmt (latency_us p95) @ ''/'' @
     fm_u64 fmt (latency_us p99) @ '' '' @ kMicroSign @ ''s''"

definition data_row :: "fmt_api \<Rightarrow> string \<Rightarrow> string \<Rightarrow> string \<Rightarrow> string \<Rightarrow> string" where
  "data_row fmt job iops bw lat =
     '' '' @ fm_left fmt (nat kColJob) job @ '' '' @ kVert @ '' '' @ fm_left fmt (nat kColIops) iops @
     '' '' @ kVert @ '' '' @ fm_left fmt (nat kColBw) bw @ '' '' @ kVert @ '' '' @ lat"

definition separator_row :: string where
  "separator_row =
     repeat_glyph kHoriz (kColJob + 2) @ kCross @ repeat_glyph kHoriz (kColIops + 2) @ kCross @
     repeat_glyph kHoriz (kColBw + 2) @ kCross @ repeat_glyph kHoriz (kColLat + 1)"

definition format_job_config :: "fmt_api \<Rightarrow> job_config \<Rightarrow> string" where
  "format_job_config fmt config =
     rw_mode_to_string (jc_rw_mode config) @ '' bs='' @ size_format (jc_block_size config) @
     '' iodepth='' @ fm_int fmt (jc_iodepth config)"

definition any_job_failed :: "benchmark_results \<Rightarrow> bool" where
  "any_job_failed results = list_ex jr_failed (br_jobs results)"

section \<open>The state\<close>

record terminal_display =
  td_context :: display_context
  td_out :: "string list"
  td_ansi :: bool
  td_alt_active :: bool
  td_runtime_seconds :: int
  td_start :: time_point

definition terminal_create :: "display_context \<Rightarrow> string list \<Rightarrow> bool \<Rightarrow> terminal_display" where
  "terminal_create context out ansi =
     \<lparr>td_context = context, td_out = out, td_ansi = ansi, td_alt_active = False,
      td_runtime_seconds = 0, td_start = 0\<rparr>"

definition put :: "string list \<Rightarrow> terminal_display \<Rightarrow> terminal_display" where
  "put xs d = d\<lparr>td_out := td_out d @ xs\<rparr>"

section \<open>The live view\<close>

text \<open>The lambda \<open>add_line\<close> of \<open>RenderLiveView\<close>.\<close>

definition add_live_line :: "string \<Rightarrow> string \<Rightarrow> string" where
  "add_live_line frame content = (if frame \<noteq> [] then frame @ [CHR 0x0A] else frame) @ content @ kClearLine"

definition live_job_row :: "fmt_api \<Rightarrow> per_job_metrics \<Rightarrow> string" where
  "live_job_row fmt job =
     data_row fmt (pm_job_name job) (format_iops_cell (pm_iops_instant job) (pm_iops_cumulative job))
       (format_bw_cell fmt (pm_bw_instant job) (pm_bw_cumulative job))
       (format_lat_cell fmt (pm_lat_p50_ns job) (pm_lat_p95_ns job) (pm_lat_p99_ns job))"

text \<open>The contents handed to \<open>add_line\<close>, in order.\<close>

definition live_lines ::
    "fmt_api \<Rightarrow> terminal_display \<Rightarrow> metrics_snapshot \<Rightarrow> int \<Rightarrow> string list" where
  "live_lines fmt d snapshot secs =
     [''C-FIO Benchmark '' @ kDash @ '' Running ['' @ format_duration fmt secs @ '' / '' @
        format_duration fmt (td_runtime_seconds d) @ '']    Engine: '' @ dc_engine_label (td_context d) @
        ''    Direct: '' @ dc_direct_label (td_context d),
      format_progress_bar fmt secs (td_runtime_seconds d) kBarWidth,
      repeat_glyph kDouble kRowWidth,
      data_row fmt ''Job'' ''IOPS (inst/avg)'' ''BW (inst/avg)'' ''Lat P50/P95/P99'',
      separator_row] @
     map (live_job_row fmt) (ms_jobs snapshot) @
     (let agg = ms_aggregate snapshot in
     [separator_row,
      data_row fmt ''TOTAL'' (format_iops_cell (pm_iops_instant agg) (pm_iops_cumulative agg))
        (format_bw_cell fmt (pm_bw_instant agg) (pm_bw_cumulative agg)) [],
      repeat_glyph kDouble kRowWidth,
      '' Errors: R:'' @ fm_u64 fmt (pm_read_errors agg) @ '' W:'' @ fm_u64 fmt (pm_write_errors agg) @
        ''  '' @ kVert @ ''  Log: '' @ dc_log_path (td_context d)])"

definition render_live_view ::
    "fmt_api \<Rightarrow> terminal_display \<Rightarrow> metrics_snapshot \<Rightarrow> int \<Rightarrow> string" where
  "render_live_view fmt d snapshot secs =
     foldl add_live_line [] (live_lines fmt d snapshot secs) @ kClearBelow"

section \<open>The summary\<close>

definition add_summary_line :: "string \<Rightarrow> string \<Rightarrow> string" where
  "add_summary_line frame content = frame @ content @ [CHR 0x0A]"

record summary_totals =
  st_iops :: u64
  st_bw :: u64
  st_bytes :: u64
  st_read_errors :: u64
  st_write_errors :: u64

definition zero_totals :: summary_totals where
  "zero_totals = \<lparr>st_iops = 0, st_bw = 0, st_bytes = 0, st_read_errors = 0, st_write_errors = 0\<rparr>"

definition add_totals :: "summary_totals \<Rightarrow> job_results \<Rightarrow> summary_totals" where
  "add_totals t job =
     \<lparr>st_iops = st_iops t + jr_iops_avg job, st_bw = st_bw t + jr_bw_avg_bytes job,
      st_bytes = st_bytes t + jr_total_bytes job,
      st_read_errors = st_read_errors t + jr_read_errors job,
      st_write_errors = st_write_errors t + jr_write_errors job\<rparr>"

text \<open>The lines of one job: a rule in front of every job but the first.\<close>

definition summary_job_lines :: "fmt_api \<Rightarrow> bool \<Rightarrow> job_results \<Rightarrow> string list" where
  "summary_job_lines fmt first job =
     (if first then [] else [repeat_glyph kHoriz kRowWidth]) @
     ['' '' @ jr_name job @ ''    '' @ format_job_config fmt (jr_config job),
      ''   IOPS '' @ format_count (jr_iops_avg job) @ ''   BW '' @ fm_u64 fmt (rate_mib (jr_bw_avg_bytes job)) @
        '' MB/s   IO '' @ format_bytes fmt (jr_total_bytes job) @ '' ('' @ format_count (jr_total_ios job) @
        '' ops)'',
      ''   Lat '' @ kMicroSign @ ''s  min '' @ format_count (latency_us (jr_lat_min_ns job)) @
        '' p50 '' @ format_count (latency_us (jr_lat_p50_ns job)) @
        '' p95 '' @ format_count (latency_us (jr_lat_p95_ns job)) @
        '' p99 '' @ format_count (latency_us (jr_lat_p99_ns job)) @
        '' max '' @ format_count (latency_us (jr_lat_max_ns job)) @
        ''   Err R:'' @ fm_u64 fmt (jr_read_errors job) @ '' W:'' @ fm_u64 fmt (jr_write_errors job)] @
     (if jr_failed job then [''   FAILED: '' @ jr_error_message job] else [])"

fun summary_jobs ::
    "fmt_api \<Rightarrow> bool \<Rightarrow> job_results list \<Rightarrow> summary_totals \<Rightarrow> string list \<times> summary_totals" where
  "summary_jobs fmt first [] t = ([], t)"
| "summary_jobs fmt first (job # jobs) t =
     (case summary_jobs fmt False jobs (add_totals t job) of
        (lines, t') \<Rightarrow> (summary_job_lines fmt first job @ lines, t'))"

definition summary_lines :: "fmt_api \<Rightarrow> terminal_display \<Rightarrow> benchmark_results \<Rightarrow> string list" where
  "summary_lines fmt d results =
     (let elapsed = \<lfloor>br_elapsed_seconds results\<rfloor>;
          runtime = (if br_interrupted results
                     then format_duration fmt elapsed @ '' of '' @
                          format_duration fmt (br_runtime_seconds results)
                     else format_duration fmt elapsed);
          stop_label = (if any_job_failed results then '' (aborted: job failure)''
                        else if br_interrupted results then '' (interrupted)'' else []);
          (job_lines, t) = summary_jobs fmt True (br_jobs results) zero_totals
      in [''C-FIO Benchmark '' @ kDash @ '' Complete'' @ stop_label,
             '' Runtime '' @ runtime @ ''   Engine '' @ dc_engine_label (td_context d) @
               ''   Direct '' @ dc_direct_label (td_context d),
             repeat_glyph kDouble kRowWidth] @
            job_lines @
            [repeat_glyph kDouble kRowWidth,
             '' TOTAL   IOPS '' @ format_count (st_iops t) @ ''   BW '' @ fm_u64 fmt (rate_mib (st_bw t)) @
               '' MB/s   IO '' @ format_bytes fmt (st_bytes t) @
               ''   Err R:'' @ fm_u64 fmt (st_read_errors t) @ '' W:'' @ fm_u64 fmt (st_write_errors t),
             '' Log: '' @ dc_log_path (td_context d)])"

definition render_summary :: "fmt_api \<Rightarrow> terminal_display \<Rightarrow> benchmark_results \<Rightarrow> string" where
  "render_summary fmt d results = foldl add_summary_line [] (summary_lines fmt d results)"

section \<open>The operations\<close>

type_synonym 'c terminal_state = "terminal_display \<times> 'c"

definition terminal_init ::
    "fmt_api \<Rightarrow> ('c \<Rightarrow> time_point \<times> 'c) \<Rightarrow> int \<Rightarrow> ('c terminal_state, unit) prog" where
  "terminal_init fmt now runtime_seconds = (\<lambda>(d, c).
     case now c of (t, c') \<Rightarrow>
       let d1 = d\<lparr>td_runtime_seconds := runtime_seconds, td_start := t\<rparr> in
       if \<not> td_ansi d1 then Some (Inr (), (d1, c'))
       else Some (Inr (), ((put [kEnterAlt, kClearScreen, kCursorHome, kHideCursor,
                                 render_live_view fmt d1 empty_snapshot 0] d1)\<lparr>td_alt_active := True\<rparr>, c')))"

text \<open>\<open>duration_cast<seconds>\<close> cuts towards zero.\<close>

definition whole_seconds :: "int \<Rightarrow> int" where
  "whole_seconds ns = (if ns \<ge> 0 then ns div 1000000000 else - ((- ns) div 1000000000))"

definition clamp_int :: "int \<Rightarrow> int \<Rightarrow> int \<Rightarrow> int" where
  "clamp_int v lo hi = (if v < lo then lo else if hi < v then hi else v)"

definition terminal_update ::
    "fmt_api \<Rightarrow> ('c \<Rightarrow> time_point \<times> 'c) \<Rightarrow> metrics_snapshot \<Rightarrow> ('c terminal_state, unit) prog" where
  "terminal_update fmt now snapshot = (\<lambda>(d, c).
     if \<not> td_ansi d then Some (Inr (), (d, c))
     else case now c of (t, c') \<Rightarrow>
       let delta = whole_seconds (t - td_start d);
           elapsed = clamp_int delta 0 (td_runtime_seconds d)
       in Some (Inr (), (put [kCursorHome, render_live_view fmt d snapshot elapsed] d, c')))"

definition leave_alt_screen :: "terminal_display \<Rightarrow> terminal_display" where
  "leave_alt_screen d =
     (if \<not> td_alt_active d then d else (put [kShowCursor, kLeaveAlt] d)\<lparr>td_alt_active := False\<rparr>)"

definition terminal_summary ::
    "fmt_api \<Rightarrow> benchmark_results \<Rightarrow> ('c terminal_state, unit) prog" where
  "terminal_summary fmt results = (\<lambda>(d, c).
     let d1 = leave_alt_screen d in Some (Inr (), (put [render_summary fmt d1 results] d1, c)))"

definition terminal_shutdown :: "('c terminal_state, unit) prog" where
  "terminal_shutdown = (\<lambda>(d, c). Some (Inr (), (leave_alt_screen d, c)))"

definition terminal_ops :: "fmt_api \<Rightarrow> ('c \<Rightarrow> time_point \<times> 'c) \<Rightarrow> 'c terminal_state display_ops" where
  "terminal_ops fmt now =
     \<lparr>di_init = terminal_init fmt now, di_update = terminal_update fmt now,
      di_summary = terminal_summary fmt, di_shutdown = terminal_shutdown,
      di_stop_requested = (\<lambda>s. (False, s))\<rparr>"

section \<open>It fulfils the contract\<close>

lemmas terminal_defs =
  terminal_ops_def terminal_init_def terminal_update_def terminal_summary_def terminal_shutdown_def
  leave_alt_screen_def put_def Let_def

lemma terminal_backend: "display_backend (terminal_ops fmt now) (\<lambda>(d, c). td_alt_active d)"
  by unfold_locales (auto simp: terminal_defs split: prod.splits)

interpretation terminal: display_backend "terminal_ops fmt now" "\<lambda>(d, c). td_alt_active d" for fmt now
  by (rule terminal_backend)

section \<open>The screen is given back\<close>

text \<open>
  What a terminal shows after the insertions: whether it is on the alternate screen, and whether
  the cursor is hidden.
\<close>

definition on_alt_screen :: "string list \<Rightarrow> bool" where
  "on_alt_screen out = foldl (\<lambda>b x. if x = kEnterAlt then True else if x = kLeaveAlt then False else b) False out"

definition cursor_hidden :: "string list \<Rightarrow> bool" where
  "cursor_hidden out = foldl (\<lambda>b x. if x = kHideCursor then True else if x = kShowCursor then False else b) False out"

lemmas control_defs =
  kClearScreen_def kCursorHome_def kHideCursor_def kShowCursor_def kEnterAlt_def kLeaveAlt_def esc_def

lemma foldl_head:
  assumes "\<And>f x. f \<noteq> [] \<Longrightarrow> g f x \<noteq> [] \<and> hd (g f x) = hd f" "f \<noteq> []"
  shows "foldl g f xs \<noteq> [] \<and> hd (foldl g f xs) = hd f"
  using assms by (induction xs arbitrary: f) auto

lemma live_view_head: "render_live_view fmt d snapshot secs = CHR ''C'' # tl (render_live_view fmt d snapshot secs)"
proof -
  obtain u lines where l: "live_lines fmt d snapshot secs = (CHR ''C'' # u) # lines"
    unfolding live_lines_def by simp
  have "foldl add_live_line (add_live_line [] (CHR ''C'' # u)) lines \<noteq> [] \<and>
      hd (foldl add_live_line (add_live_line [] (CHR ''C'' # u)) lines) = CHR ''C''"
    using foldl_head [of add_live_line "add_live_line [] (CHR ''C'' # u)" lines] by (simp add: add_live_line_def)
  then show ?thesis unfolding render_live_view_def l by (cases "foldl add_live_line (add_live_line [] (CHR ''C'' # u)) lines") simp_all
qed

lemma summary_head: "render_summary fmt d results = CHR ''C'' # tl (render_summary fmt d results)"
proof -
  have "foldl add_summary_line [] ((CHR ''C'' # u) # xs) = CHR ''C'' # tl (foldl add_summary_line [] ((CHR ''C'' # u) # xs))"
    for u xs
    using foldl_head [of add_summary_line "CHR ''C'' # u @ [CHR 0x0A]" xs]
    by (cases "foldl add_summary_line (CHR ''C'' # u @ [CHR 0x0A]) xs") (simp_all add: add_summary_line_def)
  moreover obtain u xs where "summary_lines fmt d results = (CHR ''C'' # u) # xs"
    unfolding summary_lines_def Let_def by (cases "summary_jobs fmt True (br_jobs results) zero_totals") simp
  ultimately show ?thesis unfolding render_summary_def by (simp only:)
qed

lemma text_chunk [simp]:
  "render_live_view fmt d snapshot secs \<noteq> esc s" "render_summary fmt d results \<noteq> esc s"
  by (subst live_view_head, simp add: esc_def) (subst summary_head, simp add: esc_def)

lemma screen_append:
  "on_alt_screen (out @ [x]) = (if x = kEnterAlt then True else if x = kLeaveAlt then False else on_alt_screen out)"
  "cursor_hidden (out @ [x]) = (if x = kHideCursor then True else if x = kShowCursor then False else cursor_hidden out)"
  by (simp_all add: on_alt_screen_def cursor_hidden_def)

lemma screen_puts:
  "on_alt_screen (out @ [kEnterAlt, kClearScreen, kCursorHome, kHideCursor, render_live_view fmt d x n])"
  "cursor_hidden (out @ [kEnterAlt, kClearScreen, kCursorHome, kHideCursor, render_live_view fmt d x n])"
  "on_alt_screen (out @ [kCursorHome, render_live_view fmt d x n]) = on_alt_screen out"
  "cursor_hidden (out @ [kCursorHome, render_live_view fmt d x n]) = cursor_hidden out"
  "\<not> on_alt_screen (out @ [kShowCursor, kLeaveAlt])"
  "\<not> cursor_hidden (out @ [kShowCursor, kLeaveAlt])"
  "on_alt_screen (out @ [render_summary fmt d res]) = on_alt_screen out"
  "cursor_hidden (out @ [render_summary fmt d res]) = cursor_hidden out"
  using text_chunk by (simp_all add: on_alt_screen_def cursor_hidden_def control_defs)

text \<open>A text without a control sequence, and inputs that bring none.\<close>

definition plain :: "string \<Rightarrow> bool" where
  "plain s \<longleftrightarrow> CHR 0x1B \<notin> set s"

definition plain_inputs :: "fmt_api \<Rightarrow> display_context \<Rightarrow> benchmark_results \<Rightarrow> bool" where
  "plain_inputs fmt ctx results \<longleftrightarrow>
     (\<forall>i. plain (fm_int fmt i) \<and> plain (fm_zero2 fmt i)) \<and> (\<forall>x. plain (fm_fixed1 fmt x)) \<and>
     plain (dc_engine_label ctx) \<and> plain (dc_direct_label ctx) \<and> plain (dc_log_path ctx) \<and>
     list_all (\<lambda>job. plain (jr_name job) \<and> plain (jr_error_message job)) (br_jobs results)"

lemma plain_simps [simp]:
  "plain []" "plain (c # s) \<longleftrightarrow> c \<noteq> CHR 0x1B \<and> plain s" "plain (s @ t) \<longleftrightarrow> plain s \<and> plain t"
  by (auto simp: plain_def)

lemma plain_concat: "plain (concat xs) \<longleftrightarrow> list_all plain xs"
  by (auto simp: plain_def list_all_iff)

lemma plain_dec [simp]: "plain (dec n)"
  using dec_digits [of "CHR 0x1B" n] by (auto simp: plain_def is_digit_def)

lemma plain_count [simp]: "plain (format_count v)"
proof -
  have "plain [dec64 v ! i]" if "i < length (dec64 v)" for i
    using plain_dec [of "unat v"] that unfolding plain_def by (metis empty_iff list.set(1) nth_mem set_ConsD)
  then show ?thesis by (auto simp: format_count_def Let_def plain_concat list_all_iff)
qed

lemma plain_glyphs [simp]: "plain kVert" "plain kDash" "plain kMicroSign" "plain kDouble" "plain kHoriz"
  by (simp_all add: kVert_def kDash_def kMicroSign_def kDouble_def kHoriz_def)

lemma plain_repeat [simp]: "plain g \<Longrightarrow> plain (repeat_glyph g n)"
  by (auto simp: repeat_glyph_def plain_concat list_all_iff)

lemma plain_mode [simp]: "plain (rw_mode_to_string m)" "plain (size_format n)"
  by (cases m) (simp_all add: size_format_def)

lemma plain_summary_job:
  assumes "plain_inputs fmt ctx results" "job \<in> set (br_jobs results)"
  shows "list_all plain (summary_job_lines fmt first job)"
  using assms
  by (auto simp: summary_job_lines_def plain_inputs_def format_job_config_def format_bytes_def list_all_iff)

lemma plain_summary_jobs:
  assumes "plain_inputs fmt ctx results"
  shows "set jobs \<subseteq> set (br_jobs results) \<Longrightarrow> list_all plain (fst (summary_jobs fmt first jobs t))"
proof (induction jobs arbitrary: first t)
  case (Cons job jobs)
  then show ?case using plain_summary_job [OF assms, of job first]
    by (auto split: prod.splits) (metis fst_conv)
qed simp

lemma plain_summary:
  assumes "plain_inputs fmt (td_context d) results"
  shows "plain (render_summary fmt d results)"
proof -
  obtain lines t where j: "summary_jobs fmt True (br_jobs results) zero_totals = (lines, t)" by fastforce
  have "list_all plain lines" using plain_summary_jobs [OF assms, of "br_jobs results" True zero_totals] j by simp
  then have "list_all plain (summary_lines fmt d results)"
    using assms by (auto simp: summary_lines_def plain_inputs_def j Let_def format_duration_def format_bytes_def)
  moreover have "plain (foldl add_summary_line f xs)" if "plain f" "list_all plain xs" for f xs
    using that by (induction xs arbitrary: f) (auto simp: add_summary_line_def)
  ultimately show ?thesis by (simp add: render_summary_def)
qed

lemma render_summary_cong: "td_context d = td_context d' \<Longrightarrow> render_summary fmt d results = render_summary fmt d' results"
  by (simp add: render_summary_def summary_lines_def)

text \<open>The flag of the display is what the terminal shows; without ANSI only summaries go out.\<close>

definition screen_inv :: "fmt_api \<Rightarrow> terminal_display \<Rightarrow> 'c terminal_state \<Rightarrow> bool" where
  "screen_inv fmt d0 s \<longleftrightarrow>
     on_alt_screen (td_out (fst s)) = td_alt_active (fst s) \<and>
     cursor_hidden (td_out (fst s)) = td_alt_active (fst s) \<and>
     td_ansi (fst s) = td_ansi d0 \<and> td_context (fst s) = td_context d0 \<and>
     (td_ansi d0 \<or> \<not> td_alt_active (fst s) \<and> (\<exists>rs. td_out (fst s) = map (render_summary fmt d0) rs))"

lemma screen_inv_leave: "screen_inv fmt d0 (d, c) \<Longrightarrow> screen_inv fmt d0 (leave_alt_screen d, c)"
  using screen_puts(5,6) by (auto simp: screen_inv_def leave_alt_screen_def put_def)

lemma leave_alt_same [simp]: "td_context (leave_alt_screen d) = td_context d"
  by (simp add: leave_alt_screen_def put_def)

lemma screen_inv_summary:
  assumes "screen_inv fmt d0 (d, c)"
  shows "screen_inv fmt d0 (put [render_summary fmt d res] d, c)"
proof -
  have "render_summary fmt d res = render_summary fmt d0 res"
    using assms by (intro render_summary_cong) (simp add: screen_inv_def)
  moreover have "\<exists>rs'. map f rs @ [f res] = map f rs'" for f :: "benchmark_results \<Rightarrow> string" and rs
    by (intro exI [of _ "rs @ [res]"]) simp
  ultimately show ?thesis
    using assms by (auto simp: screen_inv_def put_def screen_puts(7,8))
qed

lemma screen_inv_reach:
  assumes "display_reach (terminal_ops fmt now) s s'" "screen_inv fmt d0 s"
  shows "screen_inv fmt d0 s'"
proof (rule display_reach_invariant [where I = "screen_inv fmt d0", OF assms])
  fix runtime r and s s' :: "'a terminal_state"
  assume "screen_inv fmt d0 s" "di_init (terminal_ops fmt now) runtime s = Some (r, s')"
  then show "screen_inv fmt d0 s'"
    using screen_puts(1,2)
    by (auto simp: screen_inv_def terminal_ops_def terminal_init_def put_def Let_def split: prod.splits if_splits)
next
  fix x r and s s' :: "'a terminal_state"
  assume "screen_inv fmt d0 s" "di_update (terminal_ops fmt now) x s = Some (r, s')"
  then show "screen_inv fmt d0 s'"
    by (auto simp: screen_inv_def terminal_ops_def terminal_update_def put_def Let_def screen_puts(3,4)
        split: prod.splits if_splits)
next
  fix res r and s s' :: "'a terminal_state"
  assume i: "screen_inv fmt d0 s" and r: "di_summary (terminal_ops fmt now) res s = Some (r, s')"
  obtain d c where s: "s = (d, c)" by (cases s)
  from screen_inv_summary [OF screen_inv_leave [OF i [unfolded s]], of res] r show "screen_inv fmt d0 s'"
    by (auto simp: s terminal_ops_def terminal_summary_def Let_def)
next
  fix r and s s' :: "'a terminal_state"
  assume "screen_inv fmt d0 s" "di_shutdown (terminal_ops fmt now) s = Some (r, s')"
  then show "screen_inv fmt d0 s'"
    by (cases s) (auto simp: terminal_ops_def terminal_shutdown_def dest: screen_inv_leave)
qed (simp add: terminal_ops_def)

text \<open>
  C35. However its operations are called, the flag \<open>alt_active_\<close> of the terminal display says whether
  the terminal is on the alternate screen with a hidden cursor; after \<open>Shutdown\<close> it is on neither.
  A display without ANSI support writes summaries and nothing else, and, unless a job name, an error
  message or a label brings one, not a single escape character.
\<close>

theorem terminal_screen_restored:
  assumes "display_reach (terminal_ops fmt now) (terminal_create ctx [] ansi, c) s"
  shows "on_alt_screen (td_out (fst s)) = td_alt_active (fst s) \<and>
    cursor_hidden (td_out (fst s)) = td_alt_active (fst s) \<and>
    (ansi \<or> (\<exists>rs. td_out (fst s) = map (render_summary fmt (terminal_create ctx [] ansi)) rs \<and>
       (list_all (plain_inputs fmt ctx) rs \<longrightarrow> CHR 0x1B \<notin> set (concat (td_out (fst s)))))) \<and>
    (\<exists>s'. di_shutdown (terminal_ops fmt now) s = Some (Inr (), s') \<and>
       \<not> on_alt_screen (td_out (fst s')) \<and> \<not> cursor_hidden (td_out (fst s')))"
proof -
  let ?d = "terminal_create ctx [] ansi"
  have "screen_inv fmt ?d (?d, c)"
    by (simp add: screen_inv_def terminal_create_def on_alt_screen_def cursor_hidden_def)
  from screen_inv_reach [OF assms this] have s: "screen_inv fmt ?d s" .
  obtain s' where s': "di_shutdown (terminal_ops fmt now) s = Some (Inr (), s')" "\<not> td_alt_active (fst s')"
    using terminal.shutdown_ends [of fmt now s] by (auto simp: case_prod_unfold)
  have s'': "screen_inv fmt ?d s'"
    using screen_inv_reach [OF display_reach.shutdown [OF display_reach.start s'(1)] s] .
  have "plain (render_summary fmt ?d r)" if "plain_inputs fmt ctx r" for r
    using that by (intro plain_summary) (simp add: terminal_create_def)
  then have "CHR 0x1B \<notin> set (concat (map (render_summary fmt ?d) rs))" if "list_all (plain_inputs fmt ctx) rs" for rs
    using that by (auto simp: plain_def list_all_iff)
  moreover have "td_ansi ?d = ansi" by (simp add: terminal_create_def)
  ultimately show ?thesis using s s' s'' unfolding screen_inv_def by metis
qed

text \<open>The documented behaviour of the format library on the fields the program uses.\<close>

definition pad_left :: "nat \<Rightarrow> char \<Rightarrow> string \<Rightarrow> string" where
  "pad_left n c s = replicate (n - length s) c @ s"

definition plain_fmt :: fmt_api where
  "plain_fmt =
     \<lparr>fm_int = dec_int, fm_zero2 = (\<lambda>i. pad_left 2 CHR ''0'' (dec_int i)),
      fm_right3 = (\<lambda>i. pad_left 3 CHR '' '' (dec_int i)),
      fm_fixed1 = (\<lambda>x. let t = round_even (10 * x) in dec_int (t div 10) @ ''.'' @ dec_int (t mod 10)),
      fm_left = (\<lambda>n s. s @ replicate (n - length s) CHR '' '')\<rparr>"

theorem terminal_screen_restored_witness:
  "\<exists>s. display_reach (terminal_ops plain_fmt (\<lambda>c. (int c, c + 1)))
        (terminal_create \<lparr>dc_engine_label = ''psync'', dc_direct_label = ''ON'', dc_log_path = ''cfio.log''\<rparr> [] True, 0) s \<and>
     on_alt_screen (td_out (fst s)) \<and>
     (\<exists>s'. di_shutdown (terminal_ops plain_fmt (\<lambda>c. (int c, c + 1))) s = Some (Inr (), s') \<and>
       \<not> on_alt_screen (td_out (fst s')) \<and> \<not> cursor_hidden (td_out (fst s')))"
proof -
  let ?ops = "terminal_ops plain_fmt (\<lambda>c. (int c, c + 1 :: nat))"
  let ?d = "terminal_create \<lparr>dc_engine_label = ''psync'', dc_direct_label = ''ON'', dc_log_path = ''cfio.log''\<rparr> [] True"
  obtain s where s: "di_init ?ops 10 (?d, 0) = Some (Inr (), s)" using terminal.init_returns by blast
  have r: "display_reach ?ops (?d, 0) s" by (rule display_reach.init [OF display_reach.start s])
  have "td_alt_active (fst s)"
    using s by (auto simp: terminal_ops_def terminal_init_def terminal_create_def put_def Let_def)
  with terminal_screen_restored [OF r] r show ?thesis by blast
qed

section \<open>The layout of the live view\<close>

lemma foldl_live_lines:
  "f \<noteq> [] \<Longrightarrow> foldl add_live_line f xs = f @ concat (map (\<lambda>l. CHR 0x0A # l @ kClearLine) xs)"
  by (induction xs arbitrary: f) (simp_all add: add_live_line_def)

lemma live_view_joined:
  assumes "xs \<noteq> []"
  shows "foldl add_live_line [] xs =
    concat (map (\<lambda>l. l @ kClearLine @ [CHR 0x0A]) (butlast xs)) @ last xs @ kClearLine"
proof (cases xs)
  case (Cons x ys)
  have ne: "x @ kClearLine \<noteq> []" by (simp add: kClearLine_def esc_def)
  have "z @ concat (map (\<lambda>l. CHR 0x0A # l @ e) zs) =
      concat (map (\<lambda>l. l @ e @ [CHR 0x0A]) (butlast (u # zs))) @ last (u # zs) @ e"
    if "z = u @ e" for z u e and zs :: "string list"
    using that by (induction zs arbitrary: z u) auto
  from this [of "x @ kClearLine" x kClearLine ys] show ?thesis
    unfolding Cons by (simp add: add_live_line_def foldl_live_lines [OF ne])
qed (use assms in simp)

lemma progress_bar_cells:
  assumes "0 \<le> w" "w \<le> 2 ^ 20"
  obtains k pct where "0 \<le> k" "k \<le> w" "0 \<le> pct" "pct \<le> 100"
    "if all \<le> 0 \<or> e \<le> 0 then k = 0 \<and> pct = 0 else if all \<le> e then k = w \<and> pct = 100 else True"
    "format_progress_bar fmt e all w =
       ''['' @ repeat_glyph kBarFull k @ repeat_glyph kBarEmpty (w - k) @ ''] '' @ fm_right3 fmt pct @ ''%''"
proof -
  define frac where "frac = (if all > 0 then clamp (fl (of_int e / of_int all)) 0 1 else 0)"
  have f: "0 \<le> frac" "frac \<le> 1" by (simp_all add: frac_def clamp_def)
  have "frac * of_int w \<le> of_int w" using f assms(1) by (simp add: mult_left_le_one_le)
  then have k: "0 \<le> fl (frac * of_int w)" "fl (frac * of_int w) \<le> of_int w"
    using f assms by (auto intro: fl_nonneg fl_le_int)
  have "frac * 100 \<le> of_int 100" using f by simp
  then have p: "0 \<le> fl (frac * 100)" "fl (frac * 100) \<le> of_int 100"
    using f by (intro fl_nonneg fl_le_int; simp)+
  have edge: "if all \<le> 0 \<or> e \<le> 0 then frac = 0 else if all \<le> e then frac = 1 else True"
  proof (cases "all \<le> 0 \<or> e \<le> 0")
    case True
    then show ?thesis
    proof
      assume "e \<le> 0"
      then have "(of_int e :: rat) / of_int all \<le> of_int 0" if "0 < all" using that by (simp add: divide_nonpos_pos)
      then have "fl (of_int e / of_int all) \<le> 0" if "0 < all" using that fl_le_int [of _ 0] by fastforce
      then show ?thesis using True by (auto simp: frac_def clamp_def)
    qed (simp add: frac_def)
  next
    case False
    show ?thesis
    proof (cases "all \<le> e")
      case True
      then have "of_int 1 \<le> (of_int e :: rat) / of_int all" using False by simp
      then have "1 \<le> fl (of_int e / of_int all)" using fl_mono [of 1 "of_int e / of_int all"] by simp
      then show ?thesis using False True by (auto simp: frac_def clamp_def)
    qed (use False in simp)
  qed
  let ?k = "\<lfloor>fl (frac * of_int w)\<rfloor>" and ?pct = "llround (fl (frac * 100))"
  have w: "fl (of_int w) = of_int w" using assms by (intro fl_of_int) simp
  have h: "fl 100 = 100" using fl_of_int [of 100] by simp
  have half: "\<lfloor>1 / 2 :: rat\<rfloor> = 0" "\<lfloor>201 / 2 :: rat\<rfloor> = 100" by (simp_all add: floor_eq_iff)
  show thesis
  proof (rule that [of ?k ?pct])
    show "0 \<le> ?k" "?k \<le> w" using k by (simp_all add: le_floor_iff floor_le_iff)
    show "0 \<le> ?pct" "?pct \<le> 100" using p by (auto simp: llround_def le_floor_iff floor_le_iff)
    show "if all \<le> 0 \<or> e \<le> 0 then ?k = 0 \<and> ?pct = 0 else if all \<le> e then ?k = w \<and> ?pct = 100 else True"
      using edge w h half by (auto simp: llround_def split: if_splits)
    show "format_progress_bar fmt e all w =
       ''['' @ repeat_glyph kBarFull ?k @ repeat_glyph kBarEmpty (w - ?k) @ ''] '' @ fm_right3 fmt ?pct @ ''%''"
      by (simp add: format_progress_bar_def Let_def frac_def)
  qed
qed

text \<open>
  The live view is one line for each job between five lines of heading and four of totals, each
  erased behind its text, with nothing left below. The second line is a bar of exactly forty
  cells, empty before the run and full at its end, with a percentage between 0 and 100.
\<close>

lemma live_view_layout:
  "\<exists>ls k pct.
     render_live_view fmt d snapshot secs =
       concat (map (\<lambda>l. l @ kClearLine @ [CHR 0x0A]) (butlast ls)) @ last ls @ kClearLine @ kClearBelow \<and>
     length ls = 5 + length (ms_jobs snapshot) + 4 \<and>
     take (length (ms_jobs snapshot)) (drop 5 ls) = map (live_job_row fmt) (ms_jobs snapshot) \<and>
     ls ! 1 = ''['' @ concat (replicate k kBarFull) @ concat (replicate (40 - k) kBarEmpty) @ ''] '' @
       fm_right3 fmt pct @ ''%'' \<and>
     k \<le> 40 \<and> 0 \<le> pct \<and> pct \<le> 100 \<and>
     (if td_runtime_seconds d \<le> 0 \<or> secs \<le> 0 then k = 0 \<and> pct = 0
      else if td_runtime_seconds d \<le> secs then k = 40 \<and> pct = 100 else True)"
proof -
  let ?ls = "live_lines fmt d snapshot secs"
  obtain k pct where bar: "0 \<le> k" "k \<le> kBarWidth" "0 \<le> pct" "pct \<le> 100"
    "if td_runtime_seconds d \<le> 0 \<or> secs \<le> 0 then k = 0 \<and> pct = 0
     else if td_runtime_seconds d \<le> secs then k = kBarWidth \<and> pct = 100 else True"
    "format_progress_bar fmt secs (td_runtime_seconds d) kBarWidth =
       ''['' @ repeat_glyph kBarFull k @ repeat_glyph kBarEmpty (kBarWidth - k) @ ''] '' @ fm_right3 fmt pct @ ''%''"
    by (rule progress_bar_cells [of kBarWidth "td_runtime_seconds d" secs fmt]) (simp_all add: kBarWidth_def)
  have glyph: "repeat_glyph g n = concat (replicate (nat n) g)" for g n by (simp add: repeat_glyph_def)
  have "?ls \<noteq> []" by (simp add: live_lines_def)
  note joined = live_view_joined [OF this]
  have len: "length ?ls = 5 + length (ms_jobs snapshot) + 4" by (simp add: live_lines_def Let_def)
  have rows: "take (length (ms_jobs snapshot)) (drop 5 ?ls) = map (live_job_row fmt) (ms_jobs snapshot)"
    by (simp add: live_lines_def Let_def)
  have "?ls ! 1 = format_progress_bar fmt secs (td_runtime_seconds d) kBarWidth" by (simp add: live_lines_def)
  then have one: "?ls ! 1 = ''['' @ concat (replicate (nat k) kBarFull) @
      concat (replicate (40 - nat k) kBarEmpty) @ ''] '' @ fm_right3 fmt pct @ ''%''"
    using bar(1,2) unfolding bar(6) glyph by (simp add: kBarWidth_def nat_diff_distrib)
  have ends: "if td_runtime_seconds d \<le> 0 \<or> secs \<le> 0 then nat k = 0 \<and> pct = 0
     else if td_runtime_seconds d \<le> secs then nat k = 40 \<and> pct = 100 else True"
    using bar(5) by (auto simp: kBarWidth_def split: if_splits)
  have "nat k \<le> 40" using bar(2) by (simp add: kBarWidth_def)
  then show ?thesis
    using len rows one bar(3,4) ends unfolding render_live_view_def joined
    by (intro exI [of _ ?ls] exI [of _ "nat k"] exI [of _ pct]) (simp only: append_assoc)
qed

end
