(* ===== verification/Job_Table.thy ===== *)
theory Job_Table
  imports Terminal_Display
begin

text \<open>
  The rows of the live table and the summary line of the GUI
  (\<open>src/display/qt/qt_job_table_model.cpp\<close>), and their agreement with the terminal.
\<close>

section \<open>Rows\<close>

record job_table_row =
  jt_cells :: "string list"
  jt_error_detail :: string
  jt_is_total :: bool

definition kTotalRowName :: string where "kTotalRowName = ''TOTAL''"
definition kJobTableNoValue :: string where "kJobTableNoValue = ''-''"
definition kJobTableColumnCount :: nat where "kJobTableColumnCount = 9"

definition stop_label :: "benchmark_results \<Rightarrow> string" where
  "stop_label results =
     (if list_ex jr_failed (br_jobs results) then '' (aborted: job failure)''
      else if br_interrupted results then '' (interrupted)'' else [])"

definition make_row :: "fmt_api \<Rightarrow> per_job_metrics \<Rightarrow> bool \<Rightarrow> job_table_row" where
  "make_row fmt job is_total =
     \<lparr>jt_cells =
        [if is_total then kTotalRowName else pm_job_name job,
         format_count (pm_iops_instant job), format_count (pm_iops_cumulative job),
         format_rate fmt (pm_bw_instant job), format_rate fmt (pm_bw_cumulative job)] @
        (if is_total then [kJobTableNoValue, kJobTableNoValue, kJobTableNoValue]
         else [format_latency_us fmt (pm_lat_p50_ns job), format_latency_us fmt (pm_lat_p95_ns job),
               format_latency_us fmt (pm_lat_p99_ns job)]) @
        [format_count (pm_read_errors job + pm_write_errors job)],
      jt_error_detail = ''R:'' @ fm_u64 fmt (pm_read_errors job) @ '' W:'' @ fm_u64 fmt (pm_write_errors job),
      jt_is_total = is_total\<rparr>"

definition job_table_headers :: "string list" where
  "job_table_headers =
     [''Job'', ''IOPS inst'', ''IOPS avg'', ''BW inst'', ''BW avg'', ''P50'', ''P95'', ''P99'', ''Errors'']"

definition build_job_table_rows :: "fmt_api \<Rightarrow> metrics_snapshot \<Rightarrow> job_table_row list" where
  "build_job_table_rows fmt snapshot =
     map (\<lambda>job. make_row fmt job False) (ms_jobs snapshot) @ [make_row fmt (ms_aggregate snapshot) True]"

section \<open>The summary line\<close>

text \<open>The loop over the results, on its five sums.\<close>

fun sum_results ::
    "job_results list \<Rightarrow> u64 \<times> u64 \<times> u64 \<times> u64 \<times> u64 \<Rightarrow> u64 \<times> u64 \<times> u64 \<times> u64 \<times> u64" where
  "sum_results [] acc = acc"
| "sum_results (job # jobs) (iops, bandwidth, bytes, read_errors, write_errors) =
     sum_results jobs
       (iops + jr_iops_avg job, bandwidth + jr_bw_avg_bytes job, bytes + jr_total_bytes job,
        read_errors + jr_read_errors job, write_errors + jr_write_errors job)"

definition build_run_summary :: "fmt_api \<Rightarrow> benchmark_results \<Rightarrow> string" where
  "build_run_summary fmt results =
     (case sum_results (br_jobs results) (0, 0, 0, 0, 0) of
        (iops, bandwidth, bytes, read_errors, write_errors) \<Rightarrow>
          kTotalRowName @ ''   IOPS '' @ format_count iops @ ''   BW '' @ fm_u64 fmt (rate_mib bandwidth) @
          '' MB/s   IO '' @ format_bytes fmt bytes @ ''   Err R:'' @ fm_u64 fmt read_errors @
          '' W:'' @ fm_u64 fmt write_errors @ stop_label results)"

section \<open>Both displays tell the same\<close>

lemma sum_results_totals:
  "sum_results jobs (st_iops t, st_bw t, st_bytes t, st_read_errors t, st_write_errors t) =
     (case snd (summary_jobs fmt first jobs t) of t' \<Rightarrow>
        (st_iops t', st_bw t', st_bytes t', st_read_errors t', st_write_errors t'))"
proof (induction jobs arbitrary: t first)
  case (Cons job jobs)
  from Cons.IH [of "add_totals t job" False] show ?case
    by (simp add: add_totals_def case_prod_unfold)
qed simp

text \<open>
  C37. The last but one line of the terminal's summary and the summary line of the GUI are the same
  sums over the jobs in the same text, and the stop label that the GUI puts behind it is the one
  the terminal puts into its heading. The live table has a row of nine cells for each job, under
  nine headings, with the totals last.
\<close>

theorem displays_agree:
  "\<exists>front totals.
     summary_lines fmt d results = front @ ['' '' @ totals, '' Log: '' @ dc_log_path (td_context d)] \<and>
     build_run_summary fmt results = totals @ stop_label results \<and>
     hd front = ''C-FIO Benchmark '' @ kDash @ '' Complete'' @ stop_label results \<and>
     length (build_job_table_rows fmt snapshot) = Suc (length (ms_jobs snapshot)) \<and>
     list_all (\<lambda>row. length (jt_cells row) = length job_table_headers) (build_job_table_rows fmt snapshot) \<and>
     map jt_is_total (build_job_table_rows fmt snapshot) = replicate (length (ms_jobs snapshot)) False @ [True]"
proof -
  obtain lines t where l: "summary_jobs fmt True (br_jobs results) zero_totals = (lines, t)" by force
  have s: "sum_results (br_jobs results) (0, 0, 0, 0, 0) =
      (st_iops t, st_bw t, st_bytes t, st_read_errors t, st_write_errors t)"
    using sum_results_totals [of "br_jobs results" zero_totals fmt True] l by (simp add: zero_totals_def)
  let ?totals = "''TOTAL   IOPS '' @ format_count (st_iops t) @ ''   BW '' @ fm_u64 fmt (rate_mib (st_bw t)) @
      '' MB/s   IO '' @ format_bytes fmt (st_bytes t) @
      ''   Err R:'' @ fm_u64 fmt (st_read_errors t) @ '' W:'' @ fm_u64 fmt (st_write_errors t)"
  have "build_run_summary fmt results = ?totals @ stop_label results"
    by (simp add: build_run_summary_def s kTotalRowName_def)
  moreover obtain front where
    "summary_lines fmt d results = front @ ['' '' @ ?totals, '' Log: '' @ dc_log_path (td_context d)]"
    "hd front = ''C-FIO Benchmark '' @ kDash @ '' Complete'' @ stop_label results"
    using that [of "[''C-FIO Benchmark '' @ kDash @ '' Complete'' @ stop_label results,
      '' Runtime '' @ (if br_interrupted results
                     then format_duration fmt \<lfloor>br_elapsed_seconds results\<rfloor> @ '' of '' @
                          format_duration fmt (br_runtime_seconds results)
                     else format_duration fmt \<lfloor>br_elapsed_seconds results\<rfloor>) @
        ''   Engine '' @ dc_engine_label (td_context d) @ ''   Direct '' @ dc_direct_label (td_context d),
      repeat_glyph kDouble kRowWidth] @ lines @ [repeat_glyph kDouble kRowWidth]"]
    by (simp add: summary_lines_def l stop_label_def any_job_failed_def Let_def)
  moreover have "list_all (\<lambda>row. length (jt_cells row) = length job_table_headers) (build_job_table_rows fmt snapshot)"
    by (simp add: build_job_table_rows_def make_row_def job_table_headers_def list_all_iff)
  moreover have "map jt_is_total (build_job_table_rows fmt snapshot) =
      replicate (length (ms_jobs snapshot)) False @ [True]"
    by (simp add: build_job_table_rows_def make_row_def o_def map_replicate_const)
  ultimately show ?thesis by (auto simp: build_job_table_rows_def)
qed

end
