(* ===== verification/Job_Table_Widget.thy ===== *)
theory Job_Table_Widget
  imports Job_Table
begin

text \<open>
  The live table of the GUI (\<open>src/display/qt/qt_job_table_widget.cpp\<close>): what the cells of the table widget
  show after \<open>SetSnapshot\<close>. A cell is what the program stored in its item; the table is a map from
  rows and columns to items, as in the widget.
\<close>

section \<open>The table\<close>

record table_cell =
  tc_left :: bool
  tc_text :: string
  tc_bold :: bool
  tc_red :: bool
  tc_tooltip :: string

record job_table =
  tb_row_count :: nat
  tb_headers :: "string list"
  tb_items :: "nat \<Rightarrow> nat \<Rightarrow> table_cell option"

definition kJobColumn :: nat where "kJobColumn = 0"
definition kErrorsColumn :: nat where "kErrorsColumn = 8"

definition job_table_create :: job_table where
  "job_table_create =
     \<lparr>tb_row_count = 0, tb_headers = job_table_headers, tb_items = (\<lambda>_ _. None)\<rparr>"

text \<open>A fresh item of a column.\<close>

definition new_cell :: "nat \<Rightarrow> table_cell" where
  "new_cell column =
     \<lparr>tc_left = (column = kJobColumn), tc_text = [], tc_bold = False, tc_red = False, tc_tooltip = []\<rparr>"

definition set_item :: "nat \<Rightarrow> nat \<Rightarrow> table_cell \<Rightarrow> job_table \<Rightarrow> job_table" where
  "set_item row column cell t =
     t\<lparr>tb_items := (tb_items t)(row := (tb_items t row)(column \<mapsto> cell))\<rparr>"

text \<open>The two inner loops over the columns, and the outer loops over the rows.\<close>

fun create_columns :: "nat \<Rightarrow> nat list \<Rightarrow> job_table \<Rightarrow> job_table" where
  "create_columns row [] t = t"
| "create_columns row (c # cs) t = create_columns row cs (set_item row c (new_cell c) t)"

fun create_rows :: "nat list \<Rightarrow> job_table \<Rightarrow> job_table" where
  "create_rows [] t = t"
| "create_rows (r # rs) t = create_rows rs (create_columns r [0..<kJobTableColumnCount] t)"

definition fill_cell :: "job_table_row \<Rightarrow> nat \<Rightarrow> table_cell \<Rightarrow> table_cell" where
  "fill_cell source column cell =
     (let c = cell\<lparr>tc_text := jt_cells source ! column, tc_bold := jt_is_total source\<rparr>
      in if column = kErrorsColumn
         then c\<lparr>tc_red := jt_cells source ! kErrorsColumn \<noteq> ''0'', tc_tooltip := jt_error_detail source\<rparr>
         else c)"

text \<open>\<open>item\<close> gives a null pointer where no item was set; using it is undefined.\<close>

fun fill_columns :: "job_table_row \<Rightarrow> nat \<Rightarrow> nat list \<Rightarrow> job_table \<Rightarrow> job_table option" where
  "fill_columns source row [] t = Some t"
| "fill_columns source row (c # cs) t =
     (case tb_items t row c of
        None \<Rightarrow> None
      | Some cell \<Rightarrow> fill_columns source row cs (set_item row c (fill_cell source c cell) t))"

fun fill_rows :: "job_table_row list \<Rightarrow> nat \<Rightarrow> job_table \<Rightarrow> job_table option" where
  "fill_rows [] row t = Some t"
| "fill_rows (source # rows) row t =
     (case fill_columns source row [0..<kJobTableColumnCount] t of
        None \<Rightarrow> None
      | Some t' \<Rightarrow> fill_rows rows (Suc row) t')"

text \<open>\<open>setRowCount\<close> drops the items below the new end.\<close>

definition set_row_count :: "nat \<Rightarrow> job_table \<Rightarrow> job_table" where
  "set_row_count n t =
     t\<lparr>tb_row_count := n, tb_items := (\<lambda>r c. if r < n then tb_items t r c else None)\<rparr>"

definition set_snapshot :: "fmt_api \<Rightarrow> metrics_snapshot \<Rightarrow> job_table \<Rightarrow> job_table option" where
  "set_snapshot fmt snapshot t =
     (let rows = build_job_table_rows fmt snapshot;
          row_count = length rows;
          t1 = (if tb_row_count t \<noteq> row_count
                then create_rows [0..<row_count] (set_row_count row_count t) else t)
      in fill_rows rows 0 t1)"

section \<open>Every snapshot is shown completely\<close>

text \<open>
  The typing of the table: items exactly in its rows and nine columns, the names on the left, and
  color and tooltip in the last column only.
\<close>

definition cell_ok :: "nat \<Rightarrow> table_cell \<Rightarrow> bool" where
  "cell_ok column cell \<longleftrightarrow>
     (tc_left cell \<longleftrightarrow> column = kJobColumn) \<and>
     (column \<noteq> kErrorsColumn \<longrightarrow> \<not> tc_red cell \<and> tc_tooltip cell = [])"

definition table_ok :: "job_table \<Rightarrow> bool" where
  "table_ok t \<longleftrightarrow>
     tb_headers t = job_table_headers \<and>
     (\<forall>r c. case tb_items t r c of
        None \<Rightarrow> \<not> (r < tb_row_count t \<and> c < kJobTableColumnCount)
      | Some cell \<Rightarrow> r < tb_row_count t \<and> c < kJobTableColumnCount \<and> cell_ok c cell)"

text \<open>The cell that shows column \<open>c\<close> of a row.\<close>

definition shown_cell :: "job_table_row \<Rightarrow> nat \<Rightarrow> table_cell" where
  "shown_cell source c = fill_cell source c (new_cell c)"

definition shows_rows :: "job_table_row list \<Rightarrow> job_table \<Rightarrow> bool" where
  "shows_rows rows t \<longleftrightarrow>
     tb_headers t = job_table_headers \<and> tb_row_count t = length rows \<and>
     tb_items t = (\<lambda>r c. if r < length rows \<and> c < kJobTableColumnCount then Some (shown_cell (rows ! r) c) else None)"

lemma fill_cell_ok: "cell_ok c cell \<Longrightarrow> fill_cell source c cell = shown_cell source c"
  by (cases cell) (simp add: fill_cell_def shown_cell_def new_cell_def cell_ok_def Let_def)

lemma shown_cell_ok: "cell_ok c (shown_cell source c)"
  by (simp add: shown_cell_def fill_cell_def new_cell_def cell_ok_def Let_def)

lemma shows_rows_ok: "shows_rows rows t \<Longrightarrow> table_ok t"
  by (simp add: shows_rows_def table_ok_def shown_cell_ok)

lemma create_columns_items:
  "create_columns row cs t =
     t\<lparr>tb_items := (tb_items t)(row := (\<lambda>c. if c \<in> set cs then Some (new_cell c) else tb_items t row c))\<rparr>"
  by (induction row cs t rule: create_columns.induct) (auto simp: set_item_def fun_eq_iff)

lemma create_rows_items:
  "create_rows rs t =
     t\<lparr>tb_items := (\<lambda>r c. if r \<in> set rs \<and> c < kJobTableColumnCount then Some (new_cell c) else tb_items t r c)\<rparr>"
  by (induction rs t rule: create_rows.induct) (auto simp: create_columns_items fun_eq_iff)

lemma fill_columns_items:
  assumes "distinct cs" "\<forall>c \<in> set cs. \<exists>cell. tb_items t row c = Some cell \<and> cell_ok c cell"
  shows "fill_columns source row cs t =
    Some (t\<lparr>tb_items := (tb_items t)(row := (\<lambda>c. if c \<in> set cs then Some (shown_cell source c) else tb_items t row c))\<rparr>)"
  using assms
proof (induction source row cs t rule: fill_columns.induct)
  case (2 source row c cs t)
  then obtain cell where cell: "tb_items t row c = Some cell" "cell_ok c cell" by auto
  have "\<forall>d \<in> set cs. \<exists>e. tb_items (set_item row c (fill_cell source c cell) t) row d = Some e \<and> cell_ok d e"
    using 2(2,3) by (auto simp: set_item_def)
  from 2(1) [OF cell(1) _ this] 2(2) cell show ?case
    by (auto simp: set_item_def fill_cell_ok fun_eq_iff)
qed (simp add: fun_upd_idem)

lemma fill_rows_items:
  assumes "\<forall>r c. row \<le> r \<and> r < row + length rows \<and> c < kJobTableColumnCount \<longrightarrow>
      (\<exists>cell. tb_items t r c = Some cell \<and> cell_ok c cell)"
  shows "fill_rows rows row t =
    Some (t\<lparr>tb_items := (\<lambda>r c. if row \<le> r \<and> r < row + length rows \<and> c < kJobTableColumnCount
       then Some (shown_cell (rows ! (r - row)) c) else tb_items t r c)\<rparr>)"
  using assms
proof (induction rows row t rule: fill_rows.induct)
  case (2 source rows row t)
  let ?cs = "[0..<kJobTableColumnCount]"
  have c: "\<forall>c \<in> set ?cs. \<exists>cell. tb_items t row c = Some cell \<and> cell_ok c cell" using 2(2) by simp
  note f = fill_columns_items [OF distinct_upt c, of source]
  define t' where "t' = t\<lparr>tb_items := (tb_items t)(row := (\<lambda>c. if c \<in> set ?cs then Some (shown_cell source c) else tb_items t row c))\<rparr>"
  have "\<forall>r c. Suc row \<le> r \<and> r < Suc row + length rows \<and> c < kJobTableColumnCount \<longrightarrow>
      (\<exists>cell. tb_items t' r c = Some cell \<and> cell_ok c cell)"
    using 2(2) by (auto simp: t'_def)
  from 2(1) [OF f [folded t'_def] this] f [folded t'_def] show ?case
    by (auto simp: t'_def fun_eq_iff Suc_diff_Suc)
next
  case (1 row t)
  have "(\<lambda>r c. if row \<le> r \<and> r < row + length ([] :: job_table_row list) \<and> c < kJobTableColumnCount
      then Some (shown_cell ([] ! (r - row)) c) else tb_items t r c) = tb_items t"
  proof (intro ext)
    fix r c :: nat
    have "\<not> (row \<le> r \<and> r < row + length ([] :: job_table_row list) \<and> c < kJobTableColumnCount)" by simp
    then show "(if row \<le> r \<and> r < row + length ([] :: job_table_row list) \<and> c < kJobTableColumnCount
      then Some (shown_cell ([] ! (r - row)) c) else tb_items t r c) = tb_items t r c" by (rule if_not_P)
  qed
  then show ?case by simp
qed

lemma table_ok_some:
  assumes "table_ok t" "r < tb_row_count t" "c < kJobTableColumnCount"
  shows "\<exists>cell. tb_items t r c = Some cell \<and> cell_ok c cell"
proof -
  have "case tb_items t r c of None \<Rightarrow> \<not> (r < tb_row_count t \<and> c < kJobTableColumnCount)
      | Some cell \<Rightarrow> r < tb_row_count t \<and> c < kJobTableColumnCount \<and> cell_ok c cell"
    using assms(1) unfolding table_ok_def by blast
  then show ?thesis using assms(2,3) by (simp split: option.splits)
qed

lemma table_ok_none:
  "table_ok t \<Longrightarrow> \<not> (r < tb_row_count t \<and> c < kJobTableColumnCount) \<Longrightarrow> tb_items t r c = None"
  by (cases "tb_items t r c") (auto simp: table_ok_def split: option.splits)

lemma set_snapshot_shows:
  assumes "table_ok t"
  shows "\<exists>t'. set_snapshot fmt snapshot t = Some t' \<and> shows_rows (build_job_table_rows fmt snapshot) t'"
proof -
  let ?rows = "build_job_table_rows fmt snapshot"
  define t1 where "t1 = (if tb_row_count t \<noteq> length ?rows
      then create_rows [0..<length ?rows] (set_row_count (length ?rows) t) else t)"
  have new: "cell_ok c (new_cell c)" for c by (simp add: cell_ok_def new_cell_def)
  have ok: "table_ok t1"
    using assms new by (auto simp: t1_def table_ok_def create_rows_items set_row_count_def split: option.splits)
  have n: "tb_row_count t1 = length ?rows"
    by (simp add: t1_def create_rows_items set_row_count_def)
  have "\<forall>r c. 0 \<le> r \<and> r < 0 + length ?rows \<and> c < kJobTableColumnCount \<longrightarrow>
      (\<exists>cell. tb_items t1 r c = Some cell \<and> cell_ok c cell)"
    using table_ok_some [OF ok] n by simp
  note f = fill_rows_items [OF this]
  have "(\<lambda>r c. if 0 \<le> r \<and> r < 0 + length ?rows \<and> c < kJobTableColumnCount
       then Some (shown_cell (?rows ! (r - 0)) c) else tb_items t1 r c) =
     (\<lambda>r c. if r < length ?rows \<and> c < kJobTableColumnCount then Some (shown_cell (?rows ! r) c) else None)"
    using table_ok_none [OF ok] n by (intro ext) simp
  with f have "set_snapshot fmt snapshot t = Some (t1\<lparr>tb_items := (\<lambda>r c.
      if r < length ?rows \<and> c < kJobTableColumnCount then Some (shown_cell (?rows ! r) c) else None)\<rparr>)"
    unfolding set_snapshot_def Let_def t1_def [symmetric] by simp
  then show ?thesis using ok n by (simp add: shows_rows_def table_ok_def)
qed

fun set_snapshots :: "fmt_api \<Rightarrow> metrics_snapshot list \<Rightarrow> job_table \<Rightarrow> job_table option" where
  "set_snapshots fmt [] t = Some t"
| "set_snapshots fmt (x # xs) t = Option.bind (set_snapshot fmt x t) (set_snapshots fmt xs)"

lemma set_snapshots_shows:
  "table_ok t \<Longrightarrow> \<exists>t'. set_snapshots fmt (xs @ [x]) t = Some t' \<and> shows_rows (build_job_table_rows fmt x) t'"
proof (induction xs arbitrary: t)
  case Nil
  then show ?case using set_snapshot_shows [of t fmt x] by auto
next
  case (Cons y xs)
  obtain t1 where t1: "set_snapshot fmt y t = Some t1" "shows_rows (build_job_table_rows fmt y) t1"
    using set_snapshot_shows [OF Cons.prems] by blast
  from Cons.IH [OF shows_rows_ok [OF t1(2)]] t1(1) show ?case by simp
qed

text \<open>
  C38. The table is well formed whatever it is fed: starting from the empty widget, any sequence of
  snapshots is taken without touching an item that is not there, and afterwards the table has
  exactly the rows of the last snapshot with nine cells each. Texts, bold print, color and tooltip
  are those of that snapshot alone, whatever the earlier ones left in the items that are used
  again.
\<close>

theorem job_table_typed:
  "\<exists>t. set_snapshots fmt (xs @ [x]) job_table_create = Some t \<and> table_ok t \<and>
     tb_row_count t = Suc (length (ms_jobs x)) \<and>
     (\<exists>rows. rows = build_job_table_rows fmt x \<and>
        tb_items t = (\<lambda>r c. if r < length rows \<and> c < 9 then
          Some \<lparr>tc_left = (c = 0), tc_text = jt_cells (rows ! r) ! c, tc_bold = (r = length (ms_jobs x)),
                tc_red = (c = 8 \<and> jt_cells (rows ! r) ! 8 \<noteq> ''0''),
                tc_tooltip = (if c = 8 then jt_error_detail (rows ! r) else [])\<rparr> else None))"
proof -
  let ?rows = "build_job_table_rows fmt x"
  have "table_ok job_table_create" by (simp add: table_ok_def job_table_create_def)
  from set_snapshots_shows [OF this] obtain t where
    t: "set_snapshots fmt (xs @ [x]) job_table_create = Some t" "shows_rows ?rows t" by blast
  have len: "length ?rows = Suc (length (ms_jobs x))" by (simp add: build_job_table_rows_def)
  have bold: "jt_is_total (?rows ! r) = (r = length (ms_jobs x))" if "r < length ?rows" for r
    using that by (auto simp: build_job_table_rows_def make_row_def nth_append less_Suc_eq)
  have cell: "shown_cell (?rows ! r) c = \<lparr>tc_left = (c = 0), tc_text = jt_cells (?rows ! r) ! c,
      tc_bold = (r = length (ms_jobs x)), tc_red = (c = 8 \<and> jt_cells (?rows ! r) ! 8 \<noteq> ''0''),
      tc_tooltip = (if c = 8 then jt_error_detail (?rows ! r) else [])\<rparr>" if "r < length ?rows" for r c
    using bold [OF that] by (simp add: shown_cell_def fill_cell_def new_cell_def Let_def kJobColumn_def kErrorsColumn_def)
  have "tb_items t = (\<lambda>r c. if r < length ?rows \<and> c < 9 then
          Some \<lparr>tc_left = (c = 0), tc_text = jt_cells (?rows ! r) ! c, tc_bold = (r = length (ms_jobs x)),
                tc_red = (c = 8 \<and> jt_cells (?rows ! r) ! 8 \<noteq> ''0''),
                tc_tooltip = (if c = 8 then jt_error_detail (?rows ! r) else [])\<rparr> else None)"
    using t(2) cell by (auto simp: shows_rows_def kJobTableColumnCount_def fun_eq_iff)
  then show ?thesis using t shows_rows_ok [OF t(2)] len by (auto simp: shows_rows_def)
qed

end
