(* ===== verification/Chart_Geometry.thy ===== *)
theory Chart_Geometry
  imports Metric_Format Metrics_Aggregator
begin

text \<open>
  The chart mathematics of the GUI (\<open>src/display/qt/qt_chart_geometry.cpp\<close>). A double that need not be
  finite, where the code asks with \<open>std::isfinite\<close>, is an \<open>option\<close> whose \<open>None\<close> is an infinity or a
  NaN. \<open>log10\<close> and \<open>pow(10, _)\<close> of the mathematics library are parameters.
\<close>

section \<open>Types and constants\<close>

datatype chart_metric = Metric_kIops | Metric_kBandwidth | Metric_kLatencyP50 | Metric_kLatencyP95 | Metric_kLatencyP99

datatype chart_kind = Kind_kIops | Kind_kBandwidth | Kind_kLatency

record chart_point =
  pt_x :: rat
  pt_y :: rat

record chart_series =
  cs_label :: string
  cs_points :: "chart_point list"

record axis_scale =
  ax_min :: rat
  ax_max :: rat
  ax_tick_step :: rat

record chart_rect =
  rc_left :: rat
  rc_top :: rat
  rc_width :: rat
  rc_height :: rat

record chart_margins =
  mg_left :: rat
  mg_top :: rat
  mg_right :: rat
  mg_bottom :: rat

record libm_api =
  lm_log10 :: "rat \<Rightarrow> rat"
  lm_pow10 :: "rat \<Rightarrow> rat"

definition kDefaultTickCount :: int where "kDefaultTickCount = 5"
definition kMaxTicks :: int where "kMaxTicks = 64"
definition kTickEpsilon :: rat where "kTickEpsilon = fl (1 / 10 ^ 9)"
definition kMinPlotSize :: rat where "kMinPlotSize = 1"

section \<open>Labels\<close>

definition tick_to_unsigned :: "rat option \<Rightarrow> u64" where
  "tick_to_unsigned value =
     (case value of None \<Rightarrow> 0 | Some v \<Rightarrow> if v \<le> 0 then 0 else word_of_int (llround v))"

fun metric_value :: "per_job_metrics \<Rightarrow> chart_metric \<Rightarrow> rat" where
  "metric_value metrics Metric_kIops = of_u64 (pm_iops_instant metrics)"
| "metric_value metrics Metric_kBandwidth = of_u64 (pm_bw_instant metrics)"
| "metric_value metrics Metric_kLatencyP50 = of_u64 (pm_lat_p50_ns metrics)"
| "metric_value metrics Metric_kLatencyP95 = of_u64 (pm_lat_p95_ns metrics)"
| "metric_value metrics Metric_kLatencyP99 = of_u64 (pm_lat_p99_ns metrics)"

fun metric_label :: "chart_metric \<Rightarrow> string" where
  "metric_label Metric_kIops = ''IOPS''"
| "metric_label Metric_kBandwidth = ''Bandwidth''"
| "metric_label Metric_kLatencyP50 = ''p50''"
| "metric_label Metric_kLatencyP95 = ''p95''"
| "metric_label Metric_kLatencyP99 = ''p99''"

fun chart_kind_metrics :: "chart_kind \<Rightarrow> chart_metric list" where
  "chart_kind_metrics Kind_kIops = [Metric_kIops]"
| "chart_kind_metrics Kind_kBandwidth = [Metric_kBandwidth]"
| "chart_kind_metrics Kind_kLatency = [Metric_kLatencyP50, Metric_kLatencyP95, Metric_kLatencyP99]"

fun chart_kind_title :: "chart_kind \<Rightarrow> string" where
  "chart_kind_title Kind_kIops = ''IOPS''"
| "chart_kind_title Kind_kBandwidth = ''Bandwidth''"
| "chart_kind_title Kind_kLatency = ''Latency''"

definition format_axis_tick :: "fmt_api \<Rightarrow> chart_kind \<Rightarrow> rat option \<Rightarrow> string" where
  "format_axis_tick fmt kind value =
     (let rounded = tick_to_unsigned value in
      case kind of
        Kind_kIops \<Rightarrow> format_count rounded
      | Kind_kBandwidth \<Rightarrow> format_rate fmt rounded
      | Kind_kLatency \<Rightarrow> format_latency_us fmt rounded)"

definition format_time_tick :: "fmt_api \<Rightarrow> rat option \<Rightarrow> string" where
  "format_time_tick fmt seconds =
     (case seconds of
        None \<Rightarrow> format_duration fmt 0
      | Some s \<Rightarrow> if s \<le> 0 then format_duration fmt 0 else format_duration fmt (llround s))"

section \<open>Scales\<close>

definition compute_plot_rect :: "rat \<Rightarrow> rat \<Rightarrow> chart_margins \<Rightarrow> chart_rect" where
  "compute_plot_rect width height margins =
     \<lparr>rc_left = mg_left margins, rc_top = mg_top margins,
      rc_width = max (fl (fl (width - mg_left margins) - mg_right margins)) kMinPlotSize,
      rc_height = max (fl (fl (height - mg_top margins) - mg_bottom margins)) kMinPlotSize\<rparr>"

text \<open>
  When the quotient underflows to zero, \<open>log10\<close> is minus infinity, \<open>pow\<close> is zero and the fraction
  is not a number, so that every comparison fails and the step is ten times zero. A power that underflows
  makes the step zero too.
\<close>

definition nice_tick_step :: "libm_api \<Rightarrow> rat option \<Rightarrow> int \<Rightarrow> rat" where
  "nice_tick_step libm covered target_ticks =
     (case covered of
        None \<Rightarrow> 1
      | Some rg \<Rightarrow>
          if rg \<le> 0 then 1
          else let ticks = (if target_ticks > 0 then target_ticks else kDefaultTickCount);
                   raw = fl (rg / of_int ticks);
                   exponent = of_int \<lfloor>lm_log10 libm raw\<rfloor>;
                   power = lm_pow10 libm exponent;
                   fraction = fl (raw / power);
                   nice = (if fraction \<le> 1 then 1 else if fraction \<le> 2 then 2
                           else if fraction \<le> 5 then 5 else 10)
               in if raw = 0 then 0 else fl (nice * power))"

text \<open>The range of \<open>MakeAxisScale\<close>, from data that may be out of order, empty or not finite.\<close>

definition axis_range :: "rat option \<Rightarrow> rat option \<Rightarrow> rat \<times> rat" where
  "axis_range lowest highest =
     (let (low, high) = (case (lowest, highest) of (Some a, Some b) \<Rightarrow> (a, b) | _ \<Rightarrow> (0, 0));
          (low, high) = (if high < low then (high, low) else (low, high))
      in if high \<le> low then (min low 0, if high > 0 then high else 1) else (low, high))"

text \<open>
  A step of zero makes the ends of the scale not-a-number in the code, which the scale has no value for here;
  it takes a range below the smallest double times five, and the program draws integers.
\<close>

definition make_axis_scale :: "libm_api \<Rightarrow> rat option \<Rightarrow> rat option \<Rightarrow> int \<Rightarrow> axis_scale" where
  "make_axis_scale libm lowest highest target_ticks =
     (let (low, high) = axis_range lowest highest;
          step = nice_tick_step libm (Some (fl (high - low))) target_ticks;
          bottom = fl (of_int \<lfloor>fl (low / step)\<rfloor> * step);
          top = fl (of_int \<lceil>fl (high / step)\<rceil> * step)
      in \<lparr>ax_min = bottom,
          ax_max = (if fl (top - bottom) < step then fl (bottom + step) else top),
          ax_tick_step = step\<rparr>)"

definition unit_divisor :: "chart_kind \<Rightarrow> rat" where
  "unit_divisor kind =
     (case kind of
        Kind_kIops \<Rightarrow> 1
      | Kind_kBandwidth \<Rightarrow> of_u64 kBytesPerMiB
      | Kind_kLatency \<Rightarrow> of_u64 kNsPerUs)"

definition make_unit_axis_scale :: "libm_api \<Rightarrow> chart_kind \<Rightarrow> rat option \<Rightarrow> rat option \<Rightarrow> axis_scale" where
  "make_unit_axis_scale libm kind lowest highest =
     (let divisor = unit_divisor kind;
          s0 = make_axis_scale libm (map_option (\<lambda>v. fl (v / divisor)) lowest)
                 (map_option (\<lambda>v. fl (v / divisor)) highest) kDefaultTickCount;
          s = (if ax_tick_step s0 < 1
               then let bottom = of_int \<lfloor>ax_min s0\<rfloor>
                    in \<lparr>ax_min = bottom, ax_max = max (of_int \<lceil>ax_max s0\<rceil>) (fl (bottom + 1)), ax_tick_step = 1\<rparr>
               else s0)
      in \<lparr>ax_min = fl (ax_min s * divisor), ax_max = fl (ax_max s * divisor),
          ax_tick_step = fl (ax_tick_step s * divisor)\<rparr>)"

text \<open>
  The count of \<open>AxisTicks\<close> is an \<open>int\<close> converted from a double, undefined out of its range. The lemma
  \<open>axis_ticks_of\<close> below shows it to be at most seven for the scales the program makes.
\<close>

definition axis_ticks :: "axis_scale \<Rightarrow> rat list" where
  "axis_ticks scale =
     (if ax_tick_step scale \<le> 0 \<or> ax_max scale < ax_min scale then []
      else let span = fl (ax_max scale - ax_min scale);
               count = \<lfloor>fl (fl (span / ax_tick_step scale) + kTickEpsilon)\<rfloor>;
               limit = min count kMaxTicks
           in map (\<lambda>i. fl (ax_min scale + fl (of_int i * ax_tick_step scale))) [0..limit])"

section \<open>Points\<close>

definition map_x :: "rat \<Rightarrow> axis_scale \<Rightarrow> chart_rect \<Rightarrow> rat" where
  "map_x v scale plot =
     (let span = fl (ax_max scale - ax_min scale)
      in if span \<le> 0 then rc_left plot
         else let ratio = clamp (fl (fl (v - ax_min scale) / span)) 0 1
              in fl (rc_left plot + fl (ratio * rc_width plot)))"

definition map_y :: "rat \<Rightarrow> axis_scale \<Rightarrow> chart_rect \<Rightarrow> rat" where
  "map_y v scale plot =
     (let span = fl (ax_max scale - ax_min scale)
      in if span \<le> 0 then fl (rc_top plot + rc_height plot)
         else let ratio = clamp (fl (fl (v - ax_min scale) / span)) 0 1
              in fl (fl (rc_top plot + rc_height plot) - fl (ratio * rc_height plot)))"

definition map_points :: "chart_point list \<Rightarrow> axis_scale \<Rightarrow> axis_scale \<Rightarrow> chart_rect \<Rightarrow> chart_point list" where
  "map_points points x y plot =
     map (\<lambda>p. \<lparr>pt_x = map_x (pt_x p) x plot, pt_y = map_y (pt_y p) y plot\<rparr>) points"

definition extract_series :: "metrics_snapshot list \<Rightarrow> chart_metric \<Rightarrow> chart_series" where
  "extract_series history metric =
     (case history of
        [] \<Rightarrow> \<lparr>cs_label = metric_label metric, cs_points = []\<rparr>
      | front # _ \<Rightarrow>
          \<lparr>cs_label = metric_label metric,
           cs_points = (if ms_elapsed_seconds front > 0 then [\<lparr>pt_x = 0, pt_y = 0\<rparr>] else []) @
             map (\<lambda>s. \<lparr>pt_x = ms_elapsed_seconds s, pt_y = metric_value (ms_aggregate s) metric\<rparr>) history\<rparr>)"

definition series_duration_seconds :: "metrics_snapshot list \<Rightarrow> rat" where
  "series_duration_seconds history =
     (if history = [] then 0 else max (of_int (llround (ms_elapsed_seconds (last history)))) 0)"

definition max_y :: "chart_series list \<Rightarrow> rat" where
  "max_y series = foldl (\<lambda>top one. foldl (\<lambda>h p. max h (pt_y p)) top (cs_points one)) 0 series"

section \<open>Points stay in the plot\<close>

text \<open>A rational that is a double.\<close>

definition is_double :: "rat \<Rightarrow> bool" where
  "is_double x \<longleftrightarrow> fl x = x"

lemma is_double_fl [simp]: "is_double (fl x)"
  by (simp add: is_double_def)

lemma fl_double: "is_double x \<Longrightarrow> fl x = x"
  by (simp add: is_double_def)

lemma fl_le_double: "is_double y \<Longrightarrow> x \<le> y \<Longrightarrow> fl x \<le> y"
  using fl_mono [of x y] by (simp add: is_double_def)

lemma fl_ge_double: "is_double x \<Longrightarrow> x \<le> y \<Longrightarrow> x \<le> fl y"
  using fl_mono [of x y] by (simp add: is_double_def)

text \<open>The position of a value on an axis, as a part of its length.\<close>

definition axis_ratio :: "rat \<Rightarrow> axis_scale \<Rightarrow> rat" where
  "axis_ratio v scale =
     clamp (fl (fl (v - ax_min scale) / fl (ax_max scale - ax_min scale))) 0 1"

lemma axis_ratio_range: "0 \<le> axis_ratio v scale" "axis_ratio v scale \<le> 1"
  by (simp_all add: axis_ratio_def clamp_def)

lemma axis_ratio_mono:
  assumes "0 < fl (ax_max scale - ax_min scale)" "v \<le> v'"
  shows "axis_ratio v scale \<le> axis_ratio v' scale"
proof -
  have "fl (v - ax_min scale) \<le> fl (v' - ax_min scale)" using assms(2) by (intro fl_mono) simp
  then have "fl (fl (v - ax_min scale) / fl (ax_max scale - ax_min scale)) \<le>
      fl (fl (v' - ax_min scale) / fl (ax_max scale - ax_min scale))"
    using assms(1) by (intro fl_mono [OF divide_right_mono]) simp_all
  then show ?thesis by (simp add: axis_ratio_def clamp_def)
qed

lemma axis_ratio_ends:
  assumes "0 < fl (ax_max scale - ax_min scale)"
  shows "axis_ratio (ax_min scale) scale = 0" "axis_ratio (ax_max scale) scale = 1"
  using assms by (simp_all add: axis_ratio_def clamp_def)

lemma length_part:
  assumes "is_double len" "0 \<le> len" "0 \<le> q" "q \<le> 1"
  shows "0 \<le> fl (q * len)" "fl (q * len) \<le> len"
proof -
  show "0 \<le> fl (q * len)" using assms by (intro fl_nonneg) simp
  have "q * len \<le> len" using assms by (simp add: mult_left_le_one_le)
  then show "fl (q * len) \<le> len" by (rule fl_le_double [OF assms(1)])
qed

text \<open>The plot area is made of doubles, as are its right and its lower edge.\<close>

definition exact_plot :: "chart_rect \<Rightarrow> bool" where
  "exact_plot plot \<longleftrightarrow>
     is_double (rc_left plot) \<and> is_double (rc_top plot) \<and>
     is_double (rc_width plot) \<and> 0 \<le> rc_width plot \<and> is_double (rc_height plot) \<and> 0 \<le> rc_height plot \<and>
     is_double (rc_left plot + rc_width plot) \<and> is_double (rc_top plot + rc_height plot)"

text \<open>
  The chart maps every value into the plot area: columns grow and rows fall with the value, the
  lowest tick lies on the left and the lower edge and the highest on the right and the upper edge,
  and an axis without extent puts everything on its first edge.
\<close>

lemma chart_points_in_plot:
  assumes plot: "exact_plot plot" and le: "v \<le> v'"
  shows "rc_left plot \<le> map_x v scale plot \<and> map_x v scale plot \<le> rc_left plot + rc_width plot \<and>
    rc_top plot \<le> map_y v scale plot \<and> map_y v scale plot \<le> rc_top plot + rc_height plot \<and>
    map_x v scale plot \<le> map_x v' scale plot \<and> map_y v' scale plot \<le> map_y v scale plot \<and>
    map_x (ax_min scale) scale plot = rc_left plot \<and>
    map_y (ax_min scale) scale plot = rc_top plot + rc_height plot \<and>
    (if fl (ax_max scale - ax_min scale) \<le> 0
     then map_x v scale plot = rc_left plot \<and> map_y v scale plot = rc_top plot + rc_height plot
     else map_x (ax_max scale) scale plot = rc_left plot + rc_width plot \<and>
          map_y (ax_max scale) scale plot = rc_top plot)"
proof -
  let ?span = "fl (ax_max scale - ax_min scale)"
  have d: "is_double (rc_left plot)" "is_double (rc_top plot)" "is_double (rc_width plot)" "0 \<le> rc_width plot"
    "is_double (rc_height plot)" "0 \<le> rc_height plot" "is_double (rc_left plot + rc_width plot)"
    "is_double (rc_top plot + rc_height plot)" using plot by (simp_all add: exact_plot_def)
  note e = d(1-3,5,7,8) [THEN fl_double]
  show ?thesis
  proof (cases "?span \<le> 0")
    case True
    then show ?thesis using d by (simp add: map_x_def map_y_def Let_def e)
  next
    case False
    have x: "map_x u scale plot = fl (rc_left plot + fl (axis_ratio u scale * rc_width plot))"
      and y: "map_y u scale plot = fl (rc_top plot + rc_height plot - fl (axis_ratio u scale * rc_height plot))" for u
      using False by (simp_all add: map_x_def map_y_def axis_ratio_def Let_def e)
    note w = length_part [OF d(3,4) axis_ratio_range [of v scale]]
    note h = length_part [OF d(5,6) axis_ratio_range [of v scale]]
    have mono: "axis_ratio v scale \<le> axis_ratio v' scale" using False le by (intro axis_ratio_mono) simp_all
    have bounds: "rc_left plot \<le> map_x v scale plot" "map_x v scale plot \<le> rc_left plot + rc_width plot"
      "rc_top plot \<le> map_y v scale plot" "map_y v scale plot \<le> rc_top plot + rc_height plot"
      unfolding x y using w h d by (intro fl_ge_double fl_le_double; simp)+
    have "map_x v scale plot \<le> map_x v' scale plot"
      unfolding x using mono d(4) by (intro fl_mono add_left_mono mult_right_mono)
    moreover have "map_y v' scale plot \<le> map_y v scale plot"
      unfolding y using mono d(6) by (intro fl_mono diff_left_mono mult_right_mono)
    moreover have "map_x (ax_min scale) scale plot = rc_left plot" "map_x (ax_max scale) scale plot = rc_left plot + rc_width plot"
      "map_y (ax_min scale) scale plot = rc_top plot + rc_height plot" "map_y (ax_max scale) scale plot = rc_top plot"
      unfolding x y using False by (simp_all add: axis_ratio_ends e)
    ultimately show ?thesis using bounds False by simp
  qed
qed

lemmas map_x_in_plot = chart_points_in_plot [OF _ order_refl, THEN conjunct1]
  chart_points_in_plot [OF _ order_refl, THEN conjunct2, THEN conjunct1]

lemmas map_y_in_plot = chart_points_in_plot [OF _ order_refl, THEN conjunct2, THEN conjunct2, THEN conjunct1]
  chart_points_in_plot [OF _ order_refl, THEN conjunct2, THEN conjunct2, THEN conjunct2, THEN conjunct1]

lemma map_x_mono: "exact_plot plot \<Longrightarrow> v \<le> v' \<Longrightarrow> map_x v scale plot \<le> map_x v' scale plot"
  using chart_points_in_plot by blast

section \<open>Axes from zero\<close>

text \<open>
  What the program relies on of the mathematics library, on the range of its data: \<open>log10\<close> is right to
  a hundredth, and \<open>pow(10, e)\<close> of a whole number is a double that is right to one percent.
\<close>

definition accurate :: "libm_api \<Rightarrow> bool" where
  "accurate libm \<longleftrightarrow>
     (\<forall>x. 1 / 2 ^ 24 \<le> x \<and> x \<le> 2 ^ 64 \<longrightarrow>
        \<bar>real_of_rat (lm_log10 libm x) - log 10 (real_of_rat x)\<bar> \<le> 1 / 100) \<and>
     (\<forall>e :: int. \<bar>e\<bar> \<le> 30 \<longrightarrow> is_double (lm_pow10 libm (of_int e)) \<and>
        \<bar>real_of_rat (lm_pow10 libm (of_int e)) - 10 powr of_int e\<bar> \<le> 10 powr of_int e / 100)"

lemma ten_hundredth: "(10 :: real) powr (1 / 100) \<le> 103 / 100"
proof -
  define x :: real where "x = 103 / 100"
  have x: "0 < x" by (simp add: x_def)
  have "(8 / 5 :: real) \<le> x ^ 20" using Bernoulli_inequality [of "3 / 100 :: real" 20] by (simp add: x_def)
  then have "(8 / 5 :: real) ^ 5 \<le> (x ^ 20) ^ 5" by (rule power_mono) simp
  moreover have "(10 :: real) \<le> (8 / 5) ^ 5" by (simp add: power_divide)
  ultimately have "(10 :: real) \<le> (x ^ 20) ^ 5" by (rule order_trans [rotated])
  also have "\<dots> = x powr 100" using x by (simp add: powr_powr flip: powr_numeral)
  finally have "(10 :: real) powr (1 / 100) \<le> (x powr 100) powr (1 / 100)" by (intro powr_mono2) simp_all
  then show ?thesis using x unfolding powr_powr by (simp add: x_def)
qed

text \<open>The power of ten below a value.\<close>

lemma decade:
  assumes "accurate libm" "1 / 2 ^ 24 \<le> x" "x \<le> 2 ^ 64"
  defines "p \<equiv> lm_pow10 libm (of_int \<lfloor>lm_log10 libm x\<rfloor>)"
  shows "is_double p" "x / 11 \<le> p" "p \<le> x * (11 / 10)"
proof -
  define l where "l = real_of_rat (lm_log10 libm x)"
  define L where "L = log 10 (real_of_rat x)"
  define e where "e = \<lfloor>lm_log10 libm x\<rfloor>"
  define X where "X = real_of_rat x"
  have "real_of_rat (1 / 2 ^ 24) \<le> X" "X \<le> real_of_rat (2 ^ 64)"
    unfolding X_def of_rat_less_eq by (fact assms)+
  then have x: "1 / 2 ^ 24 \<le> X" "X \<le> 2 ^ 64" by (simp_all add: of_rat_divide of_rat_power)
  have X: "0 < X" using x(1) by (rule less_le_trans [rotated]) simp
  have l: "\<bar>l - L\<bar> \<le> 1 / 100" using assms(1-3) by (simp add: accurate_def l_def L_def)
  have "(10 :: real) powr - 8 \<le> X" using x(1) by (simp add: powr_minus powr_numeral)
  then have L1: "- 8 \<le> L" using X unfolding L_def X_def [symmetric] by (simp add: le_log_iff)
  have "X \<le> 10 powr 20" using x(2) by (simp add: powr_numeral)
  then have L2: "L \<le> 20" using X unfolding L_def X_def [symmetric] by (simp add: log_le_iff)
  have "of_int e \<le> lm_log10 libm x" "lm_log10 libm x < of_int e + 1"
    using floor_correct [of "lm_log10 libm x"] by (simp_all add: e_def)
  then have "real_of_rat (of_int e) \<le> l" "l < real_of_rat (of_int e + 1)"
    unfolding l_def of_rat_less_eq of_rat_less .
  then have e: "real_of_int e \<le> l" "l < real_of_int e + 1" by (simp_all add: of_rat_add)
  have "\<bar>e\<bar> \<le> 30" using e l L1 L2 by linarith
  then have p: "is_double p" "\<bar>real_of_rat p - 10 powr of_int e\<bar> \<le> 10 powr of_int e / 100"
    using assms(1) by (simp_all add: accurate_def p_def e_def)
  show "is_double p" by (rule p(1))
  have XL: "10 powr L = X" using X by (simp add: L_def X_def)
  have up: "10 powr real_of_int e \<le> X * (103 / 100)"
  proof -
    have "10 powr real_of_int e \<le> 10 powr (L + 1 / 100)" using e l by (intro powr_mono) linarith+
    also have "\<dots> = X * 10 powr (1 / 100)" by (simp add: powr_add XL)
    also have "\<dots> \<le> X * (103 / 100)" using X ten_hundredth by (intro mult_left_mono) simp_all
    finally show ?thesis .
  qed
  have low: "X \<le> 10 powr real_of_int e * (103 / 10)"
  proof -
    have "X = 10 powr L" by (simp add: XL)
    also have "\<dots> \<le> 10 powr (real_of_int e + (1 + 1 / 100))" using e l by (intro powr_mono) linarith+
    also have "\<dots> = 10 powr real_of_int e * (10 * 10 powr (1 / 100))" by (simp only: powr_add powr_one)
    also have "\<dots> \<le> 10 powr real_of_int e * (103 / 10)" using ten_hundredth by (intro mult_left_mono) simp_all
    finally show ?thesis .
  qed
  have "real_of_rat p \<le> X * (11 / 10)" "X / 11 \<le> real_of_rat p"
    using p(2) up low X by linarith+
  then have "real_of_rat p \<le> real_of_rat (x * (11 / 10))" "real_of_rat (x / 11) \<le> real_of_rat p"
    by (simp_all add: X_def of_rat_mult of_rat_divide)
  then show "p \<le> x * (11 / 10)" "x / 11 \<le> p" unfolding of_rat_less_eq .
qed

text \<open>Rounding, as a growing relative error.\<close>

lemma fl_near:
  assumes "pow2 (- 1022) \<le> x"
  shows "x * (1 - 1 / 2 ^ 53) \<le> fl x" "fl x \<le> x * (1 + 1 / 2 ^ 53)"
proof -
  have e: "\<bar>fl x - x\<bar> \<le> x * (1 / 2 ^ 53)" using fl_rel_error [OF assms] by (simp add: pow2_def)
  from abs_le_D1 [OF e] show "fl x \<le> x * (1 + 1 / 2 ^ 53)" by (simp add: distrib_left)
  from abs_le_D2 [OF e] show "x * (1 - 1 / 2 ^ 53) \<le> fl x" by (simp add: right_diff_distrib)
qed

lemma fl_low:
  assumes "c * (1 - k / 2 ^ 53) \<le> x" "0 \<le> k" "0 \<le> c" "pow2 (- 1022) \<le> x"
  shows "c * (1 - (k + 1) / 2 ^ 53) \<le> fl x"
proof -
  have "x * (1 - 1 / 2 ^ 53) \<le> fl x"
    using fl_near [OF assms(4)] by simp
  moreover have "c * (1 - k / 2 ^ 53) * (1 - 1 / 2 ^ 53) \<le> x * (1 - 1 / 2 ^ 53)"
    using assms(1) by (rule mult_right_mono) simp
  moreover have "c * (1 - (k + 1) / 2 ^ 53) \<le> c * (1 - k / 2 ^ 53) * (1 - 1 / 2 ^ 53)"
    unfolding mult.assoc using assms(2,3) by (intro mult_left_mono) (simp_all add: field_simps)
  ultimately show ?thesis by linarith
qed

lemma fl_high:
  assumes "x \<le> c * (1 + k / 2 ^ 52)" "0 \<le> k" "k \<le> 2 ^ 52" "0 \<le> c" "pow2 (- 1022) \<le> x"
  shows "fl x \<le> c * (1 + (k + 1) / 2 ^ 52)"
proof -
  have "fl x \<le> x * (1 + 1 / 2 ^ 53)"
    using fl_near [OF assms(5)] by simp
  moreover have "x * (1 + 1 / 2 ^ 53) \<le> c * (1 + k / 2 ^ 52) * (1 + 1 / 2 ^ 53)"
    using assms(1) by (rule mult_right_mono) simp
  moreover have "c * (1 + k / 2 ^ 52) * (1 + 1 / 2 ^ 53) \<le> c * (1 + (k + 1) / 2 ^ 52)"
    unfolding mult.assoc using assms(2,3,4) by (intro mult_left_mono) (simp_all add: field_simps)
  ultimately show ?thesis by linarith
qed

lemma tiny: "1 / 2 ^ 900 \<le> x \<Longrightarrow> pow2 (- 1022) \<le> x"
proof -
  assume "1 / 2 ^ 900 \<le> x"
  moreover have "pow2 (- 1022) \<le> pow2 (- 900)" by simp
  ultimately show ?thesis by (simp add: pow2_def)
qed

text \<open>The step is near a fifth of the range.\<close>

lemma nice_step:
  assumes libm: "accurate libm" and h: "1 / 2 ^ 21 \<le> h" "h \<le> 2 ^ 64"
  defines "step \<equiv> nice_tick_step libm (Some h) kDefaultTickCount"
  shows "is_double step" "9 / 50 * h \<le> step" "step \<le> 6 * h"
proof -
  have h0: "0 < h" using h(1) by (rule less_le_trans [rotated]) simp
  define raw where "raw = fl (h / 5)"
  define p where "p = lm_pow10 libm (of_int \<lfloor>lm_log10 libm raw\<rfloor>)"
  define frac where "frac = fl (raw / p)"
  define nice :: rat where "nice = (if frac \<le> 1 then 1 else if frac \<le> 2 then 2 else if frac \<le> 5 then 5 else 10)"
  have h5: "1 / 2 ^ 24 \<le> h / 5" "h / 5 \<le> 2 ^ 64" using h by simp_all
  have raw1: "h / 5 * (1 - 1 / 2 ^ 53) \<le> raw" "raw \<le> h / 5 * (1 + 1 / 2 ^ 52)"
    using fl_low [of "h / 5" 0 "h / 5"] fl_high [of "h / 5" "h / 5" 0] h0 tiny [OF order_trans [OF _ h5(1)]]
    unfolding raw_def by simp_all
  have "fl (pow2 (- 24)) \<le> raw" "raw \<le> fl (pow2 64)"
    unfolding raw_def using h5 by (intro fl_mono; simp add: pow2_def)+
  then have raw: "1 / 2 ^ 24 \<le> raw" "raw \<le> 2 ^ 64" by (simp_all add: fl_pow2, simp_all add: pow2_def)
  have raw0: "0 < raw" using raw(1) by (rule less_le_trans [rotated]) simp
  note p = decade [OF libm raw, folded p_def]
  have p0: "0 < p" using p(2) raw0 by linarith
  have q: "10 / 11 \<le> raw / p" using p(3) p0 by (simp add: pos_le_divide_eq)
  have frac: "raw / p * (1 - 1 / 2 ^ 53) \<le> frac"
    using fl_low [of "raw / p" 0 "raw / p"] raw0 p0 by (simp add: frac_def tiny [OF order_trans [OF _ q]])
  have "raw * (1 - 1 / 2 ^ 53) \<le> frac * p" using frac p0 by (simp add: field_simps)
  have small: "raw * (1 - 1 / 2 ^ 53) \<le> nice * p" if "frac \<le> nice"
    using \<open>raw * (1 - 1 / 2 ^ 53) \<le> frac * p\<close> mult_right_mono [OF that, of p] p0 by linarith
  have "raw * (10 / 11) \<le> nice * p"
  proof (cases "frac \<le> 5")
    case True
    then have "frac \<le> nice" by (simp add: nice_def)
    moreover have "raw * (10 / 11) \<le> raw * (1 - 1 / 2 ^ 53)" using raw0 by (intro mult_left_mono) simp_all
    ultimately show ?thesis using small by (metis order_trans)
  next
    case False
    then show ?thesis using p(2) by (simp add: nice_def)
  qed
  then have low: "2 / 11 * h * (1 - 1 / 2 ^ 53) \<le> nice * p"
    using mult_right_mono [OF raw1(1), of "10 / 11"] by simp
  have "nice \<le> 10" by (simp add: nice_def)
  then have "nice * p \<le> 10 * p" using p0 by (intro mult_right_mono) simp_all
  then have high: "nice * p \<le> 11 / 5 * h * (1 + 1 / 2 ^ 52)" using p(3) raw1(2) by linarith
  have step: "step = fl (nice * p)"
    using h0 raw0 by (simp add: step_def nice_tick_step_def kDefaultTickCount_def Let_def nice_def
        flip: raw_def p_def frac_def)
  show "is_double step" by (simp add: step)
  have big: "1 / 2 ^ 900 \<le> nice * p" using low h(1) by simp
  show "9 / 50 * h \<le> step"
    using fl_low [of "2 / 11 * h" 1 "nice * p"] low h0 unfolding step by (simp add: tiny [OF big])
  show "step \<le> 6 * h"
    using fl_high [of "nice * p" "11 / 5 * h" 1] high h0 unfolding step by (simp add: tiny [OF big])
qed

text \<open>An axis from zero of about the given number of steps, which is at most seven.\<close>

definition axis_of :: "axis_scale \<Rightarrow> int \<Rightarrow> bool" where
  "axis_of s n \<longleftrightarrow>
     ax_min s = 0 \<and> is_double (ax_tick_step s) \<and> 1 / 2 ^ 30 \<le> ax_tick_step s \<and> is_double (ax_max s) \<and>
     1 \<le> n \<and> n \<le> 7 \<and> of_int n * ax_tick_step s * (1 - 3 / 2 ^ 53) \<le> ax_max s \<and>
     ax_max s \<le> of_int n * ax_tick_step s * (1 + 3 / 2 ^ 52)"

lemma axis_of_step: "axis_of s n \<Longrightarrow> 0 < ax_tick_step s"
  unfolding axis_of_def by (rule less_le_trans [of _ "1 / 2 ^ 30"]) simp_all

text \<open>The ticks are the multiples of the step, and the conversion of their count to \<open>int\<close> is in range.\<close>

lemma axis_ticks_of:
  assumes "axis_of s n"
  shows "axis_ticks s = map (\<lambda>i. fl (of_int i * ax_tick_step s)) [0..n]"
proof -
  let ?step = "ax_tick_step s" and ?top = "ax_max s"
  have a: "ax_min s = 0" "fl ?top = ?top" "1 \<le> n" "n \<le> 7"
    "of_int n * ?step * (1 - 3 / 2 ^ 53) \<le> ?top" "?top \<le> of_int n * ?step * (1 + 3 / 2 ^ 52)"
    using assms by (simp_all add: axis_of_def fl_double)
  have step: "0 < ?step" by (rule axis_of_step [OF assms])
  have n: "(1 :: rat) \<le> of_int n" "(of_int n :: rat) \<le> 7" using a(3,4) by simp_all
  have q: "of_int n * (1 - 3 / 2 ^ 53) \<le> ?top / ?step" "?top / ?step \<le> of_int n * (1 + 3 / 2 ^ 52)"
    using a(5,6) step by (simp_all add: pos_le_divide_eq pos_divide_le_eq mult_ac)
  have "1 / 2 \<le> 1 * (1 - 3 / 2 ^ 53 :: rat)" by simp
  also have "\<dots> \<le> of_int n * (1 - 3 / 2 ^ 53)" using n(1) by (intro mult_right_mono) simp_all
  finally have half: "1 / 2 \<le> ?top / ?step" using q(1) by (rule order_trans)
  have big: "pow2 (- 1022) \<le> ?top / ?step" by (rule tiny [OF order_trans [OF _ half]]) simp
  have f: "of_int n * (1 - 4 / 2 ^ 53) \<le> fl (?top / ?step)" "fl (?top / ?step) \<le> of_int n * (1 + 4 / 2 ^ 52)"
    using fl_low [OF q(1) _ _ big] fl_high [OF q(2) _ _ _ big] n(1) by simp_all
  have eps: "1 / 2 ^ 31 \<le> kTickEpsilon" "kTickEpsilon \<le> 1 / 2 ^ 29"
    using fl_near [of "1 / 10 ^ 9"] tiny [of "1 / 10 ^ 9"] by (simp_all add: kTickEpsilon_def)
  define v where "v = fl (?top / ?step) + kTickEpsilon"
  have v: "of_int n \<le> v" "v \<le> of_int n + 1 / 4" unfolding v_def using f eps n by (simp_all add: algebra_simps)
  then have "v * (1 + 1 / 2 ^ 53) \<le> (of_int n + 1 / 4) * (1 + 1 / 2 ^ 53)" by (intro mult_right_mono) simp_all
  moreover have "fl v \<le> v * (1 + 1 / 2 ^ 53)" using v n by (intro fl_near tiny) simp
  ultimately have "fl v < of_int n + 1" using n by (simp add: algebra_simps)
  moreover have "of_int n \<le> fl v" using v(1) a(3,4) by (intro fl_ge_int) simp_all
  ultimately have "\<lfloor>fl v\<rfloor> = n" by (simp add: floor_eq_iff)
  moreover have "0 \<le> of_int n * ?step * (1 - 3 / 2 ^ 53)" using n(1) step by simp
  then have "0 \<le> ?top" using a(5) by linarith
  ultimately show ?thesis
    using step a by (simp add: axis_ticks_def Let_def v_def kMaxTicks_def)
qed

lemma axis_ticks_shape:
  assumes "axis_of s n"
  shows "hd (axis_ticks s) = 0" "sorted (axis_ticks s)" "length (axis_ticks s) = nat n + 1"
    "last (axis_ticks s) = fl (of_int n * ax_tick_step s)"
proof -
  have n: "1 \<le> n" and step: "0 < ax_tick_step s"
    using assms axis_of_step by (simp_all add: axis_of_def)
  have up: "[0..n] = 0 # [1..n]" "[0..n] = [0..n - 1] @ [n]"
    using n upto_rec1 [of 0 n] upto_rec2 [of 0 n] by simp_all
  have "fl (of_int i * ax_tick_step s) \<le> fl (of_int j * ax_tick_step s)" if "i \<le> j" for i j :: int
    using that step by (intro fl_mono mult_right_mono) simp_all
  then have "sorted (map (\<lambda>i. fl (of_int i * ax_tick_step s)) is)" if "sorted is" for "is" :: "int list"
    using that by (induction "is") auto
  then show "sorted (axis_ticks s)" by (simp add: axis_ticks_of [OF assms])
  show "hd (axis_ticks s) = 0" unfolding axis_ticks_of [OF assms] up(1) by simp
  show "last (axis_ticks s) = fl (of_int n * ax_tick_step s)" unfolding axis_ticks_of [OF assms] up(2) by simp
  show "length (axis_ticks s) = nat n + 1" using n by (simp add: axis_ticks_of [OF assms])
qed

lemma make_axis:
  assumes libm: "accurate libm" and h: "1 / 2 ^ 21 \<le> h" "h \<le> 2 ^ 64" "is_double h"
    and s: "s = make_axis_scale libm (Some 0) (Some h) kDefaultTickCount"
  obtains n where "axis_of s n" "ax_max s = fl (of_int n * ax_tick_step s)" "n \<le> 6"
    "h * (1 - 1 / 2 ^ 53) \<le> of_int n * ax_tick_step s"
proof -
  define step where "step = nice_tick_step libm (Some h) kDefaultTickCount"
  define n where "n = \<lceil>fl (h / step)\<rceil>"
  have h0: "0 < h" using h(1) by (rule less_le_trans [rotated]) simp
  note st = nice_step [OF libm h(1,2), folded step_def]
  have step: "0 < step" using st(2) h0 by linarith
  have q: "1 / 6 \<le> h / step" "h / step \<le> 50 / 9"
    using st step by (simp_all add: pos_le_divide_eq pos_divide_le_eq)
  have big: "pow2 (- 1022) \<le> h / step" using q(1) by (intro tiny) simp
  have f: "h / step * (1 - 1 / 2 ^ 53) \<le> fl (h / step)" "fl (h / step) \<le> h / step * (1 + 1 / 2 ^ 53)"
    by (rule fl_near [OF big])+
  have "h / step * (1 + 1 / 2 ^ 53) \<le> 50 / 9 * (1 + 1 / 2 ^ 53)" using q(2) by (intro mult_right_mono) simp_all
  then have "fl (h / step) \<le> 6" using f(2) by simp
  then have n6: "n \<le> 6" by (simp add: n_def ceiling_le_iff)
  have "1 / 6 * (1 - 1 / 2 ^ 53) \<le> h / step * (1 - 1 / 2 ^ 53)" using q(1) by (intro mult_right_mono) simp_all
  then have "0 < fl (h / step)" using f(1) by simp
  then have n1: "1 \<le> n" unfolding n_def by linarith
  have up: "fl (h / step) \<le> of_int n" by (simp add: n_def)
  have "h / step * (1 - 1 / 2 ^ 53) * step \<le> of_int n * step"
    using f(1) up step by (intro mult_right_mono) simp_all
  then have reach: "h * (1 - 1 / 2 ^ 53) \<le> of_int n * step" using step by (simp add: mult_ac)
  have ns: "step \<le> of_int n * step" using n1 step by simp
  have "step \<le> fl (of_int n * step)" by (rule fl_ge_double [OF st(1) ns])
  then have s': "s = \<lparr>ax_min = 0, ax_max = fl (of_int n * step), ax_tick_step = step\<rparr>"
    using h0 st(1) h(3) by (auto simp: s make_axis_scale_def axis_range_def Let_def fl_double n_def step_def)
  have low: "1 / 2 ^ 30 \<le> step" using st(2) h(1) by simp
  have big': "pow2 (- 1022) \<le> of_int n * step" using order_trans [OF low ns] by (intro tiny) simp
  have m: "of_int n * step * (1 - 1 / 2 ^ 53) \<le> fl (of_int n * step)"
    "fl (of_int n * step) \<le> of_int n * step * (1 + 1 / 2 ^ 53)" by (rule fl_near [OF big'])+
  have p: "0 < of_int n * step" using ns step by linarith
  have "of_int n * step * (1 - 3 / 2 ^ 53) \<le> of_int n * step * (1 - 1 / 2 ^ 53)"
    "of_int n * step * (1 + 1 / 2 ^ 53) \<le> of_int n * step * (1 + 3 / 2 ^ 52)"
    using p by (intro mult_left_mono; simp)+
  then have "axis_of s n" using m n1 n6 low st(1) by (simp add: s' axis_of_def)
  with n6 reach that [of n] show thesis by (simp add: s')
qed

lemma make_axis_zero: "make_axis_scale libm (Some 0) (Some 0) target = make_axis_scale libm (Some 0) (Some 1) target"
  by (simp add: make_axis_scale_def axis_range_def)

lemma unit_divisor_range: "1 \<le> unit_divisor kind \<and> unit_divisor kind \<le> 2 ^ 20 \<and> (\<exists>i. unit_divisor kind = of_int i \<and> 1 \<le> i \<and> i \<le> 2 ^ 20)"
  using fl_of_int [of 1048576] fl_of_int [of 1000]
  by (cases kind) (auto simp: unit_divisor_def of_u64_exact kBytesPerMiB_def kNsPerUs_def
      intro: exI [of _ "1 :: int"] exI [of _ "1048576 :: int"] exI [of _ "1000 :: int"])

lemma make_unit_axis:
  assumes libm: "accurate libm" and h: "1 \<le> h" "h \<le> 2 ^ 64" "is_double h"
    and u: "u = make_unit_axis_scale libm kind (Some 0) (Some h)"
  obtains m where "axis_of u m" "unit_divisor kind \<le> ax_tick_step u"
    "h * (1 - 5 / 2 ^ 53) \<le> of_int m * ax_tick_step u"
proof -
  let ?d = "unit_divisor kind"
  define h' where "h' = fl (h / ?d)"
  define s where "s = make_axis_scale libm (Some 0) (Some h') kDefaultTickCount"
  obtain i where d: "1 \<le> ?d" "?d \<le> 2 ^ 20" "?d = of_int i" "1 \<le> i" "i \<le> 2 ^ 20"
    using unit_divisor_range [of kind] by blast
  have dd: "is_double ?d" using d by (simp add: is_double_def fl_of_int)
  have hd: "1 / 2 ^ 20 \<le> h / ?d" "h / ?d \<le> 2 ^ 64"
    using h d by (simp_all add: pos_le_divide_eq pos_divide_le_eq)
  have "fl (pow2 (- 20)) \<le> h'" "h' \<le> fl (pow2 64)"
    unfolding h'_def using hd by (intro fl_mono; simp add: pow2_def)+
  then have hr: "1 / 2 ^ 21 \<le> h'" "h' \<le> 2 ^ 64" by (simp_all add: fl_pow2, simp_all add: pow2_def)
  have "is_double h'" by (simp add: h'_def)
  from make_axis [OF libm hr this s_def] obtain n where n: "axis_of s n"
    "ax_max s = fl (of_int n * ax_tick_step s)" "n \<le> 6" "h' * (1 - 1 / 2 ^ 53) \<le> of_int n * ax_tick_step s" .
  let ?ss = "ax_tick_step s" and ?b = "1 - 1 / 2 ^ 53 :: rat"
  have ss: "1 / 2 ^ 30 \<le> ?ss" "0 < ?ss" "ax_min s = 0" "1 \<le> n"
    using n(1) axis_of_step by (simp_all add: axis_of_def)
  define c where "c = of_int n * ?ss"
  have "1 * ?ss \<le> c" unfolding c_def using ss(2,4) by (intro mult_right_mono) simp_all
  then have c: "1 / 2 ^ 30 \<le> c" "0 < c" using ss(1,2) by linarith+
  have top: "c * ?b \<le> ax_max s" "ax_max s \<le> c * (1 + 1 / 2 ^ 53)"
    unfolding n(2) c_def [symmetric] using c(1) by (intro fl_near tiny; simp)+
  have "pow2 (- 1022) \<le> h / ?d" by (rule tiny [OF order_trans [OF _ hd(1)]]) simp
  from fl_near(1) [OF this] have "h / ?d * ?b \<le> h'" by (simp only: h'_def)
  then have "h / ?d * ?b * ?b \<le> h' * ?b" by (rule mult_right_mono) simp
  also have "\<dots> \<le> c" using n(4) by (simp only: c_def)
  finally have "h / ?d * ?b * ?b * ?d \<le> c * ?d" using d(1) by (intro mult_right_mono) simp_all
  then have "h * ?b * ?b \<le> c * ?d" using d(1) by simp
  then have "h * ?b * ?b * ?b \<le> c * ?d * ?b" by (rule mult_right_mono) simp
  moreover have "h * (1 - 5 / 2 ^ 53) \<le> h * ?b * ?b * ?b" using h(1) by simp
  ultimately have reach: "h * (1 - 5 / 2 ^ 53) \<le> c * ?d * ?b" by linarith
  have u': "u = (if ?ss < 1
      then \<lparr>ax_min = fl (0 * ?d), ax_max = fl (max (of_int \<lceil>ax_max s\<rceil>) 1 * ?d), ax_tick_step = fl (1 * ?d)\<rparr>
      else \<lparr>ax_min = fl (0 * ?d), ax_max = fl (ax_max s * ?d), ax_tick_step = fl (?ss * ?d)\<rparr>)"
    using ss by (simp add: u make_unit_axis_scale_def Let_def flip: s_def h'_def)
  show thesis
  proof (cases "?ss < 1")
    case True
    define m where "m = max \<lceil>ax_max s\<rceil> 1"
    have "c \<le> of_int 6" using mult_mono [of "of_int n" 6 ?ss 1] n(3) ss True by (simp add: c_def)
    then have "ax_max s \<le> of_int 6" unfolding n(2) c_def [symmetric] by (rule fl_le_int) simp
    then have m: "1 \<le> m" "m \<le> 6" by (simp_all add: m_def ceiling_le_iff)
    have "m * i \<le> 6 * 2 ^ 20" using m d by (intro mult_mono) simp_all
    then have md: "fl (of_int m * ?d) = of_int m * ?d"
      using m d fl_of_int [of "m * i"] by (simp add: abs_mult)
    have um: "u = \<lparr>ax_min = 0, ax_max = of_int m * ?d, ax_tick_step = ?d\<rparr>"
      using True md fl_double [OF dd] by (simp add: u' m_def of_int_max)
    have m0: "0 < of_int m * ?d" using m d by simp
    have "axis_of u m" using m d(1) dd md m0 by (simp add: um axis_of_def is_double_def)
    moreover have "ax_max s * ?d \<le> of_int m * ?d"
      using d(1) by (intro mult_right_mono) (simp_all add: m_def of_int_max le_max_iff_disj)
    moreover have "c * ?b * ?d \<le> ax_max s * ?d" using top(1) d(1) by (intro mult_right_mono) simp_all
    moreover have "c * ?d * ?b = c * ?b * ?d" by (simp only: mult_ac)
    ultimately show thesis using reach that [of m] by (simp add: um)
  next
    case False
    define v where "v = c * ?d"
    have v: "1 / 2 ^ 30 \<le> v" "0 < v" unfolding v_def using c d(1) mult_mono [of "1 / 2 ^ 30" c 1 ?d] by simp_all
    have sd: "1 \<le> ?ss * ?d" using False d(1) mult_mono [of 1 ?ss 1 ?d] by simp
    have step: "?ss * ?d * ?b \<le> fl (?ss * ?d)" "fl (?ss * ?d) \<le> ?ss * ?d * (1 + 1 / 2 ^ 53)"
      using sd by (intro fl_near tiny; simp)+
    have nstep: "v * ?b \<le> of_int n * fl (?ss * ?d)" "of_int n * fl (?ss * ?d) \<le> v * (1 + 1 / 2 ^ 53)"
      using mult_left_mono [OF step(1), of "of_int n"] mult_left_mono [OF step(2), of "of_int n"] ss(4)
      by (simp_all only: v_def c_def mult_ac of_int_0_le_iff)
    have t: "v * (1 - 1 / 2 ^ 53) \<le> ax_max s * ?d" "ax_max s * ?d \<le> v * (1 + 1 / 2 ^ 52)"
      using mult_right_mono [OF top(1), of ?d] mult_right_mono [OF top(2), of ?d] d(1) v(2)
      by (simp_all add: v_def mult_ac)
    have big: "pow2 (- 1022) \<le> ax_max s * ?d" using t(1) v(1) by (intro tiny) simp
    have umax: "v * (1 - 2 / 2 ^ 53) \<le> fl (ax_max s * ?d)" "fl (ax_max s * ?d) \<le> v * (1 + 2 / 2 ^ 52)"
      using fl_low [OF t(1) _ _ big] fl_high [OF t(2) _ _ _ big] v(2) by simp_all
    have "of_int n * fl (?ss * ?d) * (1 - 3 / 2 ^ 53) \<le> v * (1 + 1 / 2 ^ 53) * (1 - 3 / 2 ^ 53)"
      "v * ?b * (1 + 3 / 2 ^ 52) \<le> of_int n * fl (?ss * ?d) * (1 + 3 / 2 ^ 52)"
      using nstep by (intro mult_right_mono; simp)+
    moreover have "v * (1 + 1 / 2 ^ 53) * (1 - 3 / 2 ^ 53) \<le> v * (1 - 2 / 2 ^ 53)"
      "v * (1 + 2 / 2 ^ 52) \<le> v * ?b * (1 + 3 / 2 ^ 52)" using v(2) by simp_all
    moreover have "?d \<le> fl (?ss * ?d)"
      using False d(1) mult_right_mono [of 1 ?ss ?d] by (intro fl_ge_double [OF dd]) simp
    moreover have "1 / 2 ^ 30 \<le> fl (?ss * ?d)" using step(1) sd by simp
    moreover have uf: "u = \<lparr>ax_min = 0, ax_max = fl (ax_max s * ?d), ax_tick_step = fl (?ss * ?d)\<rparr>"
      using False by (simp add: u')
    ultimately have "axis_of u n" "?d \<le> ax_tick_step u"
      using umax n(3) ss(4) unfolding axis_of_def uf by simp_all
    moreover have "h * (1 - 5 / 2 ^ 53) \<le> of_int n * ax_tick_step u"
      using reach nstep(1) by (simp add: uf v_def)
    ultimately show thesis by (rule that)
  qed
qed

lemma make_unit_axis_zero:
  "make_unit_axis_scale libm kind (Some 0) (Some 0) = make_unit_axis_scale libm kind (Some 0) (Some (unit_divisor kind))"
proof -
  have "fl (unit_divisor kind / unit_divisor kind) = 1" using unit_divisor_range [of kind] by auto
  then show ?thesis by (simp add: make_unit_axis_scale_def make_axis_zero)
qed

text \<open>The data of a chart: nothing, or at least one.\<close>

definition chart_data :: "rat \<Rightarrow> bool" where
  "chart_data high \<longleftrightarrow> is_double high \<and> (high = 0 \<or> 1 \<le> high \<and> high \<le> 2 ^ 64)"

lemma chart_time_axis:
  assumes "accurate libm" "chart_data high"
  obtains n where "axis_of (make_axis_scale libm (Some 0) (Some high) kDefaultTickCount) n"
    "high * (1 - 5 / 2 ^ 53) \<le> of_int n * ax_tick_step (make_axis_scale libm (Some 0) (Some high) kDefaultTickCount)"
proof (cases "high = 0")
  case True
  have "is_double 1" by (simp add: is_double_def)
  from make_axis [OF assms(1) _ _ this refl] obtain n where
    n: "axis_of (make_axis_scale libm (Some 0) (Some 1) kDefaultTickCount) n" by auto
  then have "0 \<le> of_int n * ax_tick_step (make_axis_scale libm (Some 0) (Some 1) kDefaultTickCount)"
    using axis_of_step [OF n] by (simp add: axis_of_def)
  with n that [of n] True show thesis by (simp add: make_axis_zero)
next
  case False
  then have h: "1 \<le> high" "high \<le> 2 ^ 64" "is_double high" using assms(2) by (simp_all add: chart_data_def)
  then have "1 / 2 ^ 21 \<le> high" by simp
  from make_axis [OF assms(1) this h(2,3) refl] obtain n where
    n: "axis_of (make_axis_scale libm (Some 0) (Some high) kDefaultTickCount) n"
    "high * (1 - 1 / 2 ^ 53) \<le> of_int n * ax_tick_step (make_axis_scale libm (Some 0) (Some high) kDefaultTickCount)" .
  have "high * (1 - 5 / 2 ^ 53) \<le> high * (1 - 1 / 2 ^ 53)" using h(1) by (intro mult_left_mono) simp_all
  with n(2) have "high * (1 - 5 / 2 ^ 53) \<le> of_int n * ax_tick_step (make_axis_scale libm (Some 0) (Some high) kDefaultTickCount)"
    by (rule order_trans [rotated])
  with n(1) show thesis by (rule that)
qed

lemma chart_unit_axis:
  assumes "accurate libm" "chart_data high"
  obtains n where "axis_of (make_unit_axis_scale libm kind (Some 0) (Some high)) n"
    "unit_divisor kind \<le> ax_tick_step (make_unit_axis_scale libm kind (Some 0) (Some high))"
    "high * (1 - 5 / 2 ^ 53) \<le> of_int n * ax_tick_step (make_unit_axis_scale libm kind (Some 0) (Some high))"
proof (cases "high = 0")
  case True
  let ?u = "make_unit_axis_scale libm kind (Some 0) (Some (unit_divisor kind))"
  have d: "1 \<le> unit_divisor kind" "unit_divisor kind \<le> 2 ^ 64" "is_double (unit_divisor kind)"
    using unit_divisor_range [of kind] by (auto simp: is_double_def fl_of_int)
  from make_unit_axis [OF assms(1) d refl] obtain n where
    n: "axis_of ?u n" "unit_divisor kind \<le> ax_tick_step ?u" by blast
  then have "0 \<le> of_int n * ax_tick_step ?u" using axis_of_step [OF n(1)] by (simp add: axis_of_def)
  with n that [of n] True show thesis by (simp add: make_unit_axis_zero)
next
  case False
  then have h: "1 \<le> high" "high \<le> 2 ^ 64" "is_double high" using assms(2) by (simp_all add: chart_data_def)
  from make_unit_axis [OF assms(1) h refl] that show thesis by blast
qed

text \<open>What the top and the last tick of an axis are worth when its steps reach a value.\<close>

lemma axis_reach:
  assumes s: "axis_of s n" and reach: "h * (1 - 5 / 2 ^ 53) \<le> of_int n * ax_tick_step s" and h: "0 \<le> h"
  shows "h * (1 - 1 / 2 ^ 50) \<le> ax_max s \<and> h * (1 - 1 / 2 ^ 50) \<le> last (axis_ticks s)"
proof -
  define c where "c = of_int n * ax_tick_step s"
  have st: "1 / 2 ^ 30 \<le> ax_tick_step s" "1 \<le> n" using s by (simp_all add: axis_of_def)
  have "1 * ax_tick_step s \<le> c" unfolding c_def using st axis_of_step [OF s] by (intro mult_right_mono) simp_all
  then have c: "1 / 2 ^ 30 \<le> c" "0 < c" using st axis_of_step [OF s] by linarith+
  have low: "h * (1 - 1 / 2 ^ 50) \<le> c * (1 - 3 / 2 ^ 53)"
  proof -
    have "h * (1 - 1 / 2 ^ 50) \<le> h * (1 - 5 / 2 ^ 53) * (1 - 3 / 2 ^ 53)" using h by simp
    also have "\<dots> \<le> c * (1 - 3 / 2 ^ 53)" using reach by (intro mult_right_mono) (simp_all add: c_def)
    finally show ?thesis .
  qed
  have "c * (1 - 1 / 2 ^ 53) \<le> fl c" by (rule fl_near [OF tiny [OF order_trans [OF _ c(1)]]]) simp
  moreover have "c * (1 - 3 / 2 ^ 53) \<le> c * (1 - 1 / 2 ^ 53)" using c(2) by simp
  moreover have "c * (1 - 3 / 2 ^ 53) \<le> ax_max s" using s by (simp add: axis_of_def c_def)
  ultimately show ?thesis using low axis_ticks_shape(4) [OF s] unfolding c_def [symmetric] by linarith
qed

text \<open>
  C40. The axes of a chart start at zero, with a positive step; the step of a value axis is at least
  one unit of its labels. The ticks start at zero, are in order, are at least two and at most eight, and
  the last tick and the top of the axis reach the largest value, but for a rounding error below one part in
  \<open>2 ^ 50\<close>. This is for a largest value that is zero or at least one, which every value the program draws
  is, and for a \<open>log10\<close> and a \<open>pow\<close> that are right to one percent.
\<close>

theorem chart_axis_from_zero:
  assumes libm: "accurate libm" and high: "chart_data high"
  shows "let s = make_axis_scale libm (Some 0) (Some high) kDefaultTickCount; ts = axis_ticks s;
      u = make_unit_axis_scale libm kind (Some 0) (Some high); us = axis_ticks u in
     ax_min s = 0 \<and> 0 < ax_tick_step s \<and> hd ts = 0 \<and> sorted ts \<and> 2 \<le> length ts \<and> length ts \<le> 8 \<and>
     high * (1 - 1 / 2 ^ 50) \<le> ax_max s \<and> high * (1 - 1 / 2 ^ 50) \<le> last ts \<and>
     ax_min u = 0 \<and> unit_divisor kind \<le> ax_tick_step u \<and> hd us = 0 \<and> sorted us \<and>
     2 \<le> length us \<and> length us \<le> 8 \<and>
     high * (1 - 1 / 2 ^ 50) \<le> ax_max u \<and> high * (1 - 1 / 2 ^ 50) \<le> last us"
proof -
  obtain n where n: "axis_of (make_axis_scale libm (Some 0) (Some high) kDefaultTickCount) n"
    "high * (1 - 5 / 2 ^ 53) \<le> of_int n * ax_tick_step (make_axis_scale libm (Some 0) (Some high) kDefaultTickCount)"
    using chart_time_axis [OF assms] .
  obtain m where m: "axis_of (make_unit_axis_scale libm kind (Some 0) (Some high)) m"
    "unit_divisor kind \<le> ax_tick_step (make_unit_axis_scale libm kind (Some 0) (Some high))"
    "high * (1 - 5 / 2 ^ 53) \<le> of_int m * ax_tick_step (make_unit_axis_scale libm kind (Some 0) (Some high))"
    using chart_unit_axis [OF assms] .
  have h: "0 \<le> high" using high by (auto simp: chart_data_def)
  have "ax_min s = 0 \<and> 0 < ax_tick_step s \<and> hd (axis_ticks s) = 0 \<and> sorted (axis_ticks s) \<and>
      2 \<le> length (axis_ticks s) \<and> length (axis_ticks s) \<le> 8" if "axis_of s k" for s k
    using that axis_ticks_shape(1-3) [OF that] axis_of_step [OF that] by (simp add: axis_of_def nat_le_iff le_nat_iff)
  from this [OF n(1)] this [OF m(1)] axis_reach [OF n h] axis_reach [OF m(1,3) h] m(2)
  show ?thesis by (simp add: Let_def)
qed

text \<open>A library that rounds the logarithm down to a hundredth and the power to a double.\<close>

definition hundredths :: libm_api where
  "hundredths = \<lparr>lm_log10 = (\<lambda>x. of_int \<lfloor>100 * log 10 (real_of_rat x)\<rfloor> / 100),
     lm_pow10 = (\<lambda>e. fl (if 0 \<le> e then 10 ^ nat \<lfloor>e\<rfloor> else 1 / 10 ^ nat (- \<lfloor>e\<rfloor>)))\<rparr>"

lemma accurate_hundredths: "accurate hundredths"
proof -
  have log: "\<bar>real_of_rat (of_int \<lfloor>100 * l\<rfloor> / 100) - l\<bar> \<le> 1 / 100" for l
    using floor_correct [of "100 * l"] by (simp add: of_rat_divide abs_le_iff field_simps)
  have pow: "\<bar>real_of_rat (fl r) - 10 powr of_int e\<bar> \<le> 10 powr of_int e / 100"
    if e: "\<bar>e\<bar> \<le> 30" and r: "r = (if 0 \<le> e then 10 ^ nat e else 1 / 10 ^ nat (- e))" for e :: int and r
  proof -
    have real: "real_of_rat r = 10 powr of_int e"
      by (simp add: r of_rat_power of_rat_divide powr_real_of_int inverse_eq_divide)
    have "1 / 10 ^ 30 \<le> r"
    proof (cases "0 \<le> e")
      case True
      have "(1 :: rat) \<le> 10 ^ nat e" by (rule one_le_power) simp
      moreover have "1 / 10 ^ 30 \<le> (1 :: rat)" by simp
      ultimately have "1 / 10 ^ 30 \<le> (10 :: rat) ^ nat e" by (rule order_trans [rotated])
      then show ?thesis using True by (simp only: r if_True)
    next
      case False
      then have "(10 :: rat) ^ nat (- e) \<le> 10 ^ 30" using e by (intro power_increasing) simp_all
      then show ?thesis using False by (simp add: r frac_le)
    qed
    then have t: "pow2 (- 1022) \<le> r" by (intro tiny) simp
    have p: "0 < r" using \<open>1 / 10 ^ 30 \<le> r\<close> by (rule less_le_trans [rotated]) simp
    have "fl r \<le> r + r / 100" "r - r / 100 \<le> fl r" using fl_near [OF t] p by (simp_all add: algebra_simps)
    then have "real_of_rat (fl r) \<le> real_of_rat (r + r / 100)" "real_of_rat (r - r / 100) \<le> real_of_rat (fl r)"
      unfolding of_rat_less_eq .
    then show ?thesis unfolding of_rat_add of_rat_diff of_rat_divide real abs_le_iff by simp
  qed
  show ?thesis
    unfolding accurate_def
  proof (intro conjI allI impI)
    show "\<bar>real_of_rat (lm_log10 hundredths x) - log 10 (real_of_rat x)\<bar> \<le> 1 / 100" for x
      using log [of "log 10 (real_of_rat x)"] by (simp only: hundredths_def libm_api.simps)
    fix e :: int
    assume e: "\<bar>e\<bar> \<le> 30"
    have p: "lm_pow10 hundredths (of_int e) = fl (if 0 \<le> e then 10 ^ nat e else 1 / 10 ^ nat (- e))"
      by (simp add: hundredths_def)
    show "is_double (lm_pow10 hundredths (of_int e))" by (simp add: p)
    show "\<bar>real_of_rat (lm_pow10 hundredths (of_int e)) - 10 powr of_int e\<bar> \<le> 10 powr of_int e / 100"
      unfolding p by (rule pow [OF e refl])
  qed
qed

theorem chart_axis_from_zero_witness:
  "let u = make_unit_axis_scale hundredths Kind_kBandwidth (Some 0) (Some 42)
   in ax_min u = 0 \<and> 1048576 \<le> ax_tick_step u \<and> hd (axis_ticks u) = 0 \<and> 2 \<le> length (axis_ticks u) \<and>
      length (axis_ticks u) \<le> 8 \<and> 41 \<le> last (axis_ticks u)"
proof -
  have "fl (of_int 42) = of_int 42" by (rule fl_of_int) simp
  then have "chart_data 42" by (simp add: chart_data_def is_double_def)
  from chart_axis_from_zero [OF accurate_hundredths this, of Kind_kBandwidth] show ?thesis
    by (simp add: Let_def unit_divisor_def of_u64_exact kBytesPerMiB_def)
qed

end
