(* ===== verification/Graph_Widget.thy ===== *)
theory Graph_Widget
  imports Chart_Geometry
begin

text \<open>
  The charts of the GUI (\<open>src/display/qt/qt_graph_widget.cpp\<close>): \<open>SetSeries\<close>, and \<open>paintEvent\<close> as the list of
  commands that it gives to the painter. The metrics of the font, the palette and the size of the
  widget are parameters.
\<close>

section \<open>Commands of the painter\<close>

record qt_color =
  qc_rgb :: u32
  qc_alpha :: int

record qt_pen =
  pn_color :: qt_color
  pn_width :: rat

record qt_box =
  bx_left :: rat
  bx_top :: rat
  bx_width :: rat
  bx_height :: rat

datatype alignment = AlignCenter | AlignRight_VCenter | AlignHCenter_Top

datatype render_hint = Antialiasing | TextAntialiasing

datatype paint_cmd =
  Set_Render_Hint render_hint
| Fill_Rect qt_box qt_color
| Set_Pen qt_pen
| Draw_Text_At chart_point string
| Draw_Text_In qt_box alignment string
| Draw_Line chart_point chart_point
| Draw_Point chart_point
| Draw_Polyline "chart_point list"

record font_metrics =
  fo_ascent :: rat
  fo_height :: rat
  fo_advance :: "string \<Rightarrow> rat"

record graph_env =
  ge_fmt :: fmt_api
  ge_libm :: libm_api
  ge_font :: font_metrics
  ge_base :: qt_color
  ge_text :: qt_color

record graph_widget =
  gw_kind :: chart_kind
  gw_series :: "chart_series list"
  gw_x_scale :: axis_scale
  gw_y_scale :: axis_scale
  gw_has_data :: bool

definition kSeriesColors :: "u32 list" where "kSeriesColors = [0x3D8BFD, 0xE8A33D, 0xC0392B]"
definition kLabelPadding :: rat where "kLabelPadding = 6"
definition kRightMargin :: rat where "kRightMargin = 12"
definition kTitleGap :: rat where "kTitleGap = 4"
definition kLinePenWidth :: rat where "kLinePenWidth = 2"
definition kLegendSwatch :: rat where "kLegendSwatch = 14"
definition kLegendGap :: rat where "kLegendGap = 16"
definition kGridAlpha :: int where "kGridAlpha = 60"
definition kAxisAlpha :: int where "kAxisAlpha = 140"

definition series_color :: "nat \<Rightarrow> qt_color" where
  "series_color index = \<lparr>qc_rgb = kSeriesColors ! (index mod length kSeriesColors), qc_alpha = 255\<rparr>"

text \<open>A pen of a color alone has width one.\<close>

definition color_pen :: "qt_color \<Rightarrow> qt_pen" where
  "color_pen color = \<lparr>pn_color = color, pn_width = 1\<rparr>"

abbreviation point :: "rat \<Rightarrow> rat \<Rightarrow> chart_point" where
  "point x y \<equiv> \<lparr>pt_x = x, pt_y = y\<rparr>"

section \<open>Data\<close>

definition graph_widget_create :: "chart_kind \<Rightarrow> graph_widget" where
  "graph_widget_create kind =
     (let scale = \<lparr>ax_min = 0, ax_max = 1, ax_tick_step = 1\<rparr>
      in \<lparr>gw_kind = kind, gw_series = [], gw_x_scale = scale, gw_y_scale = scale, gw_has_data = False\<rparr>)"

definition set_series :: "libm_api \<Rightarrow> metrics_snapshot list \<Rightarrow> graph_widget \<Rightarrow> graph_widget" where
  "set_series libm history w =
     (let series = map (extract_series history) (chart_kind_metrics (gw_kind w))
      in w\<lparr>gw_has_data := history \<noteq> [], gw_series := series,
           gw_x_scale := make_axis_scale libm (Some 0) (Some (series_duration_seconds history)) kDefaultTickCount,
           gw_y_scale := make_unit_axis_scale libm (gw_kind w) (Some 0) (Some (max_y series))\<rparr>)"

section \<open>Painting\<close>

text \<open>The labels of the value axis and the widest of them.\<close>

fun label_loop :: "graph_env \<Rightarrow> chart_kind \<Rightarrow> rat list \<Rightarrow> string list \<Rightarrow> rat \<Rightarrow> string list \<times> rat" where
  "label_loop env kind [] y_labels widest_label = (y_labels, widest_label)"
| "label_loop env kind (tick # ticks) y_labels widest_label =
     (let label = format_axis_tick (ge_fmt env) kind (Some tick)
      in label_loop env kind ticks (y_labels @ [label]) (max widest_label (fo_advance (ge_font env) label)))"

definition graph_margins :: "graph_env \<Rightarrow> graph_widget \<Rightarrow> rat \<Rightarrow> rat \<Rightarrow> chart_margins" where
  "graph_margins env w widest_label last_time_label =
     (let height = fo_height (ge_font env);
          two_pads = fl (2 * kLabelPadding);
          top = fl (fl (height + kLabelPadding) + kTitleGap)
      in \<lparr>mg_left = fl (widest_label + two_pads),
          mg_top = fl (top + (if length (gw_series w) > 1 then fl (height + kTitleGap) else 0)),
          mg_right = max kRightMargin (fl (fl (last_time_label / 2) + kLabelPadding)),
          mg_bottom = fl (height + two_pads)\<rparr>)"

fun legend_loop :: "graph_env \<Rightarrow> rat \<Rightarrow> nat \<Rightarrow> chart_series list \<Rightarrow> rat \<Rightarrow> paint_cmd list" where
  "legend_loop env legend_y i [] legend_x = []"
| "legend_loop env legend_y i (one # series) legend_x =
     (let label = cs_label one;
          swatch_end = fl (legend_x + kLegendSwatch);
          text_x = fl (swatch_end + kLabelPadding)
      in [Set_Pen \<lparr>pn_color = series_color i, pn_width = kLinePenWidth\<rparr>,
          Draw_Line (point legend_x legend_y) (point swatch_end legend_y),
          Set_Pen (color_pen (ge_text env)),
          Draw_Text_At (point text_x (fl (legend_y + fl (fo_ascent (ge_font env) / 2)))) label] @
         legend_loop env legend_y (Suc i) series
           (fl (fl (text_x + fo_advance (ge_font env) label) + kLegendGap)))"

definition grid_pen :: "graph_env \<Rightarrow> qt_pen" where
  "grid_pen env = color_pen ((ge_text env)\<lparr>qc_alpha := kGridAlpha\<rparr>)"

definition axis_pen :: "graph_env \<Rightarrow> qt_pen" where
  "axis_pen env = color_pen ((ge_text env)\<lparr>qc_alpha := kAxisAlpha\<rparr>)"

definition paint_row :: "graph_env \<Rightarrow> graph_widget \<Rightarrow> chart_rect \<Rightarrow> rat \<times> string \<Rightarrow> paint_cmd list" where
  "paint_row env w plot = (\<lambda>(tick, label).
     let row = map_y tick (gw_y_scale w) plot; height = fo_height (ge_font env)
     in [Set_Pen (grid_pen env),
         Draw_Line (point (rc_left plot) row) (point (fl (rc_left plot + rc_width plot)) row),
         Set_Pen (color_pen (ge_text env)),
         Draw_Text_In \<lparr>bx_left = 0, bx_top = fl (row - fl (height / 2)), bx_width = fl (rc_left plot - kLabelPadding),
            bx_height = height\<rparr> AlignRight_VCenter label])"

definition paint_column :: "graph_env \<Rightarrow> graph_widget \<Rightarrow> chart_rect \<Rightarrow> rat \<Rightarrow> paint_cmd list" where
  "paint_column env w plot tick =
     (let column = map_x tick (gw_x_scale w) plot;
          label = format_time_tick (ge_fmt env) (Some tick);
          label_width = fo_advance (ge_font env) label
      in [Set_Pen (grid_pen env),
          Draw_Line (point column (rc_top plot)) (point column (fl (rc_top plot + rc_height plot))),
          Set_Pen (color_pen (ge_text env)),
          Draw_Text_In \<lparr>bx_left = fl (column - fl (label_width / 2)),
             bx_top = fl (fl (rc_top plot + rc_height plot) + kLabelPadding), bx_width = label_width,
             bx_height = fo_height (ge_font env)\<rparr> AlignHCenter_Top label])"

fun paint_series :: "graph_widget \<Rightarrow> chart_rect \<Rightarrow> nat \<Rightarrow> chart_series list \<Rightarrow> paint_cmd list" where
  "paint_series w plot i [] = []"
| "paint_series w plot i (one # series) =
     (let line = map_points (cs_points one) (gw_x_scale w) (gw_y_scale w) plot
      in [Set_Pen \<lparr>pn_color = series_color i, pn_width = kLinePenWidth\<rparr>,
          (case line of [p] \<Rightarrow> Draw_Point p | _ \<Rightarrow> Draw_Polyline line)] @
         paint_series w plot (Suc i) series)"

text \<open>The area that is left for the plot.\<close>

definition graph_plot :: "graph_env \<Rightarrow> int \<Rightarrow> int \<Rightarrow> graph_widget \<Rightarrow> chart_rect" where
  "graph_plot env width height w =
     (let x_ticks = axis_ticks (gw_x_scale w);
          widest_label = snd (label_loop env (gw_kind w) (axis_ticks (gw_y_scale w)) [] 0);
          last_time_label = (if x_ticks = [] then 0
            else fo_advance (ge_font env) (format_time_tick (ge_fmt env) (Some (last x_ticks))))
      in compute_plot_rect (of_int width) (of_int height) (graph_margins env w widest_label last_time_label))"

definition paint_event :: "graph_env \<Rightarrow> int \<Rightarrow> int \<Rightarrow> graph_widget \<Rightarrow> paint_cmd list" where
  "paint_event env width height w =
     (let font = ge_font env;
          whole = \<lparr>bx_left = 0, bx_top = 0, bx_width = of_int width, bx_height = of_int height\<rparr>;
          start = [Set_Render_Hint Antialiasing, Set_Render_Hint TextAntialiasing, Fill_Rect whole (ge_base env),
            Set_Pen (color_pen (ge_text env)),
            Draw_Text_At (point kLabelPadding (fl (fo_ascent font + kLabelPadding))) (chart_kind_title (gw_kind w))]
      in if \<not> gw_has_data w then start @ [Draw_Text_In whole AlignCenter ''waiting for data'']
         else
           let y_ticks = axis_ticks (gw_y_scale w);
               x_ticks = axis_ticks (gw_x_scale w);
               (y_labels, widest_label) = label_loop env (gw_kind w) y_ticks [] 0;
               plot = graph_plot env width height w;
               legend = (if length (gw_series w) > 1
                 then legend_loop env
                   (fl (fl (fl (fo_height font + kLabelPadding) + kTitleGap) + fl (fo_height font / 2)))
                   0 (gw_series w) (fl (widest_label + fl (2 * kLabelPadding)))
                 else []);
               right = fl (rc_left plot + rc_width plot);
               bottom = fl (rc_top plot + rc_height plot)
           in start @ legend @ concat (map (paint_row env w plot) (zip y_ticks y_labels)) @
              concat (map (paint_column env w plot) x_ticks) @
              [Set_Pen (axis_pen env), Draw_Line (point (rc_left plot) (rc_top plot)) (point (rc_left plot) bottom),
               Draw_Line (point (rc_left plot) bottom) (point right bottom)] @
              paint_series w plot 0 (gw_series w))"

section \<open>The lines of the metrics\<close>

fun drawn_line :: "paint_cmd \<Rightarrow> chart_point list option" where
  "drawn_line (Draw_Point p) = Some [p]"
| "drawn_line (Draw_Polyline ps) = Some ps"
| "drawn_line _ = None"

definition graph_lines :: "paint_cmd list \<Rightarrow> chart_point list list" where
  "graph_lines cmds = List.map_filter drawn_line cmds"

lemma graph_lines_simps [simp]:
  "graph_lines [] = []"
  "graph_lines (cmds @ cmds') = graph_lines cmds @ graph_lines cmds'"
  "graph_lines (c # cmds) = (case drawn_line c of None \<Rightarrow> [] | Some ps \<Rightarrow> [ps]) @ graph_lines cmds"
  by (simp_all add: graph_lines_def List.map_filter_def split: option.split)

lemma graph_lines_concat: "(\<And>x. x \<in> set xs \<Longrightarrow> graph_lines (f x) = []) \<Longrightarrow> graph_lines (concat (map f xs)) = []"
  by (induction xs) simp_all

lemma legend_loop_lines [simp]: "graph_lines (legend_loop env y i series x) = []"
  by (induction env y i series x rule: legend_loop.induct) (simp_all add: Let_def)

lemma paint_row_lines [simp]: "graph_lines (paint_row env w plot p) = []"
  by (cases p) (simp add: paint_row_def Let_def)

lemma paint_column_lines [simp]: "graph_lines (paint_column env w plot tick) = []"
  by (simp add: paint_column_def Let_def)

lemma paint_series_lines:
  "graph_lines (paint_series w plot i series) =
     map (\<lambda>one. map_points (cs_points one) (gw_x_scale w) (gw_y_scale w) plot) series"
  by (induction w plot i series rule: paint_series.induct) (simp_all add: Let_def split: list.split)

lemma paint_event_lines:
  "graph_lines (paint_event env width height w) =
     (if gw_has_data w
      then map (\<lambda>one. map_points (cs_points one) (gw_x_scale w) (gw_y_scale w) (graph_plot env width height w)) (gw_series w)
      else [])"
  by (simp add: paint_event_def Let_def case_prod_unfold graph_lines_concat paint_series_lines)

text \<open>A point within the plot.\<close>

definition in_plot :: "chart_rect \<Rightarrow> chart_point \<Rightarrow> bool" where
  "in_plot plot p \<longleftrightarrow>
     rc_left plot \<le> pt_x p \<and> pt_x p \<le> rc_left plot + rc_width plot \<and>
     rc_top plot \<le> pt_y p \<and> pt_y p \<le> rc_top plot + rc_height plot"

lemma map_points_in_plot: "exact_plot plot \<Longrightarrow> list_all (in_plot plot) (map_points ps x y plot)"
  by (simp add: map_points_def list_all_iff in_plot_def map_x_in_plot map_y_in_plot)

lemma map_points_sorted:
  assumes "exact_plot plot" "sorted (map pt_x ps)"
  shows "sorted (map pt_x (map_points ps x y plot))"
  using assms(2) by (induction ps) (auto simp: map_points_def map_x_mono [OF assms(1)])

text \<open>
  C39. A chart paints one line for each metric of its kind, and nothing but a note while there are no
  samples. Each line has a point for every sample, after the origin when the first sample was taken
  later; all of them lie in the plot, from left to right when the samples are in order of time.
\<close>

theorem graph_draws_history:
  assumes w: "w = set_series libm history (graph_widget_create kind)"
    and plot: "exact_plot (graph_plot env width height w)"
  shows "let lines = graph_lines (paint_event env width height w);
      origin = (if history \<noteq> [] \<and> ms_elapsed_seconds (hd history) > 0 then [point 0 0] else []);
      samples = (\<lambda>m. origin @ map (\<lambda>s. point (ms_elapsed_seconds s) (metric_value (ms_aggregate s) m)) history) in
     (history = [] \<longrightarrow> lines = [] \<and> (\<exists>box. last (paint_event env width height w) =
        Draw_Text_In box AlignCenter ''waiting for data'')) \<and>
     (history \<noteq> [] \<longrightarrow> lines = map (\<lambda>m. map_points (samples m) (gw_x_scale w) (gw_y_scale w)
        (graph_plot env width height w)) (chart_kind_metrics kind)) \<and>
     list_all (\<lambda>line. length line = length origin + length history) lines \<and>
     list_all (list_all (in_plot (graph_plot env width height w))) lines \<and>
     (sorted (map ms_elapsed_seconds history) \<longrightarrow> list_all (\<lambda>line. sorted (map pt_x line)) lines)"
proof -
  let ?plot = "graph_plot env width height w"
  define origin where "origin = (if history \<noteq> [] \<and> ms_elapsed_seconds (hd history) > 0 then [point 0 0] else [])"
  define samples where
    "samples m = origin @ map (\<lambda>s. point (ms_elapsed_seconds s) (metric_value (ms_aggregate s) m)) history" for m
  have kind: "gw_kind w = kind" "gw_has_data w = (history \<noteq> [])"
    "gw_series w = map (extract_series history) (chart_kind_metrics kind)"
    by (simp_all add: w set_series_def graph_widget_create_def Let_def)
  have points: "history \<noteq> [] \<Longrightarrow> cs_points (extract_series history m) = samples m" for m
    by (cases history) (simp_all add: extract_series_def samples_def origin_def)
  have lines: "graph_lines (paint_event env width height w) = (if history = [] then [] else
      map (\<lambda>m. map_points (samples m) (gw_x_scale w) (gw_y_scale w) ?plot) (chart_kind_metrics kind))"
    by (simp add: paint_event_lines kind points)
  have in_order: "sorted (map pt_x (samples m))" if "sorted (map ms_elapsed_seconds history)" for m
    using that by (cases history) (fastforce simp: samples_def origin_def comp_def)+
  have waiting: "\<exists>box. last (paint_event env width height w) = Draw_Text_In box AlignCenter ''waiting for data''"
    if "history = []"
    using that kind(2) by (simp add: paint_event_def Let_def)
  have "list_all (\<lambda>line. length line = length origin + length history) (graph_lines (paint_event env width height w))"
    "list_all (list_all (in_plot ?plot)) (graph_lines (paint_event env width height w))"
    by (simp_all add: lines list.pred_map comp_def map_points_in_plot [OF plot])
      (simp_all add: list_all_iff map_points_def samples_def)
  moreover have "list_all (\<lambda>line. sorted (map pt_x line)) (graph_lines (paint_event env width height w))"
    if "sorted (map ms_elapsed_seconds history)"
    using map_points_sorted [OF plot in_order [OF that]] by (simp add: lines list_all_iff)
  ultimately show ?thesis using lines waiting
    unfolding Let_def origin_def [symmetric] samples_def by simp
qed

text \<open>A widget of 640 by 200 pixels in a font whose labels are 30 pixels wide.\<close>

lemma label_loop_constant:
  assumes "\<And>t. fo_advance (ge_font env) t = c"
  shows "snd (label_loop env kind ticks ls widest) = (if ticks = [] then widest else max widest c)"
  by (induction ticks arbitrary: ls widest) (auto simp: Let_def assms)

theorem graph_draws_history_witness:
  "\<exists>env w history. w = set_series (ge_libm env) history (graph_widget_create Kind_kIops) \<and> length history = 1 \<and>
     (let lines = graph_lines (paint_event env 640 200 w)
      in length lines = 1 \<and> list_all (\<lambda>line. length line = 2 \<and> sorted (map pt_x line)) lines)"
proof -
  define libm where "libm = hundredths"
  define fmt where "fmt = \<lparr>fm_int = (\<lambda>_. ''1''), fm_zero2 = (\<lambda>_. ''01''), fm_right3 = (\<lambda>_. ''  1''),
    fm_fixed1 = (\<lambda>_. ''1.0''), fm_left = (\<lambda>_ t. t)\<rparr>"
  define env where "env = \<lparr>ge_fmt = fmt, ge_libm = libm,
    ge_font = \<lparr>fo_ascent = 15, fo_height = 20, fo_advance = (\<lambda>_. 30)\<rparr>,
    ge_base = \<lparr>qc_rgb = 0xFFFFFF, qc_alpha = 255\<rparr>, ge_text = \<lparr>qc_rgb = 0, qc_alpha = 255\<rparr>\<rparr>"
  define history where
    "history = [empty_snapshot\<lparr>ms_elapsed_seconds := 1, ms_aggregate := empty_metrics\<lparr>pm_iops_instant := 100\<rparr>\<rparr>]"
  define w where "w = set_series libm history (graph_widget_create Kind_kIops)"
  have d: "fl (of_int i) = of_int i" if "\<bar>i\<bar> \<le> 1000" for i using that by (simp add: fl_of_int)
  have libm: "accurate libm" unfolding libm_def by (rule accurate_hundredths)
  have series: "gw_series w = [\<lparr>cs_label = ''IOPS'', cs_points = [point 0 0, point 1 100]\<rparr>]"
    by (simp add: w_def history_def set_series_def graph_widget_create_def extract_series_def
        Let_def of_u64_exact)
  then have top: "max_y (gw_series w) = 100" by (simp add: max_y_def)
  have scales: "gw_x_scale w = make_axis_scale libm (Some 0) (Some (series_duration_seconds history)) kDefaultTickCount"
    "gw_y_scale w = make_unit_axis_scale libm Kind_kIops (Some 0) (Some 100)"
    using top by (simp_all add: w_def set_series_def graph_widget_create_def Let_def)
  have dur: "series_duration_seconds history = 1" by (simp add: series_duration_seconds_def history_def llround_def floor_eq_iff)
  have data: "chart_data 1" "chart_data 100" using d [of 100] by (simp_all add: chart_data_def is_double_def)
  have ticks: "axis_ticks (gw_x_scale w) \<noteq> []" "axis_ticks (gw_y_scale w) \<noteq> []"
    using axis_ticks_shape(3) chart_time_axis [OF libm data(1)] chart_unit_axis [OF libm data(2), of Kind_kIops]
    by (metis scales dur list.size(3) add_is_0 one_neq_zero)+
  have plot: "graph_plot env 640 200 w = \<lparr>rc_left = 42, rc_top = 30, rc_width = 577, rc_height = 138\<rparr>"
    using ticks series d [of 12] d [of 42] d [of 26] d [of 30] d [of 15] d [of 21] d [of 32] d [of 598] d [of 577]
      d [of 170] d [of 138]
    by (simp add: graph_plot_def Let_def label_loop_constant env_def graph_margins_def compute_plot_rect_def
        kLabelPadding_def kTitleGap_def kRightMargin_def kMinPlotSize_def)
  have exact: "exact_plot (graph_plot env 640 200 w)"
    using d [of 42] d [of 30] d [of 577] d [of 138] d [of 619] d [of 168]
    by (simp add: exact_plot_def plot is_double_def)
  have "ms_elapsed_seconds (hd history) = 1" "length history = 1" by (simp_all add: history_def)
  with graph_draws_history [OF w_def exact]
  have "length (graph_lines (paint_event env 640 200 w)) = 1 \<and>
      list_all (\<lambda>line. length line = 2 \<and> sorted (map pt_x line)) (graph_lines (paint_event env 640 200 w))"
    by (auto simp: Let_def list_all_iff history_def)
  with w_def show ?thesis
    by (intro exI [of _ env] exI [of _ w] exI [of _ history]) (simp add: env_def history_def Let_def)
qed

end
