(* ===== verification/Main_Window.thy ===== *)
theory Main_Window
  imports Run_Mailbox Job_Table_Widget Graph_Widget
begin

text \<open>
  The main window of the GUI (\<open>src/display/qt/qt_main_window.cpp\<close>) beside the benchmark thread. The
  window's widgets are what the program last stored in them. The benchmark thread may run between
  any two of the window's calls to the mailbox, which are whole critical sections.
\<close>

section \<open>Window and threads\<close>

record main_window =
  mw_context :: display_context
  mw_history :: "metrics_snapshot list"
  mw_last_sequence :: u64
  mw_clock :: "int option"
  mw_finished :: bool
  mw_timer_active :: bool
  mw_run_text :: string
  mw_log_text :: string
  mw_progress_max :: int
  mw_progress_value :: int
  mw_progress_hidden :: bool
  mw_status :: string
  mw_stop_enabled :: bool
  mw_stop_text :: string
  mw_table :: job_table
  mw_graphs :: "graph_widget list"
  mw_closed :: bool

text \<open>
  \<open>gu_ahead\<close> is what the benchmark thread will do, cut at the window's calls to the mailbox:
  its first list comes before the next call. \<open>gu_made\<close> records what it has done.
\<close>

record gui =
  gu_window :: main_window
  gu_mailbox :: run_mailbox
  gu_ahead :: "mailbox_step list list"
  gu_made :: "mailbox_step list"

record gui_env =
  gv_fmt :: fmt_api
  gv_libm :: libm_api

fun benchmark_step :: "mailbox_step \<Rightarrow> run_mailbox \<Rightarrow> run_mailbox" where
  "benchmark_step (Set_Runtime n) m = set_runtime n m"
| "benchmark_step (Publish_Context c) m = publish_context c m"
| "benchmark_step (Publish_Snapshot x) m = publish_snapshot x m"
| "benchmark_step (Publish_Results r) m = publish_results r m"
| "benchmark_step Mark_Shutdown m = mark_shutdown m"
| "benchmark_step _ m = m"

definition turn :: "gui \<Rightarrow> gui" where
  "turn g =
     (case gu_ahead g of
        [] \<Rightarrow> g
      | steps # ahead \<Rightarrow>
          g\<lparr>gu_mailbox := fold benchmark_step steps (gu_mailbox g), gu_ahead := ahead,
            gu_made := gu_made g @ steps\<rparr>)"

text \<open>A call of the window to the mailbox.\<close>

definition access :: "(run_mailbox \<Rightarrow> 'a \<times> run_mailbox) \<Rightarrow> gui \<Rightarrow> 'a \<times> gui" where
  "access f g =
     (let g1 = turn g; (a, m) = f (gu_mailbox g1) in (a, g1\<lparr>gu_mailbox := m\<rparr>))"

definition on_window :: "(main_window \<Rightarrow> main_window) \<Rightarrow> gui \<Rightarrow> gui" where
  "on_window f g = g\<lparr>gu_window := f (gu_window g)\<rparr>"

definition on_window_opt :: "(main_window \<Rightarrow> main_window option) \<Rightarrow> gui \<Rightarrow> gui option" where
  "on_window_opt f g = map_option (\<lambda>w. g\<lparr>gu_window := w\<rparr>) (f (gu_window g))"

definition kMsPerSecond :: int where "kMsPerSecond = 1000"

definition kGraphKinds :: "chart_kind list" where
  "kGraphKinds = [Kind_kIops, Kind_kBandwidth, Kind_kLatency]"

section \<open>Member functions\<close>

definition header_run_text :: "display_context \<Rightarrow> string" where
  "header_run_text context =
     ''Engine: '' @ dc_engine_label context @ ''    Direct: '' @ dc_direct_label context"

definition header_log_text :: "display_context \<Rightarrow> string" where
  "header_log_text context =
     (if dc_log_path context = [] then ''Log: pending'' else ''Log: '' @ dc_log_path context)"

definition apply_context :: "display_context \<Rightarrow> main_window \<Rightarrow> main_window" where
  "apply_context context w =
     w\<lparr>mw_context := context, mw_run_text := header_run_text context, mw_log_text := header_log_text context\<rparr>"

definition apply_snapshot :: "gui_env \<Rightarrow> metrics_snapshot \<Rightarrow> main_window \<Rightarrow> main_window option" where
  "apply_snapshot env snapshot w =
     (let history = mw_history w @ [snapshot]
      in map_option
           (\<lambda>table. w\<lparr>mw_history := history, mw_table := table,
              mw_graphs := map (set_series (gv_libm env) history) (mw_graphs w)\<rparr>)
           (set_snapshot (gv_fmt env) snapshot (mw_table w)))"

definition apply_results :: "gui_env \<Rightarrow> benchmark_results \<Rightarrow> main_window \<Rightarrow> main_window option" where
  "apply_results env results w =
     (let w1 = (if br_time_series results = [] then w
            else w\<lparr>mw_history := br_time_series results,
                   mw_graphs := map (set_series (gv_libm env) (br_time_series results)) (mw_graphs w)\<rparr>);
          table = (if mw_history w1 = [] then Some (mw_table w1)
            else set_snapshot (gv_fmt env) (last (mw_history w1)) (mw_table w1))
      in map_option
           (\<lambda>t. w1\<lparr>mw_table := t, mw_status := build_run_summary (gv_fmt env) results\<rparr>) table)"

definition mark_finished :: "main_window \<Rightarrow> main_window" where
  "mark_finished w =
     w\<lparr>mw_finished := True, mw_timer_active := False, mw_progress_hidden := True,
       mw_stop_enabled := True, mw_stop_text := ''Close''\<rparr>"

text \<open>
  \<open>now\<close> is the elapsed timer's reading in milliseconds. A product outside the range of \<open>int\<close> and
  \<open>std::clamp\<close> with its bounds in the wrong order are undefined.
\<close>

definition int_in_range :: "int \<Rightarrow> bool" where
  "int_in_range i \<longleftrightarrow> - (2 ^ 31) \<le> i \<and> i < 2 ^ 31"

definition update_progress :: "gui_env \<Rightarrow> int \<Rightarrow> gui \<Rightarrow> gui option" where
  "update_progress env now g =
     (case access current_phase g of (phase, g1) \<Rightarrow>
        if phase = kIdle
        then Some (on_window (\<lambda>w. w\<lparr>mw_progress_value := 0, mw_status := ''preparing files...''\<rparr>) g1)
        else case access get_runtime_seconds g1 of (runtime, g2) \<Rightarrow>
          let total_ms = runtime * kMsPerSecond in
          if \<not> int_in_range total_ms \<or> total_ms < 0 then None
          else Some (on_window (\<lambda>w.
            let elapsed_ms = (case mw_clock w of None \<Rightarrow> 0 | Some start \<Rightarrow> now - start);
                value = clamp_int (to_int32 elapsed_ms) 0 total_ms
            in w\<lparr>mw_progress_max := max total_ms 1, mw_progress_value := value,
                 mw_status := format_duration (gv_fmt env) (value div kMsPerSecond) @ '' / '' @
                   format_duration (gv_fmt env) runtime\<rparr>) g2))"

definition on_tick :: "gui_env \<Rightarrow> int \<Rightarrow> int \<Rightarrow> gui \<Rightarrow> gui option" where
  "on_tick env start now g =
     (case access current_phase g of (phase, g1) \<Rightarrow>
      case access take_context (on_window (\<lambda>w.
          if phase \<noteq> kIdle \<and> mw_clock w = None then w\<lparr>mw_clock := Some start\<rparr> else w) g1) of (context, g2) \<Rightarrow>
      Option.bind (update_progress env now
          (case context of None \<Rightarrow> g2 | Some c \<Rightarrow> on_window (apply_context c) g2)) (\<lambda>g3.
      case access get_sequence g3 of (sequence, g4) \<Rightarrow>
      Option.bind
        (if sequence \<noteq> mw_last_sequence (gu_window g4)
         then case access latest_snapshot (on_window (\<lambda>w. w\<lparr>mw_last_sequence := sequence\<rparr>) g4) of
                (snapshot, g5) \<Rightarrow> on_window_opt (apply_snapshot env snapshot) g5
         else Some g4) (\<lambda>g6.
      if phase \<noteq> kFinished then Some g6
      else case access take_results g6 of (results, g7) \<Rightarrow>
        map_option (on_window mark_finished)
          (case results of
             Some r \<Rightarrow> on_window_opt (apply_results env r) g7
           | None \<Rightarrow> Some (on_window (\<lambda>w. w\<lparr>mw_status := ''run ended without results, see log''\<rparr>) g7)))))"

definition close_event :: "gui \<Rightarrow> gui" where
  "close_event g =
     on_window (\<lambda>w. w\<lparr>mw_closed := True\<rparr>) (snd (access (\<lambda>m. ((), request_stop m)) g))"

definition on_stop_clicked :: "gui \<Rightarrow> gui" where
  "on_stop_clicked g =
     (if mw_finished (gu_window g) then close_event g
      else on_window (\<lambda>w. w\<lparr>mw_stop_enabled := False, mw_stop_text := ''Stopping...''\<rparr>)
             (snd (access (\<lambda>m. ((), request_stop m)) g)))"

definition main_window_create ::
    "gui_env \<Rightarrow> display_context \<Rightarrow> run_mailbox \<Rightarrow> mailbox_step list list \<Rightarrow> gui option" where
  "main_window_create env context mailbox ahead =
     map_option (on_window (\<lambda>w. w\<lparr>mw_timer_active := True\<rparr>))
       (update_progress env 0
          \<lparr>gu_window =
             \<lparr>mw_context = context, mw_history = [], mw_last_sequence = 0, mw_clock = None,
              mw_finished = False, mw_timer_active = False, mw_run_text = header_run_text context,
              mw_log_text = header_log_text context, mw_progress_max = 100, mw_progress_value = 0,
              mw_progress_hidden = False, mw_status = [], mw_stop_enabled = True, mw_stop_text = ''Stop'',
              mw_table = job_table_create, mw_graphs = map graph_widget_create kGraphKinds,
              mw_closed = False\<rparr>,
           gu_mailbox = mailbox, gu_ahead = ahead, gu_made = []\<rparr>)"

text \<open>
  The events of the window: the timer with the readings of the elapsed timer, a click on the
  button, and the close button of the frame. A stopped timer and a disabled button send nothing,
  nor does a window that is closed.
\<close>

datatype gui_event = Tick int int | Stop_Click | Close_Click

fun gui_event_step :: "gui_env \<Rightarrow> gui_event \<Rightarrow> gui \<Rightarrow> gui option" where
  "gui_event_step env (Tick start now) g =
     (if mw_timer_active (gu_window g) then on_tick env start now g else Some g)"
| "gui_event_step env Stop_Click g =
     Some (if mw_stop_enabled (gu_window g) \<and> \<not> mw_closed (gu_window g) then on_stop_clicked g else g)"
| "gui_event_step env Close_Click g = Some (if mw_closed (gu_window g) then g else close_event g)"

fun gui_run :: "gui_env \<Rightarrow> gui_event list \<Rightarrow> gui \<Rightarrow> gui option" where
  "gui_run env [] g = Some g"
| "gui_run env (e # es) g = Option.bind (gui_event_step env e g) (gui_run env es)"

section \<open>The protocol of the benchmark thread\<close>

text \<open>
  Nothing but the end of the run follows the results or the end of the run, and the runtime in
  milliseconds is an \<open>int\<close>.
\<close>

fun protocol :: "bool \<Rightarrow> mailbox_step list \<Rightarrow> bool" where
  "protocol over [] \<longleftrightarrow> True"
| "protocol over (a # as) \<longleftrightarrow>
     (case a of
        Set_Runtime n \<Rightarrow> \<not> over \<and> 0 \<le> n \<and> int_in_range (n * kMsPerSecond) \<and> protocol over as
      | Publish_Context _ \<Rightarrow> \<not> over \<and> protocol over as
      | Publish_Snapshot _ \<Rightarrow> \<not> over \<and> protocol over as
      | Publish_Results _ \<Rightarrow> \<not> over \<and> protocol True as
      | Mark_Shutdown \<Rightarrow> protocol True as
      | _ \<Rightarrow> False)"

definition runtime_ok :: "run_mailbox \<Rightarrow> bool" where
  "runtime_ok m \<longleftrightarrow> 0 \<le> mb_runtime_seconds m \<and> int_in_range (mb_runtime_seconds m * kMsPerSecond)"

abbreviation over :: "run_mailbox \<Rightarrow> bool" where "over m \<equiv> mb_phase m = kFinished"

text \<open>A mailbox from which nothing was taken, after the steps \<open>made\<close>.\<close>

definition mail_ok :: "mailbox_step list \<Rightarrow> bool \<Rightarrow> run_mailbox \<Rightarrow> bool" where
  "mail_ok made taken m \<longleftrightarrow>
     runtime_ok m \<and> (\<not> over m \<longrightarrow> results_after made = None \<and> \<not> taken) \<and>
     (\<not> taken \<longrightarrow> mb_results m = results_after made)"

lemma results_after_snoc:
  "results_after (h @ [a]) = (case a of Publish_Results x \<Rightarrow> Some x | Take_Results _ \<Rightarrow> None | _ \<Rightarrow> results_after h)"
  by (cases a) (simp_all add: results_after_def)

lemma benchmark_step_ok:
  assumes "protocol (over m) (a # as)" "mail_ok made taken m"
  shows "protocol (over (benchmark_step a m)) as \<and> mail_ok (made @ [a]) taken (benchmark_step a m) \<and>
    (over m \<longrightarrow> over (benchmark_step a m) \<and> results_after (made @ [a]) = results_after made)"
  using assms by (cases a) (auto simp: mail_ok_def runtime_ok_def mailbox_defs results_after_snoc)

lemma benchmark_steps_ok:
  assumes "protocol (over m) (steps @ rest)" "mail_ok made taken m"
  shows "protocol (over (fold benchmark_step steps m)) rest \<and>
    mail_ok (made @ steps) taken (fold benchmark_step steps m) \<and>
    (over m \<longrightarrow> over (fold benchmark_step steps m) \<and> results_after (made @ steps) = results_after made)"
  using assms
proof (induction steps arbitrary: m made)
  case (Cons a steps)
  from Cons.prems have "protocol (over m) (a # steps @ rest)" by simp
  note a = benchmark_step_ok [OF this Cons.prems(2)]
  from Cons.IH [OF conjunct1 [OF a] conjunct1 [OF conjunct2 [OF a]]] a show ?case by simp
qed simp

text \<open>The state between two calls to the mailbox.\<close>

definition gui_mail_ok :: "gui \<Rightarrow> bool" where
  "gui_mail_ok g \<longleftrightarrow>
     protocol (over (gu_mailbox g)) (concat (gu_ahead g)) \<and>
     mail_ok (gu_made g) (mw_finished (gu_window g)) (gu_mailbox g)"

text \<open>All that the benchmark thread does, before and after now.\<close>

definition plan :: "gui \<Rightarrow> mailbox_step list" where
  "plan g = gu_made g @ concat (gu_ahead g)"

text \<open>What a call keeps: the plan, the end of the run and, from there on, its results.\<close>

definition later :: "gui \<Rightarrow> gui \<Rightarrow> bool" where
  "later g g' \<longleftrightarrow> gui_mail_ok g' \<and> plan g' = plan g \<and>
     (over (gu_mailbox g) \<longrightarrow> over (gu_mailbox g') \<and> results_after (gu_made g') = results_after (gu_made g))"

lemma later_trans: "later g1 g2 \<Longrightarrow> later g2 g3 \<Longrightarrow> later g1 g3"
  by (simp add: later_def)

lemma turn_later:
  assumes "gui_mail_ok g"
  shows "later g (turn g) \<and> gu_window (turn g) = gu_window g"
proof (cases "gu_ahead g")
  case (Cons steps rest)
  from assms Cons have "protocol (over (gu_mailbox g)) (steps @ concat rest)"
    "mail_ok (gu_made g) (mw_finished (gu_window g)) (gu_mailbox g)" by (simp_all add: gui_mail_ok_def)
  from benchmark_steps_ok [OF this] Cons show ?thesis by (simp add: turn_def later_def gui_mail_ok_def plan_def)
qed (use assms in \<open>simp add: turn_def later_def\<close>)

text \<open>A call that leaves the results in the mailbox.\<close>

definition quiet :: "(run_mailbox \<Rightarrow> 'a \<times> run_mailbox) \<Rightarrow> bool" where
  "quiet f \<longleftrightarrow> (\<forall>m. case f m of (a, m') \<Rightarrow> mb_phase m' = mb_phase m \<and> mb_results m' = mb_results m \<and>
     mb_runtime_seconds m' = mb_runtime_seconds m)"

named_theorems quiet_calls "the calls that leave the results in the mailbox"

lemma quiet_getters [quiet_calls]:
  "quiet current_phase" "quiet get_runtime_seconds" "quiet get_sequence" "quiet latest_snapshot" "quiet take_context"
  "quiet (\<lambda>m. ((), request_stop m))"
  by (simp_all add: quiet_def current_phase_def get_runtime_seconds_def get_sequence_def latest_snapshot_def mailbox_defs)

lemma access_later:
  assumes "gui_mail_ok g" "quiet f" "access f g = (a, g')"
  shows "later g g' \<and> gu_window g' = gu_window g"
proof -
  obtain b m where f: "f (gu_mailbox (turn g)) = (b, m)" by (cases "f (gu_mailbox (turn g))")
  from assms(2) f have "mb_phase m = mb_phase (gu_mailbox (turn g)) \<and> mb_results m = mb_results (gu_mailbox (turn g)) \<and>
      mb_runtime_seconds m = mb_runtime_seconds (gu_mailbox (turn g))"
    unfolding quiet_def by (metis (mono_tags, lifting) case_prod_conv)
  with turn_later [OF assms(1)] assms(3) f show ?thesis
    by (auto simp: access_def Let_def later_def gui_mail_ok_def mail_ok_def runtime_ok_def plan_def)
qed

section \<open>The window\<close>

text \<open>
  The table and the charts show the same history, the labels the context, and the timer, the
  progress bar and the button tell whether the run is over.
\<close>

definition window_ok :: "gui_env \<Rightarrow> main_window \<Rightarrow> bool" where
  "window_ok env w \<longleftrightarrow>
     mw_run_text w = header_run_text (mw_context w) \<and> mw_log_text w = header_log_text (mw_context w) \<and>
     (if mw_history w = []
      then mw_table w = job_table_create \<and> mw_graphs w = map graph_widget_create kGraphKinds
      else shows_rows (build_job_table_rows (gv_fmt env) (last (mw_history w))) (mw_table w) \<and>
           mw_graphs w = map (\<lambda>k. set_series (gv_libm env) (mw_history w) (graph_widget_create k)) kGraphKinds) \<and>
     0 \<le> mw_progress_value w \<and> mw_progress_value w \<le> mw_progress_max w \<and>
     mw_progress_hidden w = mw_finished w \<and>
     (mw_finished w \<longrightarrow> mw_stop_enabled w \<and> mw_stop_text w = ''Close'')"

lemma set_series_again [simp]: "set_series libm h (set_series libm h' w) = set_series libm h w"
  by (simp add: set_series_def Let_def)

lemma window_graphs:
  "window_ok env w \<Longrightarrow> map (set_series (gv_libm env) h) (mw_graphs w) =
     map (\<lambda>k. set_series (gv_libm env) h (graph_widget_create k)) kGraphKinds"
  by (simp add: window_ok_def split: if_splits)

lemma window_table: "window_ok env w \<Longrightarrow> table_ok (mw_table w)"
  using shows_rows_ok by (auto simp: window_ok_def table_ok_def job_table_create_def split: if_splits)

lemma apply_context_ok: "window_ok env w \<Longrightarrow> window_ok env (apply_context c w)"
  by (simp add: window_ok_def apply_context_def)

lemma apply_snapshot_ok:
  assumes "window_ok env w"
  shows "\<exists>w'. apply_snapshot env x w = Some w' \<and> window_ok env w' \<and> mw_finished w' = mw_finished w \<and>
    mw_timer_active w' = mw_timer_active w \<and> mw_history w' = mw_history w @ [x]"
proof -
  obtain t where "set_snapshot (gv_fmt env) x (mw_table w) = Some t"
    "shows_rows (build_job_table_rows (gv_fmt env) x) t"
    using set_snapshot_shows [OF window_table [OF assms]] by blast
  then show ?thesis
    using assms window_graphs [OF assms] by (simp add: apply_snapshot_def Let_def window_ok_def)
qed

lemma apply_results_ok:
  assumes "window_ok env w"
  shows "\<exists>w'. apply_results env r w = Some w' \<and> window_ok env w' \<and> mw_finished w' = mw_finished w \<and>
    mw_timer_active w' = mw_timer_active w \<and> mw_status w' = build_run_summary (gv_fmt env) r \<and>
    mw_history w' = (if br_time_series r = [] then mw_history w else br_time_series r)"
proof (cases "br_time_series r = [] \<and> mw_history w = []")
  case True
  then show ?thesis using assms by (simp add: apply_results_def window_ok_def)
next
  case False
  define h where "h = (if br_time_series r = [] then mw_history w else br_time_series r)"
  obtain t where t: "set_snapshot (gv_fmt env) (last h) (mw_table w) = Some t"
    "shows_rows (build_job_table_rows (gv_fmt env) (last h)) t"
    using set_snapshot_shows [OF window_table [OF assms]] by blast
  note parts = assms [unfolded window_ok_def]
  show ?thesis
  proof (cases "br_time_series r = []")
    case True
    with False have "mw_history w \<noteq> []" by simp
    with True t parts show ?thesis by (simp add: apply_results_def window_ok_def h_def)
  next
    case series: False
    with t parts show ?thesis by (simp add: apply_results_def window_ok_def h_def window_graphs [OF assms])
  qed
qed

lemma mark_finished_ok: "window_ok env w \<Longrightarrow> window_ok env (mark_finished w)"
  by (simp add: window_ok_def mark_finished_def)

text \<open>What every step of a tick keeps.\<close>

definition gui_ok :: "gui_env \<Rightarrow> gui \<Rightarrow> bool" where
  "gui_ok env g \<longleftrightarrow> gui_mail_ok g \<and> window_ok env (gu_window g)"

definition stays :: "gui_env \<Rightarrow> gui \<Rightarrow> gui \<Rightarrow> bool" where
  "stays env g g' \<longleftrightarrow>
     later g g' \<and> window_ok env (gu_window g') \<and> mw_finished (gu_window g') = mw_finished (gu_window g) \<and>
     mw_timer_active (gu_window g') = mw_timer_active (gu_window g)"

lemma stays_ok: "stays env g g' \<Longrightarrow> gui_ok env g'"
  by (simp add: stays_def gui_ok_def later_def)

lemma stays_trans [trans]: "stays env g1 g2 \<Longrightarrow> stays env g2 g3 \<Longrightarrow> stays env g1 g3"
  by (auto simp: stays_def intro: later_trans)

lemma stays_refl: "gui_ok env g \<Longrightarrow> stays env g g"
  by (simp add: stays_def gui_ok_def later_def)

lemma access_stays:
  assumes "gui_ok env g" "quiet f" "access f g = (a, g')"
  shows "stays env g g'" "gu_window g' = gu_window g"
  using access_later [OF _ assms(2,3)] assms(1) by (simp_all add: stays_def gui_ok_def)

lemma on_window_stays:
  assumes "gui_ok env g" "window_ok env (f (gu_window g))"
    "mw_finished (f (gu_window g)) = mw_finished (gu_window g)"
    "mw_timer_active (f (gu_window g)) = mw_timer_active (gu_window g)"
  shows "stays env g (on_window f g)"
  using assms by (simp add: stays_def gui_ok_def later_def gui_mail_ok_def on_window_def plan_def)

lemma on_window_opt_stays:
  assumes "gui_ok env g" "f (gu_window g) = Some w" "window_ok env w"
    "mw_finished w = mw_finished (gu_window g)" "mw_timer_active w = mw_timer_active (gu_window g)"
  shows "on_window_opt f g = Some (g\<lparr>gu_window := w\<rparr>) \<and> stays env g (g\<lparr>gu_window := w\<rparr>)"
  using assms by (simp add: on_window_opt_def stays_def gui_ok_def later_def gui_mail_ok_def plan_def)

lemma access_phase: "access current_phase g = (p, g') \<Longrightarrow> p = mb_phase (gu_mailbox g')"
  by (auto simp: access_def current_phase_def Let_def)

lemma access_runtime:
  assumes "gui_mail_ok g" "access get_runtime_seconds g = (n, g')"
  shows "0 \<le> n \<and> int_in_range (n * kMsPerSecond)"
proof -
  have "gui_mail_ok g'" using access_later [OF assms(1) quiet_calls(2) assms(2)] by (simp add: later_def)
  moreover have "n = mb_runtime_seconds (gu_mailbox g')"
    using assms(2) by (auto simp: access_def get_runtime_seconds_def Let_def)
  ultimately show ?thesis by (simp add: gui_mail_ok_def mail_ok_def runtime_ok_def)
qed

lemma update_progress_stays:
  assumes "gui_ok env g"
  shows "\<exists>g'. update_progress env now g = Some g' \<and> stays env g g'"
proof -
  obtain phase g1 where p: "access current_phase g = (phase, g1)" by (cases "access current_phase g")
  note g1 = access_stays [OF assms quiet_calls(1) p]
  show ?thesis
  proof (cases "phase = kIdle")
    case True
    have "window_ok env ((gu_window g1)\<lparr>mw_progress_value := 0, mw_status := ''preparing files...''\<rparr>)"
      using stays_ok [OF g1(1)] by (simp add: gui_ok_def window_ok_def)
    with on_window_stays [OF stays_ok [OF g1(1)], of "\<lambda>w. w\<lparr>mw_progress_value := 0, mw_status := ''preparing files...''\<rparr>"]
    show ?thesis using True p g1(1) by (auto simp: update_progress_def intro: stays_trans)
  next
    case False
    obtain n g2 where n: "access get_runtime_seconds g1 = (n, g2)" by (cases "access get_runtime_seconds g1")
    note g2 = access_stays [OF stays_ok [OF g1(1)] quiet_calls(2) n]
    have mail: "gui_mail_ok g1" using stays_ok [OF g1(1)] by (simp add: gui_ok_def)
    have range: "0 \<le> n * kMsPerSecond" "int_in_range (n * kMsPerSecond)"
      using access_runtime [OF mail n] by (simp_all add: kMsPerSecond_def)
    define f where "f = (\<lambda>w :: main_window. let elapsed_ms = (case mw_clock w of None \<Rightarrow> 0 | Some start \<Rightarrow> now - start);
        value = clamp_int (to_int32 elapsed_ms) 0 (n * kMsPerSecond)
      in w\<lparr>mw_progress_max := max (n * kMsPerSecond) 1, mw_progress_value := value,
           mw_status := format_duration (gv_fmt env) (value div kMsPerSecond) @ '' / '' @ format_duration (gv_fmt env) n\<rparr>)"
    have clamp: "0 \<le> clamp_int v 0 (n * kMsPerSecond) \<and> clamp_int v 0 (n * kMsPerSecond) \<le> max (n * kMsPerSecond) 1" for v
      using range(1) by (auto simp: clamp_int_def max_def)
    have "window_ok env (f (gu_window g2))"
      using stays_ok [OF g2(1)] clamp by (simp add: f_def Let_def gui_ok_def window_ok_def)
    moreover have "mw_finished (f w) = mw_finished w" "mw_timer_active (f w) = mw_timer_active w" for w
      by (simp_all add: f_def Let_def)
    ultimately have "stays env g2 (on_window f g2)" by (intro on_window_stays stays_ok [OF g2(1)])
    moreover have "update_progress env now g = Some (on_window f g2)"
      using False p n range by (simp add: update_progress_def Let_def f_def)
    ultimately show ?thesis using stays_trans [OF stays_trans [OF g1(1) g2(1)]] by blast
  qed
qed

section \<open>Ticks\<close>

text \<open>What a finished window shows.\<close>

definition final_status :: "gui_env \<Rightarrow> benchmark_results option \<Rightarrow> string" where
  "final_status env results =
     (case results of
        None \<Rightarrow> ''run ended without results, see log''
      | Some r \<Rightarrow> build_run_summary (gv_fmt env) r)"

definition reported :: "gui_env \<Rightarrow> gui \<Rightarrow> bool" where
  "reported env g \<longleftrightarrow>
     (let w = gu_window g; results = results_after (gu_made g) in
      mw_timer_active w = (\<not> mw_finished w) \<and>
      (mw_finished w \<longrightarrow> over (gu_mailbox g) \<and> mw_status w = final_status env results \<and>
         (\<forall>r. results = Some r \<and> br_time_series r \<noteq> [] \<longrightarrow> mw_history w = br_time_series r)))"

text \<open>The last part of a tick that found the run over.\<close>

lemma finish_ok:
  assumes g: "gui_ok env g" "\<not> mw_finished (gu_window g)" "over (gu_mailbox g)"
    and take: "access take_results g = (results, g1)"
    and g2: "g2 = map_option (on_window mark_finished) (case results of
        Some r \<Rightarrow> on_window_opt (apply_results env r) g1
      | None \<Rightarrow> Some (on_window (\<lambda>w. w\<lparr>mw_status := ''run ended without results, see log''\<rparr>) g1))"
  shows "\<exists>g'. g2 = Some g' \<and> gui_ok env g' \<and> reported env g' \<and> mw_finished (gu_window g') \<and> plan g' = plan g"
proof -
  have t: "later g (turn g)" "gu_window (turn g) = gu_window g" "over (gu_mailbox (turn g))"
    using turn_later [of g] g by (simp_all add: gui_ok_def later_def)
  then have mail: "gui_mail_ok (turn g)" "mb_results (gu_mailbox (turn g)) = results_after (gu_made (turn g))"
    using g(2) by (simp_all add: later_def gui_mail_ok_def mail_ok_def)
  have r: "results = results_after (gu_made (turn g))"
    "g1 = (turn g)\<lparr>gu_mailbox := (gu_mailbox (turn g))\<lparr>mb_results := None\<rparr>\<rparr>"
    using take mail(2) by (auto simp: access_def take_results_def Let_def split: if_splits)
  have w: "window_ok env (gu_window g1)" using g(1) t(2) r(2) by (simp add: gui_ok_def)
  obtain w' where w': "g2 = Some (g1\<lparr>gu_window := mark_finished w'\<rparr>)" "window_ok env w'"
    "mw_status w' = final_status env results"
    "\<forall>r. results = Some r \<and> br_time_series r \<noteq> [] \<longrightarrow> mw_history w' = br_time_series r"
  proof (cases results)
    case None
    show ?thesis
      by (rule that [of "(gu_window g1)\<lparr>mw_status := ''run ended without results, see log''\<rparr>"])
        (use None w in \<open>simp_all add: g2 on_window_def final_status_def window_ok_def\<close>)
  next
    case (Some r)
    from apply_results_ok [OF w, of r] obtain w' where "apply_results env r (gu_window g1) = Some w'" "window_ok env w'"
      "mw_status w' = build_run_summary (gv_fmt env) r"
      "mw_history w' = (if br_time_series r = [] then mw_history (gu_window g1) else br_time_series r)" by blast
    then show ?thesis using Some
      by (intro that [of w']) (simp_all add: g2 on_window_opt_def on_window_def final_status_def)
  qed
  have "mail_ok (gu_made g1) True (gu_mailbox g1)" "protocol (over (gu_mailbox g1)) (concat (gu_ahead g1))"
    "over (gu_mailbox g1)" "results = results_after (gu_made g1)"
    using mail(1) t(3) by (simp_all add: r gui_mail_ok_def mail_ok_def runtime_ok_def)
  moreover have "plan g1 = plan g" using t(1) by (simp add: r later_def plan_def)
  ultimately show ?thesis using w' mark_finished_ok [OF w'(2)]
    by (simp add: gui_ok_def gui_mail_ok_def reported_def mark_finished_def plan_def)
qed

text \<open>The middle part: a new sample is drawn.\<close>

lemma sample_stays:
  assumes "gui_ok env g"
  shows "\<exists>g'. (if sequence \<noteq> mw_last_sequence (gu_window g)
      then case access latest_snapshot (on_window (\<lambda>w. w\<lparr>mw_last_sequence := sequence\<rparr>) g) of
             (snapshot, g5) \<Rightarrow> on_window_opt (apply_snapshot env snapshot) g5
      else Some g) = Some g' \<and> stays env g g'"
proof (cases "sequence = mw_last_sequence (gu_window g)")
  case False
  let ?g1 = "on_window (\<lambda>w. w\<lparr>mw_last_sequence := sequence\<rparr>) g"
  have g1: "stays env g ?g1" using assms by (intro on_window_stays) (simp_all add: gui_ok_def window_ok_def)
  obtain x g5 where x: "access latest_snapshot ?g1 = (x, g5)" by (cases "access latest_snapshot ?g1")
  note g5 = access_stays [OF stays_ok [OF g1] quiet_calls(4) x]
  have "window_ok env (gu_window g5)" using stays_ok [OF g5(1)] by (simp add: gui_ok_def)
  from apply_snapshot_ok [OF this, of x] obtain w where "apply_snapshot env x (gu_window g5) = Some w" "window_ok env w"
    "mw_finished w = mw_finished (gu_window g5)" "mw_timer_active w = mw_timer_active (gu_window g5)" by blast
  from on_window_opt_stays [OF stays_ok [OF g5(1)], of "apply_snapshot env x", OF this]
  show ?thesis using False x stays_trans [OF g1 g5(1)] by (auto intro: stays_trans)
qed (use assms stays_refl in auto)

lemma on_tick_ok:
  assumes g: "gui_ok env g" "reported env g" "\<not> mw_finished (gu_window g)"
  shows "\<exists>g'. on_tick env start now g = Some g' \<and> gui_ok env g' \<and> reported env g' \<and> plan g' = plan g \<and>
    (over (gu_mailbox g) \<longrightarrow> mw_finished (gu_window g'))"
proof -
  obtain phase g1 where p: "access current_phase g = (phase, g1)" by (cases "access current_phase g")
  note g1 = access_stays [OF g(1) quiet_calls(1) p]
  let ?clock = "\<lambda>w :: main_window. if phase \<noteq> kIdle \<and> mw_clock w = None then w\<lparr>mw_clock := Some start\<rparr> else w"
  have c: "stays env g1 (on_window ?clock g1)"
    using stays_ok [OF g1(1)] by (intro on_window_stays) (simp_all add: gui_ok_def window_ok_def)
  obtain cx g2 where t: "access take_context (on_window ?clock g1) = (cx, g2)"
    by (cases "access take_context (on_window ?clock g1)")
  note g2 = access_stays(1) [OF stays_ok [OF c] quiet_calls(5) t]
  define g2' where "g2' = (case cx of None \<Rightarrow> g2 | Some c \<Rightarrow> on_window (apply_context c) g2)"
  have ctx: "stays env g2 g2'"
  proof (cases cx)
    case (Some c)
    then show ?thesis using stays_ok [OF g2]
      by (auto simp: g2'_def gui_ok_def apply_context_def intro!: on_window_stays apply_context_ok [unfolded apply_context_def])
  qed (use stays_refl [OF stays_ok [OF g2]] in \<open>simp add: g2'_def\<close>)
  obtain g3 where g3: "update_progress env now g2' = Some g3" "stays env g2' g3"
    using update_progress_stays [OF stays_ok [OF ctx]] by blast
  obtain sequence g4 where q: "access get_sequence g3 = (sequence, g4)" by (cases "access get_sequence g3")
  note g4 = access_stays(1) [OF stays_ok [OF g3(2)] quiet_calls(3) q]
  obtain g6 where g6: "(if sequence \<noteq> mw_last_sequence (gu_window g4)
      then case access latest_snapshot (on_window (\<lambda>w. w\<lparr>mw_last_sequence := sequence\<rparr>) g4) of
             (snapshot, g5) \<Rightarrow> on_window_opt (apply_snapshot env snapshot) g5
      else Some g4) = Some g6" "stays env g4 g6"
    using sample_stays [OF stays_ok [OF g4]] by blast
  have rest: "stays env g1 g6"
    using stays_trans [OF c stays_trans [OF g2 stays_trans [OF ctx stays_trans [OF g3(2) stays_trans [OF g4 g6(2)]]]]] .
  have all: "stays env g g6" by (rule stays_trans [OF g1(1) rest])
  have unfinished: "\<not> mw_finished (gu_window g6)" "mw_timer_active (gu_window g6)"
    using all g(2,3) by (simp_all add: stays_def reported_def Let_def)
  have tick: "on_tick env start now g = (if phase \<noteq> kFinished then Some g6
      else case access take_results g6 of (results, g7) \<Rightarrow>
        map_option (on_window mark_finished)
          (case results of
             Some r \<Rightarrow> on_window_opt (apply_results env r) g7
           | None \<Rightarrow> Some (on_window (\<lambda>w. w\<lparr>mw_status := ''run ended without results, see log''\<rparr>) g7)))"
    using p t g3(1) q g6(1) by (simp add: on_tick_def g2'_def)
  show ?thesis
  proof (cases "phase = kFinished")
    case False
    then have "\<not> over (gu_mailbox g)" using g1(1) access_phase [OF p] by (auto simp: stays_def later_def)
    with False tick stays_ok [OF all] all unfinished show ?thesis
      by (simp add: reported_def Let_def stays_def later_def)
  next
    case True
    then have "over (gu_mailbox g6)" using rest access_phase [OF p] by (simp add: stays_def later_def)
    obtain results g7 where take: "access take_results g6 = (results, g7)" by (cases "access take_results g6")
    from finish_ok [OF stays_ok [OF all] unfinished(1) \<open>over (gu_mailbox g6)\<close> take refl] True tick take all
    show ?thesis by (auto simp: stays_def later_def)
  qed
qed

section \<open>Runs of the window\<close>

lemma plan_results:
  assumes "gui_mail_ok g" "over (gu_mailbox g)"
  shows "results_after (plan g) = results_after (gu_made g)"
proof -
  have "protocol (over (gu_mailbox g)) (concat (gu_ahead g) @ [])"
    "mail_ok (gu_made g) (mw_finished (gu_window g)) (gu_mailbox g)"
    using assms(1) by (simp_all add: gui_mail_ok_def)
  from benchmark_steps_ok [OF this] assms(2) show ?thesis by (simp add: plan_def)
qed

lemma close_event_ok:
  assumes "gui_ok env g" "reported env g"
  shows "gui_ok env (close_event g) \<and> reported env (close_event g) \<and> plan (close_event g) = plan g"
proof -
  obtain g1 where a: "access (\<lambda>m. ((), request_stop m)) g = ((), g1)" by (cases "access (\<lambda>m. ((), request_stop m)) g") simp
  note g1 = access_stays [OF assms(1) quiet_calls(6) a]
  have "stays env g1 (on_window (\<lambda>w. w\<lparr>mw_closed := True\<rparr>) g1)"
    using stays_ok [OF g1(1)] by (intro on_window_stays) (simp_all add: gui_ok_def window_ok_def)
  note all = stays_trans [OF g1(1) this]
  have "close_event g = on_window (\<lambda>w. w\<lparr>mw_closed := True\<rparr>) g1" using a by (simp add: close_event_def)
  with all stays_ok [OF all] assms(2) g1(2) show ?thesis
    by (auto simp: reported_def Let_def stays_def later_def on_window_def)
qed

lemma on_stop_clicked_ok:
  assumes "gui_ok env g" "reported env g"
  shows "gui_ok env (on_stop_clicked g) \<and> reported env (on_stop_clicked g) \<and> plan (on_stop_clicked g) = plan g"
proof (cases "mw_finished (gu_window g)")
  case False
  obtain g1 where a: "access (\<lambda>m. ((), request_stop m)) g = ((), g1)" by (cases "access (\<lambda>m. ((), request_stop m)) g") simp
  note g1 = access_stays [OF assms(1) quiet_calls(6) a]
  let ?f = "\<lambda>w. w\<lparr>mw_stop_enabled := False, mw_stop_text := ''Stopping...''\<rparr>"
  have "stays env g1 (on_window ?f g1)"
    using stays_ok [OF g1(1)] g1(2) False by (intro on_window_stays) (simp_all add: gui_ok_def window_ok_def)
  note all = stays_trans [OF g1(1) this]
  have "on_stop_clicked g = on_window ?f g1" using a False by (simp add: on_stop_clicked_def)
  with all stays_ok [OF all] assms(2) g1(2) False show ?thesis
    by (auto simp: reported_def Let_def stays_def later_def on_window_def)
qed (use close_event_ok [OF assms] in \<open>simp add: on_stop_clicked_def\<close>)

lemma gui_event_ok:
  assumes "gui_ok env g" "reported env g"
  shows "\<exists>g'. gui_event_step env e g = Some g' \<and> gui_ok env g' \<and> reported env g' \<and> plan g' = plan g"
proof (cases e)
  case (Tick start now)
  then show ?thesis using on_tick_ok [OF assms, of start now] assms
    by (cases "mw_finished (gu_window g)") (auto simp: reported_def Let_def)
qed (use assms close_event_ok [OF assms] on_stop_clicked_ok [OF assms] in simp_all)

lemma gui_run_ok:
  assumes "gui_ok env g" "reported env g"
  shows "\<exists>g'. gui_run env es g = Some g' \<and> gui_ok env g' \<and> reported env g' \<and> plan g' = plan g"
  using assms
proof (induction es arbitrary: g)
  case (Cons e es)
  obtain g1 where g1: "gui_event_step env e g = Some g1" "gui_ok env g1" "reported env g1" "plan g1 = plan g"
    using gui_event_ok [OF Cons.prems] by blast
  from Cons.IH [OF g1(2,3)] g1 show ?case by auto
qed simp

lemma main_window_create_ok:
  assumes "protocol False (concat ahead)"
  shows "\<exists>g. main_window_create env cx run_mailbox_create ahead = Some g \<and> gui_ok env g \<and> reported env g \<and>
    plan g = concat ahead"
proof -
  define g0 where "g0 = \<lparr>gu_window =
       \<lparr>mw_context = cx, mw_history = [], mw_last_sequence = 0, mw_clock = None,
        mw_finished = False, mw_timer_active = False, mw_run_text = header_run_text cx,
        mw_log_text = header_log_text cx, mw_progress_max = 100, mw_progress_value = 0,
        mw_progress_hidden = False, mw_status = [], mw_stop_enabled = True, mw_stop_text = ''Stop'',
        mw_table = job_table_create, mw_graphs = map graph_widget_create kGraphKinds,
        mw_closed = False\<rparr>, gu_mailbox = run_mailbox_create, gu_ahead = ahead, gu_made = []\<rparr>"
  have "gui_ok env g0"
    using assms by (simp add: g0_def gui_ok_def gui_mail_ok_def mail_ok_def runtime_ok_def run_mailbox_create_def
        results_after_def window_ok_def int_in_range_def)
  from update_progress_stays [OF this, of 0] obtain g where g: "update_progress env 0 g0 = Some g" "stays env g0 g" by blast
  let ?f = "\<lambda>w. w\<lparr>mw_timer_active := True\<rparr>"
  have "main_window_create env cx run_mailbox_create ahead = Some (on_window ?f g)"
    using g(1) by (simp add: main_window_create_def g0_def)
  moreover have "gui_ok env (on_window ?f g)"
    using stays_ok [OF g(2)] by (simp add: gui_ok_def gui_mail_ok_def window_ok_def on_window_def)
  moreover have "\<not> mw_finished (gu_window g)" "plan g = concat ahead"
    using g(2) by (simp_all add: stays_def later_def g0_def plan_def)
  ultimately show ?thesis by (simp add: reported_def on_window_def plan_def)
qed

definition gui_session ::
    "gui_env \<Rightarrow> display_context \<Rightarrow> mailbox_step list list \<Rightarrow> gui_event list \<Rightarrow> gui option" where
  "gui_session env cx ahead es = Option.bind (main_window_create env cx run_mailbox_create ahead) (gui_run env es)"

lemma gui_session_ok:
  "protocol False (concat ahead) \<Longrightarrow>
     \<exists>g. gui_session env cx ahead es = Some g \<and> gui_ok env g \<and> reported env g \<and> plan g = concat ahead"
  using main_window_create_ok [of ahead env cx] gui_run_ok by (fastforce simp: gui_session_def)

text \<open>Outside the protocol: the progress of a run of more than 2147483 seconds is undefined.\<close>

lemma progress_overflow:
  assumes "gu_ahead g = []" "mb_phase (gu_mailbox g) = kRunning" "mb_runtime_seconds (gu_mailbox g) = n" "2147483 < n"
  shows "update_progress env now g = None"
proof -
  have "\<not> int_in_range (n * kMsPerSecond)" using assms(4) by (simp add: int_in_range_def kMsPerSecond_def)
  then show ?thesis
    using assms(1-3) by (simp add: update_progress_def access_def turn_def current_phase_def get_runtime_seconds_def Let_def)
qed

text \<open>
  The backend keeps the protocol: one run of a display publishes these steps, and \<open>RunQtGui\<close> marks the
  end of the run once more when the orchestrator has returned, with or without a display.
\<close>

definition session_steps ::
    "display_context \<Rightarrow> int \<Rightarrow> metrics_snapshot list \<Rightarrow> benchmark_results option \<Rightarrow> mailbox_step list" where
  "session_steps cx n xs results =
     [Publish_Context cx, Set_Runtime n] @ map Publish_Snapshot xs @
     (case results of None \<Rightarrow> [] | Some r \<Rightarrow> [Publish_Results r]) @ [Mark_Shutdown]"

lemma qt_updates: "display_updates qt_ops xs (cx, m) = Some (Inr (), (cx, fold benchmark_step (map Publish_Snapshot xs) m))"
  by (induction xs arbitrary: m) (simp_all add: prog_simps qt_ops_def qt_update_def)

lemma qt_session:
  "display_session qt_ops n xs results (cx, m) = Some (Inr (), (cx, fold benchmark_step (session_steps cx n xs results) m))"
proof -
  have "di_init qt_ops n (cx, m) = Some (Inr (), (cx, set_runtime n (publish_context cx m)))"
    by (simp add: qt_ops_def qt_init_def prog_simps)
  then show ?thesis
    using qt_updates [of xs cx "set_runtime n (publish_context cx m)"]
    by (cases results)
      (simp_all add: display_session_def session_steps_def prog_simps qt_ops_def qt_summary_def qt_shutdown_def)
qed

lemma session_protocol:
  assumes "0 \<le> n" "int_in_range (n * kMsPerSecond)"
  shows "protocol False (session_steps cx n xs results @ [Mark_Shutdown])"
proof -
  have "protocol False (map Publish_Snapshot xs @ as) = protocol False as" for as by (induction xs) simp_all
  then show ?thesis using assms by (cases results) (simp_all add: session_steps_def)
qed



text \<open>
  C15. A window that says that the run is over tells the truth, in every interleaving: it shows the
  summary and the samples of the results that the whole run published, or that there were none; the
  polling has stopped and the button closes the window. When the run is over, the next tick says so.
  A click on the button during the run, and closing the window, ask the run to stop.
\<close>

theorem window_reports_run:
  assumes "protocol False (concat ahead)" "gui_session env cx ahead es = Some g"
  shows "(mw_finished (gu_window g) \<longrightarrow>
       over (gu_mailbox g) \<and> \<not> mw_timer_active (gu_window g) \<and> mw_progress_hidden (gu_window g) \<and>
       mw_stop_enabled (gu_window g) \<and> mw_stop_text (gu_window g) = ''Close'' \<and>
       (case results_after (concat ahead) of
          None \<Rightarrow> mw_status (gu_window g) = ''run ended without results, see log''
        | Some r \<Rightarrow> mw_status (gu_window g) = build_run_summary (gv_fmt env) r \<and>
            (br_time_series r \<noteq> [] \<longrightarrow> mw_history (gu_window g) = br_time_series r))) \<and>
    (over (gu_mailbox g) \<and> \<not> mw_finished (gu_window g) \<longrightarrow>
       (\<exists>g'. gui_event_step env (Tick start now) g = Some g' \<and> mw_finished (gu_window g'))) \<and>
    mb_stop_requested (gu_mailbox (close_event g)) \<and> mb_stop_requested (gu_mailbox (on_stop_clicked g))"
proof -
  have g: "gui_ok env g" "reported env g" "plan g = concat ahead"
    using gui_session_ok [OF assms(1), of env cx es] assms(2) by auto
  have stop: "mb_stop_requested (gu_mailbox (close_event g))" "mb_stop_requested (gu_mailbox (on_stop_clicked g))"
    by (simp_all add: close_event_def on_stop_clicked_def access_def on_window_def request_stop_def Let_def)
  have "over (gu_mailbox g) \<and> results_after (concat ahead) = results_after (gu_made g)" if "mw_finished (gu_window g)"
    using plan_results [of g] g that by (simp add: reported_def gui_ok_def Let_def)
  then have "mw_finished (gu_window g) \<longrightarrow>
       over (gu_mailbox g) \<and> \<not> mw_timer_active (gu_window g) \<and> mw_progress_hidden (gu_window g) \<and>
       mw_stop_enabled (gu_window g) \<and> mw_stop_text (gu_window g) = ''Close'' \<and>
       (case results_after (concat ahead) of
          None \<Rightarrow> mw_status (gu_window g) = ''run ended without results, see log''
        | Some r \<Rightarrow> mw_status (gu_window g) = build_run_summary (gv_fmt env) r \<and>
            (br_time_series r \<noteq> [] \<longrightarrow> mw_history (gu_window g) = br_time_series r))"
    using g(1,2) by (auto simp: reported_def gui_ok_def window_ok_def final_status_def Let_def split: option.split)
  moreover have "\<exists>g'. gui_event_step env (Tick start now) g = Some g' \<and> mw_finished (gu_window g')"
    if "over (gu_mailbox g)" "\<not> mw_finished (gu_window g)"
    using on_tick_ok [OF g(1,2) that(2), of start now] that g(2) by (auto simp: reported_def Let_def)
  ultimately show ?thesis using stop by blast
qed

theorem window_reports_run_witness:
  "\<forall>env cx. \<exists>g r. gui_session env cx [session_steps cx 10 [empty_snapshot] (Some r) @ [Mark_Shutdown]] [Tick 0 0] = Some g \<and>
     mw_finished (gu_window g) \<and> mw_status (gu_window g) = build_run_summary (gv_fmt env) r"
proof (intro allI)
  fix env cx
  define opts where "opts = \<lparr>opt_config_path = [], opt_runtime_seconds = 10, opt_output_dir = [], opt_ui_backend = ''qt'',
     opt_direct_override = None, opt_engine_override = None, opt_verbose = False, opt_keep_files = False\<rparr>"
  define r where "r = \<lparr>br_cfio_version = [], br_timestamp = [], br_runtime_seconds = 10, br_elapsed_seconds = 1,
     br_interrupted = True, br_global_config = opts, br_jobs = [], br_time_series = []\<rparr>"
  let ?steps = "session_steps cx 10 [empty_snapshot] (Some r) @ [Mark_Shutdown]"
  have "int_in_range (10 * kMsPerSecond)" by (simp add: int_in_range_def kMsPerSecond_def)
  from session_protocol [OF _ this, of cx "[empty_snapshot]" "Some r"]
  have protocol: "protocol False (concat [?steps])" by simp
  obtain g0 where g0: "gui_session env cx [?steps] [] = Some g0" "gui_ok env g0" "reported env g0"
    using gui_session_ok [OF protocol, of env cx "[]"] by blast
  then have "over (gu_mailbox g0)" "\<not> mw_finished (gu_window g0)"
    by (auto simp: gui_session_def main_window_create_def update_progress_def access_def turn_def current_phase_def
        get_runtime_seconds_def on_window_def session_steps_def mailbox_defs Let_def split: if_splits)
  with window_reports_run [OF protocol g0(1), of 0 0] obtain g where
    g: "gui_event_step env (Tick 0 0) g0 = Some g" "mw_finished (gu_window g)" by blast
  have s: "gui_session env cx [?steps] [Tick 0 0] = Some g"
    using g0(1) g(1) by (auto simp: gui_session_def split: option.splits bind_splits)
  have "results_after (concat [?steps]) = Some r" by (simp add: session_steps_def results_after_def)
  with window_reports_run [OF protocol s] g(2) s
  show "\<exists>g r. gui_session env cx [session_steps cx 10 [empty_snapshot] (Some r) @ [Mark_Shutdown]] [Tick 0 0] = Some g \<and>
     mw_finished (gu_window g) \<and> mw_status (gu_window g) = build_run_summary (gv_fmt env) r"
    by (intro exI [of _ g] exI [of _ r]) simp
qed

end
