(* ===== verification/Qt_App_Runner.thy ===== *)
theory Qt_App_Runner
  imports Run_Files Main_Window
begin

text \<open>
  \<open>RunQtGui\<close> (\<open>src/display/qt/qt_app_runner.cpp\<close>): the orchestrator on a thread of its own, beside the
  event loop with the main window. Here the mailbox belongs to the world; what the benchmark thread
  published in it is its trace, and the window is the one of \<open>Main_Window\<close> under any cut of the trace.
\<close>

section \<open>The runner\<close>

text \<open>
  \<open>qh_publish\<close> and \<open>qh_stop_requested\<close> are the calls of the benchmark thread to the mailbox,
  \<open>qh_request_stop\<close> the one of the GUI thread. \<open>qh_show\<close> makes the application, the mailbox and the window
  and shows it; from then on what the GUI thread does happens in the world. \<open>qh_exec\<close> waits for the
  end of the event loop.
\<close>

record 'w qt_host =
  qh_publish :: "mailbox_step \<Rightarrow> 'w \<Rightarrow> 'w"
  qh_stop_requested :: "'w \<Rightarrow> bool \<times> 'w"
  qh_request_stop :: "'w \<Rightarrow> 'w"
  qh_show :: "display_context \<Rightarrow> 'w \<Rightarrow> 'w"
  qh_exec :: "'w \<Rightarrow> (unit \<times> 'w) option"

text \<open>\<open>QtDisplay\<close> on the mailbox of the world.\<close>

definition qt_display :: "'w qt_host \<Rightarrow> display_context \<Rightarrow> 'w display_ops" where
  "qt_display host cx =
     \<lparr>di_init = (\<lambda>runtime. modifyP (\<lambda>w. qh_publish host (Set_Runtime runtime) (qh_publish host (Publish_Context cx) w))),
      di_update = (\<lambda>snapshot. modifyP (qh_publish host (Publish_Snapshot snapshot))),
      di_summary = (\<lambda>results. modifyP (qh_publish host (Publish_Results results))),
      di_shutdown = modifyP (qh_publish host Mark_Shutdown),
      di_stop_requested = qh_stop_requested host\<rparr>"

definition with_qt_display :: "'w qt_host \<Rightarrow> 'w orch_env \<Rightarrow> 'w orch_env" where
  "with_qt_display host env = env\<lparr>oe_registry := display_register ''qt'' (qt_display host) (oe_registry env)\<rparr>"

text \<open>
  The thread's function is the run and \<open>MarkShutdown\<close>; an exception that leaves it ends the process.
  The locals go in reverse order, the orchestrator first.
\<close>

definition run_qt_gui ::
    "'w orch_env \<Rightarrow> 'w qt_host \<Rightarrow> cli_options \<Rightarrow> job_config list \<Rightarrow> (logger \<times> 'w, int) prog" where
  "run_qt_gui env host opts jobs =
     bindP logger_get (\<lambda>_. \<lambda>(lg, w).
       let env1 = with_qt_display host env;
           w1 = qh_show host (make_display_context opts jobs []) w
       in case orchestrator_run env1 (orchestrator_create opts jobs lg, w1) of
            Some (Inr rc, (o1, w2)) \<Rightarrow>
              (case qh_exec host (qh_publish host Mark_Shutdown w2) of
                 None \<Rightarrow> None
               | Some (_, w3) \<Rightarrow>
                   (case orchestrator_destroy env1 (o1, qh_request_stop host w3) of
                      Some (Inr _, (o2, w4)) \<Rightarrow> Some (Inr rc, (or_logger o2, w4))
                    | _ \<Rightarrow> None))
          | _ \<Rightarrow> None)"

text \<open>\<open>main\<close> in a build with Qt.\<close>

definition main_with_qt ::
    "'w orch_env \<Rightarrow> 'j json_api \<Rightarrow> (string \<Rightarrow> string option) \<Rightarrow> 'r csv_api \<Rightarrow> 'w qt_host \<Rightarrow>
     bool \<Rightarrow> bool \<Rightarrow> string option \<Rightarrow> cli_options \<Rightarrow> (logger \<times> 'w, int) prog" where
  "main_with_qt env japi files capi host direct_flag no_direct_flag engine_opt opts =
     main_after_parse env japi files capi (Some (run_qt_gui env host)) direct_flag no_direct_flag engine_opt opts"

text \<open>The backend of \<open>Run_Mailbox\<close> is this one, on a world that is the mailbox itself.\<close>

definition mailbox_host :: "(display_context \<times> run_mailbox) qt_host" where
  "mailbox_host =
     \<lparr>qh_publish = (\<lambda>a (cx, m). (cx, benchmark_step a m)),
      qh_stop_requested = (\<lambda>(cx, m). map_prod id (Pair cx) (stop_requested m)),
      qh_request_stop = (\<lambda>(cx, m). (cx, request_stop m)), qh_show = (\<lambda>cx _. (cx, run_mailbox_create)),
      qh_exec = (\<lambda>w. Some ((), w))\<rparr>"

lemma qt_display_is_backend:
  "di_init (qt_display mailbox_host cx) n (cx, m) = di_init qt_ops n (cx, m)"
  "di_update (qt_display mailbox_host cx) x (cx, m) = di_update qt_ops x (cx, m)"
  "di_summary (qt_display mailbox_host cx) res (cx, m) = di_summary qt_ops res (cx, m)"
  "di_shutdown (qt_display mailbox_host cx) (cx, m) = di_shutdown qt_ops (cx, m)"
  "di_stop_requested (qt_display mailbox_host cx) (cx, m) = di_stop_requested qt_ops (cx, m)"
  by (simp_all add: qt_display_def mailbox_host_def qt_ops_def qt_init_def qt_update_def qt_summary_def
      qt_shutdown_def modifyP_def)

section \<open>Programs that publish nothing\<close>

definition keeps_fun :: "('w \<Rightarrow> 't) \<Rightarrow> ('w \<Rightarrow> 'a \<times> 'w) \<Rightarrow> bool" where
  "keeps_fun tr f \<longleftrightarrow> (\<forall>w. tr (snd (f w)) = tr w)"

definition keeps_upd :: "('w \<Rightarrow> 't) \<Rightarrow> ('w \<Rightarrow> 'w) \<Rightarrow> bool" where
  "keeps_upd tr f \<longleftrightarrow> (\<forall>w. tr (f w) = tr w)"

definition keeps_opt :: "('w \<Rightarrow> 't) \<Rightarrow> ('w \<Rightarrow> ('a \<times> 'w) option) \<Rightarrow> bool" where
  "keeps_opt tr m \<longleftrightarrow> (\<forall>w a w'. m w = Some (a, w') \<longrightarrow> tr w' = tr w)"

text \<open>A program on a state whose second part is the world.\<close>

definition keeps :: "('w \<Rightarrow> 't) \<Rightarrow> ('o \<times> 'w, 'a) prog \<Rightarrow> bool" where
  "keeps tr m \<longleftrightarrow> (\<forall>s r s'. m s = Some (r, s') \<longrightarrow> tr (snd s') = tr (snd s))"

named_theorems keeps_intros "programs that publish nothing"

lemma keeps_return [keeps_intros]: "keeps tr (returnP a)"
  by (simp add: keeps_def returnP_def)

lemma keeps_throw [keeps_intros]: "keeps tr (throwP e)"
  by (simp add: keeps_def throwP_def)

lemma keeps_bind [keeps_intros]: "keeps tr m \<Longrightarrow> (\<And>a. keeps tr (f a)) \<Longrightarrow> keeps tr (bindP m f)"
  unfolding keeps_def bindP_def by (auto split: option.splits sum.splits)

lemma keeps_with [keeps_intros]: "(\<And>s. keeps tr (f s)) \<Longrightarrow> keeps tr (withP f)"
  by (simp add: keeps_def withP_def)

lemma keeps_pair [keeps_intros]: "(\<And>o1 w. keeps tr (f o1 w)) \<Longrightarrow> keeps tr (case s of (o1, w) \<Rightarrow> f o1 w)"
  by (cases s) simp

lemma keeps_if [keeps_intros]: "keeps tr m \<Longrightarrow> keeps tr n \<Longrightarrow> keeps tr (if b then m else n)"
  by simp

lemma keeps_modify [keeps_intros]: "keeps tr (modifyP (\<lambda>(o1, w). (f o1 w, w)))"
  by (auto simp: keeps_def modifyP_def)

lemma keeps_world [keeps_intros]: "keeps_opt tr m \<Longrightarrow> keeps tr (on_world m)"
  unfolding keeps_def keeps_opt_def on_world_def by (auto split: option.splits)

lemma keeps_logger [keeps_intros]: "keeps tr m \<Longrightarrow> keeps tr (on_logger m)"
  unfolding keeps_def on_logger_def by (auto split: option.splits)

lemma keeps_files [keeps_intros]: "keeps tr m \<Longrightarrow> keeps tr (on_files m)"
  unfolding keeps_def on_files_def by (auto split: option.splits)

lemma keeps_call [keeps_intros]: "keeps_fun tr f \<Longrightarrow> keeps_opt tr (call f)"
  unfolding keeps_fun_def keeps_opt_def call_def by (auto split: prod.splits) (metis snd_conv)

lemma keeps_checked [keeps_intros]: "keeps_fun tr f \<Longrightarrow> keeps_opt tr (checked f)"
  unfolding keeps_fun_def keeps_opt_def checked_def by (auto split: prod.splits) (metis snd_conv)

lemma keeps_waits [keeps_intros]: "keeps_opt tr f \<Longrightarrow> keeps_opt tr (waits f)"
  unfolding keeps_opt_def waits_def by (auto split: option.splits)

lemma keeps_modify_world [keeps_intros]: "keeps_upd tr f \<Longrightarrow> keeps_opt tr (modifyP f)"
  by (simp add: keeps_upd_def keeps_opt_def modifyP_def)

lemma keeps_opt_bind [keeps_intros]: "keeps_opt tr m \<Longrightarrow> (\<And>a. keeps_opt tr (f a)) \<Longrightarrow> keeps_opt tr (bindP m f)"
  unfolding keeps_opt_def bindP_def by (auto split: option.splits sum.splits)

lemma keeps_opt_return [keeps_intros]: "keeps_opt tr (returnP a)"
  by (simp add: keeps_opt_def returnP_def)

lemma keeps_opt_if [keeps_intros]: "keeps_opt tr m \<Longrightarrow> keeps_opt tr n \<Longrightarrow> keeps_opt tr (if b then m else n)"
  by simp

text \<open>The next step, after a program that publishes nothing.\<close>

lemma post_keeps_bind:
  assumes "keeps tr m" "\<And>e s'. tr (snd s') = tr (snd s) \<Longrightarrow> Q (Inl e) s'"
    and "\<And>a s'. tr (snd s') = tr (snd s) \<Longrightarrow> post (f a) s' Q"
  shows "post (bindP m f) s Q"
proof (rule post_bind [where P = "\<lambda>r s'. tr (snd s') = tr (snd s)"])
  show "post m s (\<lambda>r s'. tr (snd s') = tr (snd s))" using assms(1) unfolding post_def keeps_def by blast
qed (rule assms(2,3); assumption)+

section \<open>The world of the benchmark thread\<close>

text \<open>
  What is relied on: only \<open>qh_publish\<close> publishes, whatever the functions of the environment and the GUI
  thread do otherwise.
\<close>

definition calm_files :: "('w \<Rightarrow> 't) \<Rightarrow> 'w file_api \<Rightarrow> bool" where
  "calm_files tr api \<longleftrightarrow>
     (\<forall>path. keeps_fun tr (fa_exists api path) \<and> keeps_fun tr (fa_open api path) \<and> keeps_upd tr (fa_remove api path)) \<and>
     (\<forall>fd data. keeps_fun tr (fa_write api fd data)) \<and> (\<forall>fd size. keeps_fun tr (fa_fallocate api fd size)) \<and>
     (\<forall>fd. keeps_fun tr (fa_fsync api fd) \<and> keeps_fun tr (fa_close api fd)) \<and> keeps_fun tr (fa_seed api)"

definition calm_log :: "('w \<Rightarrow> 't) \<Rightarrow> 'w log_api \<Rightarrow> bool" where
  "calm_log tr api \<longleftrightarrow>
     (\<forall>m n. keeps_upd tr (lo_init_thread_pool api m n)) \<and> (\<forall>path. keeps_fun tr (lo_file_sink api path)) \<and>
     keeps_fun tr (lo_register api) \<and> keeps_upd tr (lo_flush api) \<and> keeps_upd tr (lo_drop api) \<and>
     keeps_upd tr (lo_shutdown api)"

definition calm_world :: "('w \<Rightarrow> 't) \<Rightarrow> 'w orch_env \<Rightarrow> bool" where
  "calm_world tr env \<longleftrightarrow>
     calm_log tr (oe_log env) \<and> calm_files tr (oe_files env) \<and>
     (\<forall>path. keeps_fun tr (oa_open (oe_out env) path)) \<and> (\<forall>path out. keeps_fun tr (oa_write (oe_out env) path out)) \<and>
     (\<forall>path. keeps_fun tr (oe_create_directories env path)) \<and> keeps_fun tr (oe_local_timestamp env) \<and>
     (\<forall>kind job. keeps_opt tr (oe_new_worker env kind job)) \<and> (\<forall>i. keeps_opt tr (oe_start_worker env i)) \<and>
     (\<forall>i. keeps_opt tr (oe_join_worker env i)) \<and> (\<forall>i lg. keeps_opt tr (oe_destroy_worker env i lg)) \<and>
     keeps_opt tr (oe_start_sampling env) \<and> keeps_opt tr (oe_stop_sampling env) \<and>
     keeps_fun tr (oe_latest_snapshot env) \<and> keeps_fun tr (oe_now env) \<and> keeps_fun tr (oe_wall_now env) \<and>
     (\<forall>d. keeps_upd tr (oe_sleep_for env d)) \<and> keeps_fun tr (oe_running env) \<and>
     keeps_upd tr (oe_clear_running env) \<and> keeps_upd tr (oe_install_handlers env) \<and>
     keeps_upd tr (oe_restore_handlers env)"

definition traced_host :: "('w \<Rightarrow> mailbox_step list) \<Rightarrow> 'w qt_host \<Rightarrow> bool" where
  "traced_host tr host \<longleftrightarrow>
     (\<forall>a w. tr (qh_publish host a w) = tr w @ [a]) \<and> keeps_fun tr (qh_stop_requested host) \<and>
     keeps_upd tr (qh_request_stop host) \<and> (\<forall>cx. keeps_upd tr (qh_show host cx)) \<and> keeps_opt tr (qh_exec host)"

lemma keeps_after: "keeps_fun tr f \<Longrightarrow> f w = (a, w') \<Longrightarrow> tr w' = tr w"
  unfolding keeps_fun_def by (metis snd_conv)

lemma calm_files_calls:
  assumes "calm_files tr api"
  shows "keeps_fun tr (fa_exists api path)" "keeps_fun tr (fa_open api path)" "keeps_fun tr (fa_write api fd data)"
    "keeps_fun tr (fa_fallocate api fd n)" "keeps_fun tr (fa_fsync api fd)" "keeps_fun tr (fa_close api fd)"
    "keeps_fun tr (fa_seed api)"
  using assms by (simp_all add: calm_files_def)

lemma calm_fill_and_sync:
  assumes c: "calm_files tr api"
  shows "keeps_opt tr (fill_and_sync api fd config)"
proof -
  have w: "tr (snd (fa_write api fd data w)) = tr w" for data w using c by (simp add: calm_files_def keeps_fun_def)
  note fill = fill_file_keeps [where I = tr, OF w]
  have r: "reserve_space api fd n path w = (r1, w1) \<Longrightarrow> tr w1 = tr w" for n path w r1 w1
    using keeps_after [OF calm_files_calls(4) [OF c]]
    by (auto simp: reserve_space_def split: prod.splits if_splits)
  have s: "fa_seed api w = (rng, w') \<Longrightarrow> tr w' = tr w" "fa_fsync api fd w = (x, w') \<Longrightarrow> tr w' = tr w" for rng x w w'
    using keeps_after [OF calm_files_calls(7) [OF c]] keeps_after [OF calm_files_calls(5) [OF c]] by blast+
  show ?thesis
    unfolding keeps_opt_def fill_and_sync_def
    by (auto split: prod.splits sum.splits option.splits if_splits dest!: fill r s)
qed

lemma calm_create_and_fill:
  assumes c: "calm_files tr api"
  shows "keeps tr (create_and_fill api config)"
proof -
  have f: "fa_exists api path w = (b, w') \<Longrightarrow> tr w' = tr w" "fa_open api path w = (x, w') \<Longrightarrow> tr w' = tr w"
    "tr (snd (fa_close api fd w)) = tr w" for path b x fd w w'
    using keeps_after [OF calm_files_calls(1) [OF c]] keeps_after [OF calm_files_calls(2) [OF c]]
      calm_files_calls(6) [OF c] by (blast, blast, simp add: keeps_fun_def)
  have fill: "fill_and_sync api fd config w = Some (r, w') \<Longrightarrow> tr w' = tr w" for fd w r w'
    using calm_fill_and_sync [OF c, of fd config] by (simp add: keeps_opt_def)
  show ?thesis
    unfolding keeps_def create_and_fill_def
    by (auto simp: f split: prod.splits sum.splits option.splits if_splits dest!: fill f(1,2))
qed

lemma calm_remove_created: "calm_files tr api \<Longrightarrow> tr (remove_created api keep files w) = tr w"
  by (induction api keep files w rule: remove_created.induct) (auto simp: calm_files_def keeps_upd_def)

lemma calm_precreate:
  assumes "calm_world tr env"
  shows "keeps tr (precreate_files env jobs)"
proof -
  have "keeps tr (create_and_fill (oe_files env) job)" for job
    using assms by (intro calm_create_and_fill) (simp add: calm_world_def)
  then show ?thesis by (induction jobs) (auto intro!: keeps_intros)
qed

lemma calm_create_workers:
  assumes "calm_world tr env"
  shows "keeps tr (create_workers env jobs)"
proof -
  have "keeps_opt tr (oe_new_worker env kind job)" for kind job using assms by (simp add: calm_world_def)
  then show ?thesis by (induction jobs) (auto intro!: keeps_intros split: sum.split)
qed

lemma calm_threads:
  assumes "calm_world tr env"
  shows "keeps tr (start_workers env is)" "keeps tr (join_workers env is)"
proof -
  have "keeps_opt tr (oe_start_worker env i)" "keeps_opt tr (oe_join_worker env i)" for i
    using assms by (simp_all add: calm_world_def)
  then show "keeps tr (start_workers env is)" "keeps tr (join_workers env is)"
    by (induction "is") (auto intro!: keeps_intros)
qed

lemma calm_logger:
  assumes "calm_log tr api"
  shows "keeps tr (logger_init api path verbose)" "keeps tr logger_get" "keeps tr (logger_shutdown api)"
proof -
  have "keeps_fun tr (lo_file_sink api path)" "keeps_fun tr (lo_register api)" using assms by (simp_all add: calm_log_def)
  note f = this [THEN keeps_after]
  have u: "tr (lo_init_thread_pool api m n w) = tr w" "tr (lo_flush api w) = tr w" "tr (lo_drop api w) = tr w"
    "tr (lo_shutdown api w) = tr w" for m n w
    using assms by (simp_all add: calm_log_def keeps_upd_def)
  show "keeps tr (logger_init api path verbose)"
    unfolding keeps_def logger_init_def
    by (auto simp: u split: if_splits sum.splits prod.splits dest!: f)
  show "keeps tr logger_get" "keeps tr (logger_shutdown api)"
    unfolding keeps_def logger_get_def logger_shutdown_def Let_def by (auto simp: u split: if_splits)
qed

lemma calm_write_out:
  assumes "calm_world tr env"
  shows "keeps_opt tr (write_out (oe_out env) path content)"
proof -
  have "keeps_fun tr (oa_open (oe_out env) path)" "keeps_fun tr (oa_write (oe_out env) path out)" for out
    using assms by (simp_all add: calm_world_def)
  note f = this [THEN keeps_after]
  show ?thesis unfolding keeps_opt_def write_out_def
    by (auto split: prod.splits sum.splits if_splits dest!: f)
qed

section \<open>What the run publishes\<close>

text \<open>A display that publishes its samples and is asked for a stop in between.\<close>

lemma calm_should_stop:
  assumes "calm_world tr env" "traced_host tr host" "should_stop env (qt_display host cx) w = (b, w')"
  shows "tr w' = tr w"
proof -
  have "keeps_fun tr (oe_running env)" "keeps_fun tr (qh_stop_requested host)"
    using assms(1,2) by (simp_all add: calm_world_def traced_host_def)
  note f = this [THEN keeps_after]
  show ?thesis using assms(3)
    by (auto simp: should_stop_def qt_display_def split: prod.splits if_splits dest!: f)
qed

lemma calm_sleep_loop:
  assumes c: "calm_world tr env" "traced_host tr host"
    and r: "sleep_loop env (qt_display host cx) until now w = Some w'"
  shows "tr w' = tr w"
proof -
  let ?P = "\<lambda>e d (until :: time_point) (now :: time_point) w w'. e = env \<and> d = qt_display host cx \<longrightarrow> tr w' = tr w"
  have "?P env (qt_display host cx) until now w w'"
  proof (rule sleep_loop.raw_induct [OF _ r, where P = ?P], rule impI)
    fix rec e d until now w y
    assume ih: "\<And>e d until now w y. rec e d until now w = Some y \<Longrightarrow> ?P e d until now w y"
      and eq: "(if now < until
        then case should_stop e d w of (stop, w1) \<Rightarrow>
               if stop then Some w1
               else case oe_now e (oe_sleep_for e (min kSleepSlice (until - now)) w1) of
                   (now', w2) \<Rightarrow> rec e d until now' w2
        else Some w) = Some y"
      and e: "e = env \<and> d = qt_display host cx"
    have "keeps_fun tr (oe_now env)" "tr (oe_sleep_for env n v) = tr v" for n v
      using c(1) by (simp_all add: calm_world_def keeps_upd_def)
    note now = this(1) [THEN keeps_after] and sleep = this(2)
    obtain b w1 where s: "should_stop e d w = (b, w1)" by fastforce
    have w1: "tr w1 = tr w" using calm_should_stop [OF c] s e by blast
    obtain n w2 where n: "oe_now e (oe_sleep_for e (min kSleepSlice (until - now)) w1) = (n, w2)" by fastforce
    have "tr w2 = tr w1" using now [of _ n w2] n e sleep by metis
    then show "tr y = tr w" using eq s n w1 ih [of e d until n w2 y] e by (auto split: if_splits)
  qed
  then show ?thesis by simp
qed

lemma run_loop_trace:
  assumes c: "calm_world tr env" "traced_host tr host"
    and r: "run_loop env (qt_display host cx) deadline next_tick w = Some y"
  shows "\<exists>xs. tr (snd y) = tr w @ map Publish_Snapshot xs"
proof -
  let ?P = "\<lambda>e d (deadline :: time_point) (next_tick :: time_point) w (y :: unit result \<times> _).
    e = env \<and> d = qt_display host cx \<longrightarrow> (\<exists>xs. tr (snd y) = tr w @ map Publish_Snapshot xs)"
  have "?P env (qt_display host cx) deadline next_tick w y"
  proof (rule run_loop.raw_induct [OF _ r, where P = ?P], rule impI)
    fix rec e d deadline next_tick w y
    assume ih: "\<And>e d deadline next_tick w y. rec e d deadline next_tick w = Some y \<Longrightarrow> ?P e d deadline next_tick w y"
      and eq: "(case should_stop e d w of (stop, w1) \<Rightarrow>
        if stop then Some (Inr (), w1)
        else case oe_now e w1 of (now, w2) \<Rightarrow>
          if now < deadline
          then (case sleep_sliced e d (min next_tick deadline) w2 of
              None \<Rightarrow> None
            | Some w3 \<Rightarrow>
                (case should_stop e d w3 of (stop', w4) \<Rightarrow>
                   if stop' then Some (Inr (), w4)
                   else case oe_latest_snapshot e w4 of (snapshot, w5) \<Rightarrow>
                     case di_update d snapshot w5 of
                       None \<Rightarrow> None
                     | Some (Inl e', w6) \<Rightarrow> Some (Inl e', w6)
                     | Some (Inr _, w6) \<Rightarrow> rec e d deadline (next_tick + seconds_ns 1) w6))
          else Some (Inr (), w2)) = Some y"
      and e: "e = env \<and> d = qt_display host cx"
    have k: "keeps_fun tr (oe_now env)" "keeps_fun tr (oe_latest_snapshot env)"
      using c(1) by (simp_all add: calm_world_def)
    note k = k [THEN keeps_after]
    obtain b w1 where s1: "should_stop e d w = (b, w1)" by fastforce
    obtain now w2 where n2: "oe_now e w1 = (now, w2)" by fastforce
    have w2: "tr w1 = tr w" "tr w2 = tr w" using calm_should_stop [OF c] s1 n2 k(1) e by metis+
    show "\<exists>xs. tr (snd y) = tr w @ map Publish_Snapshot xs"
    proof (cases "b \<or> \<not> now < deadline")
      case True
      then show ?thesis using eq s1 n2 w2 by (auto intro!: exI [of _ "[]"] split: if_splits)
    next
      case False
      with eq s1 n2 obtain w3 where w3: "sleep_sliced e d (min next_tick deadline) w2 = Some w3"
        by (auto split: option.splits)
      then obtain now3 w2' where "oe_now e w2 = (now3, w2')" "sleep_loop e d (min next_tick deadline) now3 w2' = Some w3"
        by (auto simp: sleep_sliced_def split: prod.splits)
      then have t3: "tr w3 = tr w" using calm_sleep_loop [OF c] k(1) w2 e by metis
      obtain b' w4 where s4: "should_stop e d w3 = (b', w4)" by fastforce
      obtain x w5 where x5: "oe_latest_snapshot e w4 = (x, w5)" by fastforce
      have t5: "tr w4 = tr w" "tr w5 = tr w" using calm_should_stop [OF c] s4 x5 k(2) e t3 by metis+
      show ?thesis
      proof (cases b')
        case True
        then show ?thesis using eq s1 n2 w3 s4 t5 False by (auto intro!: exI [of _ "[]"] split: if_splits)
      next
        case nb: False
        define w6 where "w6 = qh_publish host (Publish_Snapshot x) w5"
        have "di_update d x w5 = Some (Inr (), w6)" using e by (simp add: qt_display_def modifyP_def w6_def)
        then have "rec e d deadline (next_tick + seconds_ns 1) w6 = Some y"
          using eq s1 n2 w3 s4 x5 False nb by simp
        from ih [OF this] e obtain xs where "tr (snd y) = tr w6 @ map Publish_Snapshot xs" by blast
        moreover have "tr w6 = tr w @ [Publish_Snapshot x]"
          using c(2) t5 by (simp add: w6_def traced_host_def)
        ultimately show ?thesis by (intro exI [of _ "x # xs"]) simp
      qed
    qed
  qed
  then show ?thesis by simp
qed

text \<open>Samples, and the results when there are any; a program that returns results has published them.\<close>

definition published :: "benchmark_results option \<Rightarrow> mailbox_step list" where
  "published res = (case res of None \<Rightarrow> [] | Some r \<Rightarrow> [Publish_Results r])"

definition sampled ::
    "('w \<Rightarrow> mailbox_step list) \<Rightarrow> mailbox_step list \<Rightarrow> benchmark_results result \<Rightarrow> 'o \<times> 'w \<Rightarrow> bool" where
  "sampled tr before r s \<longleftrightarrow>
     (\<exists>xs res. tr (snd s) = before @ map Publish_Snapshot xs @ published res \<and>
        (\<forall>results. r = Inr results \<longrightarrow> res = Some results))"

lemma sampled_error: "tr (snd s) = before @ map Publish_Snapshot xs \<Longrightarrow> sampled tr before (Inl e) s"
  unfolding sampled_def published_def by (intro exI [of _ xs] exI [of _ None]) simp

lemma calm_collect:
  assumes "calm_world tr env"
  shows "keeps_opt tr (collect_results env opts agg b views samples)"
proof -
  have "keeps_fun tr (oe_now env)" using assms by (simp add: calm_world_def)
  then show ?thesis unfolding collect_results_def Let_def by (intro keeps_intros)
qed

lemma after_loop_trace:
  assumes c: "calm_world tr env" "traced_host tr host"
    and s: "tr (snd s) = before @ map Publish_Snapshot xs"
  shows "post
     (bindP (on_world (call (should_stop env (qt_display host cx)))) (\<lambda>was_interrupted.
      bindP (on_world (modifyP (oe_clear_running env))) (\<lambda>_.
      bindP (join_workers env is) (\<lambda>views.
      bindP (modifyP (\<lambda>(o1, w).
               (o1\<lparr>or_any_worker_failed := or_any_worker_failed o1 \<or> list_ex vw_failed views\<rparr>, w))) (\<lambda>_.
      bindP (on_world (waits (oe_stop_sampling env))) (\<lambda>samples.
      bindP (modifyP (\<lambda>(o1, w). (o1\<lparr>or_sampling := False\<rparr>, w))) (\<lambda>_.
      bindP (on_world (collect_results env opts agg was_interrupted views samples)) (\<lambda>results.
      bindP (on_world (di_summary (qt_display host cx) results)) (\<lambda>_. returnP results))))))))) s (sampled tr before)"
proof -
  have stop: "keeps_fun tr (should_stop env (qt_display host cx))"
    unfolding keeps_fun_def using calm_should_stop [OF c] by (metis prod.collapse)
  have "keeps_upd tr (oe_clear_running env)" "keeps_opt tr (oe_stop_sampling env)" using c(1) by (simp_all add: calm_world_def)
  note k = this stop calm_threads(2) [OF c(1)] calm_collect [OF c(1)]
  have last: "post (bindP (on_world (di_summary (qt_display host cx) results)) (\<lambda>_. returnP results)) t (sampled tr before)"
    if t: "tr (snd t) = before @ map Publish_Snapshot xs" for results t
  proof -
    obtain o1 w where ow: "t = (o1, w)" by (cases t)
    have "tr (qh_publish host (Publish_Results results) w) = before @ map Publish_Snapshot xs @ published (Some results)"
      using c(2) t by (simp add: ow traced_host_def published_def)
    then show ?thesis
      by (auto simp: ow post_def bindP_def on_world_def qt_display_def modifyP_def returnP_def sampled_def)
  qed
  show ?thesis
    by (rule post_keeps_bind [where tr = tr], (intro keeps_intros k), (rule sampled_error [where xs = xs], simp add: s))+
      (rule last, simp add: s)
qed

lemma supervise_trace:
  assumes c: "calm_world tr env" "traced_host tr host"
  shows "post (supervise env (qt_display host cx) opts workers agg) s (sampled tr (tr (snd s)))"
proof -
  have k: "keeps_fun tr (oe_now env)" using c(1) by (simp add: calm_world_def)
  have loop: "post (on_world (run_loop env (qt_display host cx) dl nt)) t
      (\<lambda>r t'. \<exists>xs. tr (snd t') = tr (snd t) @ map Publish_Snapshot xs)" for dl nt t
    using run_loop_trace [OF c, of cx dl nt "snd t"] by (cases t) (fastforce intro!: post_world)
  show ?thesis
    unfolding supervise_def
    apply (rule post_keeps_bind [where tr = tr], intro keeps_intros k calm_threads(1) [OF c(1)], rule sampled_error [where xs = "[]"], simp)+
    apply (rule post_bind [OF loop])
     apply (erule exE, rule sampled_error, simp)
    apply (erule exE, rule after_loop_trace [OF c], simp)
    done
qed

lemma run_with_display_trace:
  assumes c: "calm_world tr env" "traced_host tr host"
  shows "post (run_with_display env (qt_display host cx) opts workers) s (\<lambda>r s'.
    \<exists>xs res. tr (snd s') = tr (snd s) @ session_steps cx (opt_runtime_seconds opts) xs res \<and>
      (\<forall>results. r = Inr results \<longrightarrow> res = Some results))"
proof -
  let ?disp = "qt_display host cx"
  let ?T = "tr (snd s) @ [Publish_Context cx, Set_Runtime (opt_runtime_seconds opts)]"
  have k: "keeps_fun tr (oe_now env)" "keeps_fun tr (oe_wall_now env)" "keeps_opt tr (oe_start_sampling env)"
    "keeps_upd tr (oe_install_handlers env)" "keeps_upd tr (oe_restore_handlers env)"
    using c(1) by (simp_all add: calm_world_def)
  have pub: "tr (qh_publish host a w) = tr w @ [a]" for a w using c(2) by (simp add: traced_host_def)
  have init: "post (on_world (di_init ?disp n)) t (\<lambda>r t'. is_ok r \<and> tr (snd t') = tr (snd t) @ [Publish_Context cx, Set_Runtime n])"
    for n and t :: "'a orch_state"
    by (cases t) (auto simp: post_def on_world_def qt_display_def modifyP_def pub)
  have fin: "post (on_world (di_shutdown ?disp)) t (\<lambda>r' t'. tr (snd t') = tr (snd t) @ [Mark_Shutdown])" for t :: "'a orch_state"
    by (cases t) (auto simp: post_def on_world_def qt_display_def modifyP_def pub)
  have inner: "post (scoped (supervise env ?disp opts workers agg) (on_world (modifyP (oe_restore_handlers env)))) t
      (sampled tr ?T)" if "tr (snd t) = ?T" for agg t
    apply (rule post_scoped)
    apply (rule post_mono [OF supervise_trace [OF c]])
    using keeps_world [OF keeps_modify_world [OF k(5)]] that
    apply (auto simp: post_def keeps_def sampled_def)
    apply blast
    done
  show ?thesis
    unfolding run_with_display_def
    apply (rule post_scoped)
    apply (rule post_mono [where P = "sampled tr ?T"])
     apply (rule post_bind [OF init])
      apply (simp add: is_ok_def)
     apply (rule post_keeps_bind [where tr = tr], intro keeps_intros k, rule sampled_error [where xs = "[]"], simp)+
     apply (rule inner)
     apply simp
    apply (rule post_mono [OF fin])
    apply (auto simp: sampled_def session_steps_def published_def)
    done
qed

text \<open>The steps before the benchmark also leave the options alone.\<close>

definition still :: "('w \<Rightarrow> 't) \<Rightarrow> ('w orch_state, 'a) prog \<Rightarrow> bool" where
  "still tr m \<longleftrightarrow> keeps tr m \<and> (\<forall>s. post m s (\<lambda>r s'. or_options (fst s') = or_options (fst s)))"

lemma post_still_bind:
  assumes "still tr m"
    and "\<And>e s'. or_options (fst s') = or_options (fst s) \<Longrightarrow> tr (snd s') = tr (snd s) \<Longrightarrow> Q (Inl e) s'"
    and "\<And>a s'. or_options (fst s') = or_options (fst s) \<Longrightarrow> tr (snd s') = tr (snd s) \<Longrightarrow> post (f a) s' Q"
  shows "post (bindP m f) s Q"
proof (rule post_bind [where P = "\<lambda>r s'. or_options (fst s') = or_options (fst s) \<and> tr (snd s') = tr (snd s)"])
  show "post m s (\<lambda>r s'. or_options (fst s') = or_options (fst s) \<and> tr (snd s') = tr (snd s))"
    using assms(1) unfolding still_def post_def keeps_def by blast
qed (use assms(2,3) in blast)+

lemma still_bind:
  fixes tr :: "'w \<Rightarrow> 't"
  shows "still tr m \<Longrightarrow> (\<And>a. still tr (f a)) \<Longrightarrow> still tr (bindP m f)"
  unfolding still_def
proof (intro conjI allI)
  fix s :: "'w orch_state"
  assume m: "keeps tr m \<and> (\<forall>s. post m s (\<lambda>r s'. or_options (fst s') = or_options (fst s)))"
    and f: "\<And>a. keeps tr (f a) \<and> (\<forall>s. post (f a) s (\<lambda>r s'. or_options (fst s') = or_options (fst s)))"
  show "keeps tr (bindP m f)" using m f by (intro keeps_bind) simp_all
  show "post (bindP m f) s (\<lambda>r s'. or_options (fst s') = or_options (fst s))"
  proof (rule post_bind)
    show "post m s (\<lambda>r s'. or_options (fst s') = or_options (fst s))" using m by blast
  next
    fix a and s' :: "'w orch_state"
    assume "or_options (fst s') = or_options (fst s)"
    then show "post (f a) s' (\<lambda>r s'. or_options (fst s') = or_options (fst s))"
      using f [THEN conjunct2, THEN spec [where x = s'], of a] by simp
  qed simp
qed

lemma tracks_options: "tracks ps o1 o2 \<Longrightarrow> or_options o2 = or_options o1"
  unfolding tracks_def by (cases o1; cases o2) simp

lemma still_steps:
  assumes c: "calm_world tr env"
  shows "still tr (setup_output_directory env)" "still tr (create_output_directory env)" "still tr (init_logging env)"
    "still tr (on_logger logger_get)" "still tr (precreate_files env jobs)" "still tr (create_workers env jobs)"
proof -
  have k: "keeps_fun tr (oe_local_timestamp env)" "keeps_fun tr (oe_create_directories env path)" "calm_log tr (oe_log env)"
    for path using c by (simp_all add: calm_world_def)
  note lg = calm_logger [OF k(3)]
  have ks: "keeps tr (setup_output_directory env)" "keeps tr (create_output_directory env)" "keeps tr (init_logging env)"
    "keeps tr (on_logger logger_get)"
    unfolding setup_output_directory_def create_output_directory_def init_logging_def
    by (intro keeps_intros k lg)+
  show "still tr (setup_output_directory env)"
    unfolding still_def by (clarsimp simp: ks) (rule post_mono [OF setup_output_directory_post], auto)
  show "still tr (create_output_directory env)"
    unfolding still_def using ks(2)
    by (auto simp: post_def create_output_directory_def withP_def on_world_def split: option.splits)
  show "still tr (init_logging env)"
    unfolding still_def by (clarsimp simp: ks) (rule post_mono [OF init_logging_post], auto split: if_splits)
  show "still tr (on_logger logger_get)"
    unfolding still_def using ks(4) by (auto simp: post_def on_logger_def split: option.splits)
  show "still tr (precreate_files env jobs)"
    unfolding still_def
    by (clarsimp simp: calm_precreate [OF c]) (rule post_mono [OF precreate_files_post], auto dest: tracks_options)
  show "still tr (create_workers env jobs)"
    unfolding still_def
    apply (clarsimp simp: calm_create_workers [OF c])
    apply (rule post_mono [OF create_workers_post])
    apply clarsimp
    apply (drule arg_cong [where f = or_options], simp)
    done
qed

text \<open>What a run that began with the trace \<open>before\<close> has published.\<close>

definition run_published ::
    "mailbox_step list \<Rightarrow> int \<Rightarrow> benchmark_results result \<Rightarrow> mailbox_step list \<Rightarrow> bool" where
  "run_published before n r now \<longleftrightarrow>
     (now = before \<and> (\<exists>e. r = Inl e)) \<or>
     (\<exists>cx xs res. now = before @ session_steps cx n xs res \<and> (\<forall>results. r = Inr results \<longrightarrow> res = Some results))"

lemma run_published_session:
  "now = before @ session_steps cx n xs res \<Longrightarrow> \<forall>results. r = Inr results \<longrightarrow> res = Some results \<Longrightarrow>
     run_published before n r now"
  unfolding run_published_def by blast

lemma calm_finish:
  assumes c: "calm_world tr env"
  shows "keeps tr (export_results env results)" "keeps tr (cleanup_files env)"
proof -
  have "calm_log tr (oe_log env)" "calm_files tr (oe_files env)" using c by (simp_all add: calm_world_def)
  then have k: "keeps tr logger_get" and f: "tr (remove_created (oe_files env) b fs w) = tr w" for b fs w
    by (auto intro: calm_logger calm_remove_created)
  have w: "keeps_opt tr (export_json (oe_out env) dump results dir)" "keeps_opt tr (export_csv (oe_out env) samples dir)"
    for dump dir samples by (simp_all add: export_json_def export_csv_def calm_write_out [OF c])
  show "keeps tr (export_results env results)"
    unfolding export_results_def by (intro keeps_intros k w)
  show "keeps tr (cleanup_files env)"
    unfolding cleanup_files_def keeps_def on_files_def file_cleanup_def by (auto simp: f split: if_splits)
qed

lemma run_benchmark_trace:
  assumes c: "calm_world tr env" "traced_host tr host"
    and qt: "oe_registry env = display_register ''qt'' (qt_display host) reg" "opt_ui_backend (or_options (fst s)) = ''qt''"
  shows "post (run_benchmark env) s (\<lambda>r s'.
    run_published (tr (snd s)) (opt_runtime_seconds (or_options (fst s))) r (tr (snd s')))"
proof -
  obtain o1 w where s: "s = (o1, w)" by (cases s)
  have "display_create (oe_registry env) (oe_terminal env) (opt_ui_backend (or_options o1)) cx = Inr (qt_display host cx)" for cx
    using qt by (simp add: s display_create_def display_register_def)
  then show ?thesis
    unfolding run_benchmark_def s
    by (intro post_with) (auto intro!: post_mono [OF run_with_display_trace [OF c]] intro: run_published_session)
qed

lemma orchestrate_trace:
  fixes env :: "'w orch_env" and s :: "'w orch_state"
  assumes c: "calm_world tr env" "traced_host tr host"
    and qt: "oe_registry env = display_register ''qt'' (qt_display host) reg" "opt_ui_backend (or_options (fst s)) = ''qt''"
  shows "post (orchestrate env) s (\<lambda>r s'.
    run_published (tr (snd s)) (opt_runtime_seconds (or_options (fst s))) r (tr (snd s')))"
proof -
  let ?Q = "\<lambda>r s'. run_published (tr (snd s)) (opt_runtime_seconds (or_options (fst s))) r (tr (snd s'))"
  have before: "?Q (Inl e) t" if "tr (snd t) = tr (snd s)" for e t using that by (simp add: run_published_def)
  have bench: "post (bindP (bindP (on_logger logger_get) (\<lambda>_. run_benchmark env)) (\<lambda>results.
      bindP (export_results env results) (\<lambda>_. bindP (cleanup_files env) (\<lambda>_. returnP results)))) t ?Q"
    if t: "or_options (fst t) = or_options (fst s)" "tr (snd t) = tr (snd s)" for t
  proof (rule post_bind [where P = ?Q])
    show "post (bindP (on_logger logger_get) (\<lambda>_. run_benchmark env)) t ?Q"
    proof (rule post_still_bind [OF still_steps(4) [OF c(1)]])
      fix e and s' :: "'w orch_state"
      assume "tr (snd s') = tr (snd t)"
      with t(2) show "?Q (Inl e) s'" by (intro before) simp
    next
      fix a and s' :: "'w orch_state"
      assume s': "or_options (fst s') = or_options (fst t)" "tr (snd s') = tr (snd t)"
      have "opt_ui_backend (or_options (fst s')) = ''qt''" using s'(1) t(1) qt(2) by simp
      from run_benchmark_trace [OF c qt(1) this] show "post (run_benchmark env) s' ?Q" using s' t by simp
    qed
  next
    fix results and s' :: "'w orch_state"
    assume q: "?Q (Inr results) s'"
    show "post (bindP (export_results env results) (\<lambda>_. bindP (cleanup_files env) (\<lambda>_. returnP results))) s' ?Q"
      using q by (intro post_keeps_bind [where tr = tr] calm_finish [OF c(1)] post_return) (auto simp: run_published_def)
  qed simp
  show ?thesis
    unfolding orchestrate_def
    apply (rule post_with, simp only: case_prod_unfold)
    apply (rule post_still_bind [where tr = tr], intro still_bind still_steps [OF c(1)], rule before, simp)+
    apply (rule bench)
     apply simp_all
    done
qed

section \<open>The window tells what the exit code says\<close>

lemma calm_destroy_workers:
  assumes c: "calm_world tr env"
  shows "destroy_workers env is s = Some (r, s') \<Longrightarrow> tr (snd s') = tr (snd s)"
proof (induction "is" arbitrary: s)
  case Nil
  then show ?case by (simp add: returnP_def)
next
  case (Cons i "is")
  obtain o1 w where s: "s = (o1, w)" by (cases s)
  have j: "keeps tr (if i \<in> set (or_threads o1) then join_workers env [i] else returnP [])"
    by (intro keeps_intros calm_threads [OF c])
  have d: "oe_destroy_worker env i lg v = Some (q, v') \<Longrightarrow> tr v' = tr v" for lg v q v'
    using c by (auto simp: calm_world_def keeps_opt_def)
  let ?join = "if i \<in> set (or_threads o1) then join_workers env [i] else returnP []"
  from Cons.prems s obtain q o2 w2 where q: "?join (o1, w) = Some (q, (o2, w2))"
    by (cases "?join (o1, w)") (auto simp: bindP_def)
  have w2: "tr w2 = tr w" using j q unfolding keeps_def by (metis snd_conv)
  show ?case
  proof (cases q)
    case (Inl e)
    then show ?thesis using Cons.prems q s w2 by (auto simp: bindP_def)
  next
    case (Inr u)
    then obtain w3 v where "oe_destroy_worker env i (or_logger o2) w2 = Some (Inr v, w3)"
      "destroy_workers env is (o2, w3) = Some (r, s')"
      using Cons.prems q s by (auto simp: bindP_def split: option.splits sum.splits)
    from Cons.IH [OF this(2)] d [OF this(1)] w2 s show ?thesis by simp
  qed
qed

lemma calm_destroy:
  assumes c: "calm_world tr env"
  shows "keeps tr (orchestrator_destroy env)"
proof -
  have k: "keeps_opt tr (oe_stop_sampling env)" "calm_files tr (oe_files env)" using c by (simp_all add: calm_world_def)
  have d: "keeps tr (destroy_workers env is)" for "is" using calm_destroy_workers [OF c] by (simp add: keeps_def)
  have f: "keeps tr (modifyP (\<lambda>(o1, w). (o1, file_preparator_destroy (oe_files env) (or_file_prep o1, w))))"
    by (auto simp: keeps_def modifyP_def file_preparator_destroy_def calm_remove_created [OF k(2)])
  show ?thesis unfolding orchestrator_destroy_def by (intro keeps_intros k d f)
qed

lemma run_trace:
  fixes env :: "'w orch_env"
  assumes c: "calm_world tr env" "traced_host tr host"
    and qt: "oe_registry env = display_register ''qt'' (qt_display host) reg" "opt_ui_backend opts = ''qt''"
    and run: "orchestrator_run env (orchestrator_create opts jobs lg, w) = Some (Inr rc, (o2, w2))"
  shows "(rc = 0 \<or> rc = 1) \<and>
    (tr w2 = tr w \<and> rc = 1 \<or>
     (\<exists>cx xs res. tr w2 = tr w @ session_steps cx (opt_runtime_seconds opts) xs res \<and>
        (rc = 0 \<longrightarrow> (\<exists>results. res = Some results \<and> \<not> list_ex jr_failed (br_jobs results)))))"
proof -
  let ?s = "(orchestrator_create opts jobs lg, w)"
  have opts: "or_options (orchestrator_create opts jobs lg) = opts" by (simp add: orchestrator_create_def)
  from run obtain r o1 w1 where o: "orchestrate env ?s = Some (r, (o1, w1))"
    unfolding orchestrator_run_def by (cases "orchestrate env ?s") auto
  have pub: "run_published (tr w) (opt_runtime_seconds opts) r (tr w1)"
    using postD [OF orchestrate_trace [OF c qt(1), of ?s] o] qt(2) opts by simp
  have complete: "completed jobs o1 results" if "r = Inr results" for results
    using postD [OF orchestrate_post o] that by simp
  show ?thesis
  proof (cases r)
    case (Inr results)
    then have "w2 = w1" "rc = (if list_ex jr_failed (br_jobs results) then 1 else 0)"
      using run o complete [OF Inr] by (auto simp: orchestrator_run_def completed_def)
    then show ?thesis using pub Inr by (auto simp: run_published_def)
  next
    case (Inl e)
    then have "w2 = w1 \<and> rc = 1"
      using run o by (cases e; cases "or_logging_ready o1")
        (auto simp: orchestrator_run_def bindP_def on_logger_def logger_get_def returnP_def split: if_splits)
    then show ?thesis using pub by (auto simp: run_published_def)
  qed
qed

lemma session_results: "results_after (session_steps cx n xs res @ [Mark_Shutdown]) = res"
proof -
  have "results_after ([Publish_Context cx, Set_Runtime n] @ map Publish_Snapshot xs) = None"
    by (induction xs rule: rev_induct) (simp_all add: results_after_def)
  then show ?thesis by (cases res) (simp_all add: session_steps_def results_after_def)
qed

lemma finished_status:
  assumes "protocol False (concat ahead)" "gui_session genv cx ahead es = Some g" "mw_finished (gu_window g)"
  shows "mw_status (gu_window g) = final_status genv (results_after (concat ahead))"
proof -
  have g: "gui_ok genv g" "reported genv g" "plan g = concat ahead"
    using gui_session_ok [OF assms(1), of genv cx es] assms(2) by auto
  then show ?thesis using plan_results [of g] assms(3) by (simp add: reported_def gui_ok_def Let_def)
qed

text \<open>
  C4. A run with the GUI: the benchmark thread keeps the protocol of the mailbox, and what the window
  shows at the end agrees with the exit code, however the two threads interleave and whatever the
  user does. Without results the code is 1 and the window says so; otherwise the window shows the
  summary of the run's results, and a code of 0 means that none of its jobs failed.
\<close>

theorem gui_run_reports:
  assumes world: "calm_world tr env" "traced_host tr host"
    and opts: "opt_ui_backend opts = ''qt''" "0 \<le> opt_runtime_seconds opts"
      "int_in_range (opt_runtime_seconds opts * kMsPerSecond)"
    and run: "tr w = []" "run_qt_gui env host opts jobs (lg, w) = Some (Inr rc, (lg', w'))"
  shows "protocol False (tr w') \<and> (rc = 0 \<or> rc = 1) \<and>
    (\<forall>genv cx ahead es. concat ahead = tr w' \<longrightarrow>
       (\<exists>g. gui_session genv cx ahead es = Some g \<and>
          (mw_finished (gu_window g) \<longrightarrow>
             (case results_after (tr w') of
                None \<Rightarrow> rc = 1 \<and> mw_status (gu_window g) = ''run ended without results, see log''
              | Some r \<Rightarrow> mw_status (gu_window g) = build_run_summary (gv_fmt genv) r \<and>
                  (rc = 0 \<longrightarrow> \<not> list_ex jr_failed (br_jobs r))))))"
proof -
  let ?env = "with_qt_display host env" and ?w1 = "qh_show host (make_display_context opts jobs []) w"
  have calm: "calm_world tr ?env" using world(1) by (simp add: calm_world_def with_qt_display_def)
  have reg: "oe_registry ?env = display_register ''qt'' (qt_display host) (oe_registry env)" by (simp add: with_qt_display_def)
  from run(2) obtain o1 w2 w3 o2 u v where
    r: "orchestrator_run ?env (orchestrator_create opts jobs lg, ?w1) = Some (Inr rc, (o1, w2))"
    and x: "qh_exec host (qh_publish host Mark_Shutdown w2) = Some (u, w3)"
    and d: "orchestrator_destroy ?env (o1, qh_request_stop host w3) = Some (Inr v, (o2, w'))"
    unfolding run_qt_gui_def bindP_def logger_get_def
    by (auto simp: Let_def split: if_splits option.splits sum.splits)
  have host: "tr (qh_publish host a y) = tr y @ [a]" "tr (qh_show host cx y) = tr y" "tr (qh_request_stop host y) = tr y"
    "qh_exec host y = Some (u, y') \<Longrightarrow> tr y' = tr y" for a cx y u y'
    using world(2) by (auto simp: traced_host_def keeps_upd_def keeps_opt_def)
  have w': "tr w' = tr w2 @ [Mark_Shutdown]"
    using calm_destroy [OF calm] d host(4) [OF x] unfolding keeps_def by (metis host(1,3) snd_conv)
  note trace = run_trace [OF calm world(2) reg opts(1) r, unfolded host(2) run(1) append_Nil]
  have protocol: "protocol False (tr w')"
    using trace session_protocol [OF opts(2,3)] by (auto simp: w')
  have results: "case results_after (tr w') of None \<Rightarrow> rc = 1 | Some r \<Rightarrow> rc = 0 \<longrightarrow> \<not> list_ex jr_failed (br_jobs r)"
    using trace session_results
    by (auto simp: w' results_after_def split: option.split)
  show ?thesis
  proof (intro conjI allI impI protocol trace [THEN conjunct1])
    fix genv cx ahead es
    assume ahead: "concat ahead = tr w'"
    then obtain g where g: "gui_session genv cx ahead es = Some g"
      using gui_session_ok [of ahead genv cx es] protocol by auto
    have "mw_finished (gu_window g) \<Longrightarrow> mw_status (gu_window g) = final_status genv (results_after (tr w'))"
      using finished_status [OF _ g] protocol ahead by simp
    with g results show "\<exists>g. gui_session genv cx ahead es = Some g \<and>
          (mw_finished (gu_window g) \<longrightarrow>
             (case results_after (tr w') of
                None \<Rightarrow> rc = 1 \<and> mw_status (gu_window g) = ''run ended without results, see log''
              | Some r \<Rightarrow> mw_status (gu_window g) = build_run_summary (gv_fmt genv) r \<and>
                  (rc = 0 \<longrightarrow> \<not> list_ex jr_failed (br_jobs r))))"
      by (auto simp: final_status_def split: option.splits)
  qed
qed

end
