(* ===== verification/Run_Loop.thy ===== *)
theory Run_Loop
  imports Orchestrator_Run
begin

text \<open>
  The waiting of \<open>RunBenchmark\<close>: it ends, at the deadline or on a request to stop, and updates the
  display at most once for every second. From this, the run as a whole comes to an end.
\<close>

section \<open>Waiting under a steady clock\<close>

text \<open>
  What the loop relies on of its surroundings. \<open>clock w\<close> is the time and \<open>updates w\<close> counts the updates of
  the display, of which a call makes at most one: readings of the steady clock are in order, a sleep of at most a slice lasts at least
  as long as it was asked to, a request to stop is not taken back, and an update of the display
  returns.
\<close>

definition steady_world ::
    "'w orch_env \<Rightarrow> 'w display_ops \<Rightarrow> ('w \<Rightarrow> time_point) \<Rightarrow> ('w \<Rightarrow> nat) \<Rightarrow> bool" where
  "steady_world env disp clock updates \<longleftrightarrow>
     (\<forall>w t w'. oe_now env w = (t, w') \<longrightarrow> clock w \<le> t \<and> t \<le> clock w' \<and> updates w' = updates w) \<and>
     (\<forall>d w. 0 < d \<longrightarrow> d \<le> kSleepSlice \<longrightarrow>
        clock w + d \<le> clock (oe_sleep_for env d w) \<and> updates (oe_sleep_for env d w) = updates w) \<and>
     (\<forall>w b w'. should_stop env disp w = (b, w') \<longrightarrow>
        clock w \<le> clock w' \<and> updates w' = updates w \<and> (b \<longrightarrow> fst (should_stop env disp w'))) \<and>
     (\<forall>w x w'. oe_latest_snapshot env w = (x, w') \<longrightarrow> clock w \<le> clock w' \<and> updates w' = updates w) \<and>
     (\<forall>x w. \<exists>w'. di_update disp x w = Some (Inr (), w') \<and> clock w \<le> clock w' \<and> updates w' \<le> Suc (updates w))"

lemma steady_now: "steady_world env disp clock updates \<Longrightarrow> oe_now env w = (t, w') \<Longrightarrow>
    clock w \<le> t \<and> t \<le> clock w' \<and> updates w' = updates w"
  unfolding steady_world_def by blast

lemma steady_sleep: "steady_world env disp clock updates \<Longrightarrow> 0 < d \<Longrightarrow> d \<le> kSleepSlice \<Longrightarrow>
    clock w + d \<le> clock (oe_sleep_for env d w) \<and> updates (oe_sleep_for env d w) = updates w"
  unfolding steady_world_def by blast

lemma steady_stop: "steady_world env disp clock updates \<Longrightarrow> should_stop env disp w = (b, w') \<Longrightarrow>
    clock w \<le> clock w' \<and> updates w' = updates w \<and> (b \<longrightarrow> fst (should_stop env disp w'))"
  unfolding steady_world_def by blast

lemma steady_snapshot: "steady_world env disp clock updates \<Longrightarrow> oe_latest_snapshot env w = (x, w') \<Longrightarrow>
    clock w \<le> clock w' \<and> updates w' = updates w"
  unfolding steady_world_def by blast

lemma steady_update: "steady_world env disp clock updates \<Longrightarrow>
    \<exists>w'. di_update disp x w = Some (Inr (), w') \<and> clock w \<le> clock w' \<and> updates w' \<le> Suc (updates w)"
  unfolding steady_world_def by blast

text \<open>A sleep ends at the time it is given, or when a stop was seen.\<close>

lemma sleep_loop_ends:
  assumes sw: "steady_world env disp clock updates"
  shows "now \<le> clock w \<Longrightarrow>
    \<exists>w'. sleep_loop env disp until now w = Some w' \<and> clock w \<le> clock w' \<and> updates w' = updates w \<and>
      (until \<le> clock w' \<or> fst (should_stop env disp w'))"
proof (induction "nat (until - now)" arbitrary: now w rule: less_induct)
  case less
  show ?case
  proof (cases "now < until")
    case False
    then show ?thesis using less.prems by (simp add: sleep_loop.simps)
  next
    case True
    obtain b w1 where s: "should_stop env disp w = (b, w1)" by fastforce
    note s' = steady_stop [OF sw s]
    show ?thesis
    proof (cases b)
      case True
      then show ?thesis using s s' \<open>now < until\<close> by (simp add: sleep_loop.simps [of env disp until])
    next
      case False
      let ?d = "min kSleepSlice (until - now)"
      have d: "0 < ?d" "?d \<le> kSleepSlice" using True by (simp_all add: kSleepSlice_def)
      note sl = steady_sleep [OF sw d, of w1]
      obtain now' w2 where n: "oe_now env (oe_sleep_for env ?d w1) = (now', w2)" by fastforce
      note n' = steady_now [OF sw n]
      have lt: "now < now'" "now' \<le> clock w2" using d(1) sl n' s' less.prems by linarith+
      have "nat (until - now') < nat (until - now)" using True lt(1) by linarith
      from less.hyps [OF this lt(2)] obtain w' where w':
        "sleep_loop env disp until now' w2 = Some w'" "clock w2 \<le> clock w'" "updates w' = updates w2"
        "until \<le> clock w' \<or> fst (should_stop env disp w')" by blast
      have "sleep_loop env disp until now w = Some w'"
        using True False s n w'(1) by (simp add: sleep_loop.simps [of env disp until now])
      then show ?thesis using w'(2-4) s' sl n' d(1) by (intro exI [of _ w']) linarith
    qed
  qed
qed

lemma sleep_sliced_ends:
  assumes sw: "steady_world env disp clock updates"
  shows "\<exists>w'. sleep_sliced env disp until w = Some w' \<and> clock w \<le> clock w' \<and> updates w' = updates w \<and>
      (until \<le> clock w' \<or> fst (should_stop env disp w'))"
proof -
  obtain now w1 where n: "oe_now env w = (now, w1)" by fastforce
  note n' = steady_now [OF sw n]
  then obtain w' where "sleep_loop env disp until now w1 = Some w'" "clock w1 \<le> clock w'"
    "updates w' = updates w1" "until \<le> clock w' \<or> fst (should_stop env disp w')"
    using sleep_loop_ends [OF sw, of now w1 until] by blast
  then show ?thesis using n n' by (simp add: sleep_sliced_def)
qed

text \<open>At the deadline the loop ends without another update.\<close>

lemma run_loop_late:
  assumes sw: "steady_world env disp clock updates" and late: "deadline \<le> clock w"
  shows "\<exists>w'. run_loop env disp deadline next_tick w = Some (Inr (), w') \<and> clock w \<le> clock w' \<and> updates w' = updates w"
proof -
  obtain b w1 where s: "should_stop env disp w = (b, w1)" by fastforce
  obtain now w2 where n: "oe_now env w1 = (now, w2)" by fastforce
  have "\<not> now < deadline" using steady_stop [OF sw s] steady_now [OF sw n] late by linarith
  then show ?thesis using s n steady_stop [OF sw s] steady_now [OF sw n]
    by (cases b) (auto simp: run_loop.simps [of env disp deadline])
qed

text \<open>One round: the loop is over, or the display was updated once and the tick or the deadline is past.\<close>

lemma run_loop_round:
  assumes sw: "steady_world env disp clock updates"
  shows "(\<exists>w'. run_loop env disp deadline next_tick w = Some (Inr (), w') \<and> clock w \<le> clock w' \<and>
       updates w' = updates w \<and> (deadline \<le> clock w' \<or> fst (should_stop env disp w'))) \<or>
    (\<exists>w'. run_loop env disp deadline next_tick w = run_loop env disp deadline (next_tick + seconds_ns 1) w' \<and>
       clock w \<le> clock w' \<and> min next_tick deadline \<le> clock w' \<and> updates w' \<le> Suc (updates w))"
    (is "?over \<or> ?again")
proof -
  obtain b w1 where s: "should_stop env disp w = (b, w1)" by fastforce
  note s' = steady_stop [OF sw s]
  obtain now w2 where n: "oe_now env w1 = (now, w2)" by fastforce
  note n' = steady_now [OF sw n]
  have run: "run_loop env disp deadline next_tick w =
      (if b then Some (Inr (), w1)
       else if now < deadline
       then (case sleep_sliced env disp (min next_tick deadline) w2 of
              None \<Rightarrow> None
            | Some w3 \<Rightarrow>
                (case should_stop env disp w3 of (stop', w4) \<Rightarrow>
                   if stop' then Some (Inr (), w4)
                   else case oe_latest_snapshot env w4 of (snapshot, w5) \<Rightarrow>
                     case di_update disp snapshot w5 of
                       None \<Rightarrow> None
                     | Some (Inl e, w6) \<Rightarrow> Some (Inl e, w6)
                     | Some (Inr _, w6) \<Rightarrow> run_loop env disp deadline (next_tick + seconds_ns 1) w6))
       else Some (Inr (), w2))"
    by (simp add: run_loop.simps [of env disp deadline next_tick w] s n)
  show ?thesis
  proof (cases "b \<or> \<not> now < deadline")
    case True
    then have ?over using run s' n' by (cases b) auto
    then show ?thesis ..
  next
    case False
    obtain w3 where w3: "sleep_sliced env disp (min next_tick deadline) w2 = Some w3" "clock w2 \<le> clock w3"
      "updates w3 = updates w2" "min next_tick deadline \<le> clock w3 \<or> fst (should_stop env disp w3)"
      using sleep_sliced_ends [OF sw] by blast
    obtain b' w4 where t: "should_stop env disp w3 = (b', w4)" by fastforce
    note t' = steady_stop [OF sw t]
    show ?thesis
    proof (cases b')
      case True
      then have ?over using run False w3 t t' s' n' by auto
      then show ?thesis ..
    next
      case nb: False
      obtain x w5 where x: "oe_latest_snapshot env w4 = (x, w5)" by fastforce
      note x' = steady_snapshot [OF sw x]
      obtain w6 where w6: "di_update disp x w5 = Some (Inr (), w6)" "clock w5 \<le> clock w6" "updates w6 \<le> Suc (updates w5)"
        using steady_update [OF sw] by blast
      have "run_loop env disp deadline next_tick w = run_loop env disp deadline (next_tick + seconds_ns 1) w6"
        using run False w3(1) t nb x w6(1) by simp
      moreover have "clock w \<le> clock w6" "min next_tick deadline \<le> clock w6" "updates w6 \<le> Suc (updates w)"
        using s' n' w3(2-4) t t' nb x' w6(2,3) by auto
      ultimately show ?thesis by blast
    qed
  qed
qed

lemma run_loop_ends:
  assumes sw: "steady_world env disp clock updates"
  shows "deadline \<le> next_tick + seconds_ns (int k) \<Longrightarrow>
    \<exists>w'. run_loop env disp deadline next_tick w = Some (Inr (), w') \<and> clock w \<le> clock w' \<and>
      updates w' \<le> updates w + Suc k \<and> (deadline \<le> clock w' \<or> fst (should_stop env disp w'))"
proof (induction k arbitrary: next_tick w)
  case 0
  from run_loop_round [OF sw, of deadline next_tick w] show ?case
  proof (elim disjE exE conjE)
    fix w' assume a: "run_loop env disp deadline next_tick w = run_loop env disp deadline (next_tick + seconds_ns 1) w'"
      "clock w \<le> clock w'" "min next_tick deadline \<le> clock w'" "updates w' \<le> Suc (updates w)"
    have "deadline \<le> clock w'" using a(3) 0 by simp
    with a run_loop_late [OF sw this, of "next_tick + seconds_ns 1"] show ?thesis by fastforce
  qed auto
next
  case (Suc k)
  from run_loop_round [OF sw, of deadline next_tick w] show ?case
  proof (elim disjE exE conjE)
    fix w' assume a: "run_loop env disp deadline next_tick w = run_loop env disp deadline (next_tick + seconds_ns 1) w'"
      "clock w \<le> clock w'" "min next_tick deadline \<le> clock w'" "updates w' \<le> Suc (updates w)"
    have "deadline \<le> next_tick + seconds_ns 1 + seconds_ns (int k)" using Suc.prems by simp
    from Suc.IH [OF this, of w'] a show ?thesis by fastforce
  qed auto
qed

text \<open>
  C21. The loop of \<open>RunBenchmark\<close> ends: at the deadline, or when a stop was requested. Until then it has
  updated the display at most once for every second of the configured runtime, and it relied on no
  sleep longer than 100 milliseconds.
\<close>

theorem run_loop_bounded:
  assumes sw: "steady_world env disp clock updates"
    and runtime: "1 \<le> runtime" and order: "begin_time \<le> tick_base"
  shows "\<exists>w'. run_loop env disp (begin_time + seconds_ns runtime) (tick_base + seconds_ns 1) w = Some (Inr (), w') \<and>
    clock w \<le> clock w' \<and> updates w' \<le> updates w + nat runtime \<and>
    (begin_time + seconds_ns runtime \<le> clock w' \<or> fst (should_stop env disp w'))"
proof -
  have "begin_time + seconds_ns runtime \<le> tick_base + seconds_ns 1 + seconds_ns (int (nat (runtime - 1)))"
    using runtime order by simp
  from run_loop_ends [OF sw this, of w] show ?thesis using runtime by (simp add: Suc_nat_eq_nat_zadd1)
qed

section \<open>The run comes to an end\<close>

definition total :: "('s, 'a) prog \<Rightarrow> bool" where
  "total m \<longleftrightarrow> (\<forall>s. m s \<noteq> None)"

named_theorems total_intros "programs that come to an end"

lemma total_return [total_intros]: "total (returnP a)"
  by (simp add: total_def returnP_def)

lemma total_throw [total_intros]: "total (throwP e)"
  by (simp add: total_def throwP_def)

lemma total_modify [total_intros]: "total (modifyP f)"
  by (simp add: total_def modifyP_def)

lemma total_bind [total_intros]: "total m \<Longrightarrow> (\<And>a. total (f a)) \<Longrightarrow> total (bindP m f)"
  unfolding total_def bindP_def by (auto split: option.splits sum.splits)

lemma total_with [total_intros]: "(\<And>s. total (f s)) \<Longrightarrow> total (withP f)"
  by (simp add: total_def withP_def)

lemma total_pair [total_intros]: "(\<And>o1 w. total (f o1 w)) \<Longrightarrow> total (case s of (o1, w) \<Rightarrow> f o1 w)"
  by (cases s) simp

lemma total_if [total_intros]: "total m \<Longrightarrow> total n \<Longrightarrow> total (if b then m else n)"
  by simp

lemma total_world [total_intros]: "total m \<Longrightarrow> total (on_world m)"
  unfolding total_def on_world_def by (auto split: option.splits)

lemma total_logger [total_intros]: "total m \<Longrightarrow> total (on_logger m)"
  unfolding total_def on_logger_def by (auto split: option.splits)

lemma total_files [total_intros]: "total m \<Longrightarrow> total (on_files m)"
  unfolding total_def on_files_def by (auto split: option.splits)

lemma total_call [total_intros]: "total (call f)"
  by (simp add: total_def call_def split: prod.splits)

lemma total_checked [total_intros]: "total (checked f)"
  by (simp add: total_def checked_def split: prod.splits)

lemma total_waits: "(\<And>w. f w \<noteq> None) \<Longrightarrow> total (waits f)"
  by (auto simp: total_def waits_def split: option.splits)

lemma total_scoped: "total m \<Longrightarrow> (\<And>s. \<exists>s'. fin s = Some (Inr (), s')) \<Longrightarrow> total (scoped m fin)"
  unfolding total_def
proof (rule allI)
  fix s
  assume m: "\<forall>s. m s \<noteq> None" and fin: "\<And>s. \<exists>s'. fin s = Some (Inr (), s')"
  obtain r s' where "m s = Some (r, s')" using m by (metis not_None_eq prod.collapse)
  with fin [of s'] show "scoped m fin s \<noteq> None" by (auto simp: scoped_def)
qed

lemma total_logger_ops [total_intros]:
  "total (logger_init api path verbose)" "total logger_get" "total (logger_shutdown api)"
  by (auto simp: total_def logger_init_def logger_get_def logger_shutdown_def Let_def split: prod.splits sum.splits)

lemma total_write_out: "total (write_out api path content)"
  by (auto simp: total_def write_out_def split: prod.splits sum.splits)

lemma total_exports [total_intros]: "total (export_json api dump results dir)" "total (export_csv api samples dir)"
  by (simp_all add: export_json_def export_csv_def total_write_out)

text \<open>
  What the run relies on to come to an end: the other threads and the file system answer, and every
  display that can be created lives in a steady world, returns from its other calls, and shuts down
  without an exception.
\<close>

definition world_answers ::
    "'w orch_env \<Rightarrow> ('w \<Rightarrow> time_point) \<Rightarrow> ('w \<Rightarrow> nat) \<Rightarrow>
     ('w \<Rightarrow> int \<Rightarrow> string option) \<Rightarrow> (string \<Rightarrow> 8 word list \<Rightarrow> 'w \<Rightarrow> bool) \<Rightarrow> bool" where
  "world_answers env clock updates table stored \<longleftrightarrow>
     (\<forall>kind job w. oe_new_worker env kind job w \<noteq> None) \<and>
     (\<forall>i w. oe_start_worker env i w \<noteq> None) \<and> (\<forall>i w. oe_join_worker env i w \<noteq> None) \<and>
     (\<forall>w. oe_start_sampling env w \<noteq> None) \<and> (\<forall>w. oe_stop_sampling env w \<noteq> None) \<and>
     posix_files (oe_files env) table stored \<and> (\<forall>fd data. returns (fa_write (oe_files env) fd data)) \<and>
     (\<forall>backend ctx disp. display_create (oe_registry env) (oe_terminal env) backend ctx = Inr disp \<longrightarrow>
        steady_world env disp clock updates \<and> (\<forall>n w. di_init disp n w \<noteq> None) \<and>
        (\<forall>res w. di_summary disp res w \<noteq> None) \<and> (\<forall>w. \<exists>w'. di_shutdown disp w = Some (Inr (), w')))"

lemma total_workers:
  assumes "\<And>i w. oe_start_worker env i w \<noteq> None" "\<And>i w. oe_join_worker env i w \<noteq> None"
  shows "total (start_workers env is)" "total (join_workers env is)"
proof -
  have "total (oe_start_worker env i)" for i using assms(1) by (simp add: total_def)
  then show "total (start_workers env is)" by (induction "is") (auto intro!: total_intros)
  show "total (join_workers env is)" using assms(2) by (induction "is") (auto intro!: total_intros total_waits)
qed

lemma total_create_workers:
  assumes "\<And>kind job w. oe_new_worker env kind job w \<noteq> None"
  shows "total (create_workers env jobs)"
proof -
  have "total (oe_new_worker env kind job)" for kind job using assms by (simp add: total_def)
  then show ?thesis by (induction jobs) (auto intro!: total_intros split: sum.split)
qed

lemma total_precreate:
  assumes "posix_files (oe_files env) table stored" "\<And>fd data. returns (fa_write (oe_files env) fd data)"
  shows "total (precreate_files env jobs)"
proof -
  have "total (create_and_fill (oe_files env) job)" for job
    unfolding total_def using create_and_fill_outcome [OF assms, of job] by (metis not_None_eq surj_pair)
  then show ?thesis by (induction jobs) (auto intro!: total_intros)
qed

lemma total_supervise:
  assumes "world_answers env clock updates table stored"
    and "display_create (oe_registry env) (oe_terminal env) backend ctx = Inr disp"
  shows "total (supervise env disp opts workers agg)"
proof -
  have sw: "steady_world env disp clock updates" and su: "total (di_summary disp res)"
    and st: "oe_stop_sampling env w \<noteq> None" for res w
    using assms unfolding world_answers_def total_def by blast+
  have loop: "total (run_loop env disp deadline next_tick)" for deadline next_tick
  proof -
    have "deadline \<le> next_tick + seconds_ns (int (nat (deadline - next_tick)))" by simp
    from run_loop_ends [OF sw this] show ?thesis unfolding total_def by (metis option.distinct(1))
  qed
  have w: "total (start_workers env is)" "total (join_workers env is)" for "is"
    using assms(1) unfolding world_answers_def by (intro total_workers; blast)+
  show ?thesis
    unfolding supervise_def collect_results_def Let_def
    by (intro total_intros loop w su total_waits st)
qed

lemma total_run_with_display:
  assumes wa: "world_answers env clock updates table stored"
    and disp: "display_create (oe_registry env) (oe_terminal env) backend ctx = Inr disp"
  shows "total (run_with_display env disp opts workers)"
proof -
  note sup = total_supervise [OF assms]
  have di: "total (di_init disp n)" "total (oe_start_sampling env)" "\<exists>w'. di_shutdown disp w = Some (Inr (), w')" for n w
    using assms unfolding world_answers_def total_def by blast+
  have "\<exists>s'. on_world (di_shutdown disp) s = Some (Inr (), s')"
    "\<exists>s'. on_world (modifyP (oe_restore_handlers env)) s = Some (Inr (), s')" for s :: "'a orch_state"
    using di(3) [of "snd s"] by (cases s; auto simp: on_world_def modifyP_def)+
  then show ?thesis
    unfolding run_with_display_def
    by (intro total_scoped total_bind total_world total_modify total_call di sup)
qed

lemma total_run_benchmark:
  assumes "world_answers env clock updates table stored"
  shows "total (run_benchmark env)"
  unfolding run_benchmark_def
  by (intro total_with total_pair, split sum.split) (auto intro!: total_throw total_run_with_display [OF assms])

lemma total_orchestrate:
  assumes wa: "world_answers env clock updates table stored"
  shows "total (orchestrate env)"
proof -
  note run = total_run_benchmark [OF wa]
  have new: "oe_new_worker env kind job w \<noteq> None" for kind job w using wa by (simp add: world_answers_def)
  have files: "posix_files (oe_files env) table stored" "\<And>fd data. returns (fa_write (oe_files env) fd data)"
    using wa by (simp_all add: world_answers_def)
  note steps = run total_precreate [OF files] total_create_workers [OF new]
  have clean: "total (cleanup_files env)" unfolding cleanup_files_def by (simp add: total_def on_files_def split: prod.splits)
  show ?thesis
    unfolding orchestrate_def setup_output_directory_def create_output_directory_def init_logging_def export_results_def
    by (intro total_intros steps clean)
qed

lemma run_ends:
  assumes "world_answers env clock updates table stored"
  shows "\<exists>r s'. orchestrator_run env (orchestrator_create opts jobs lg, w) = Some (r, s') \<and>
    (r = Inr 0 \<or> r = Inr 1 \<or> r = Inl NonStdError)"
proof -
  let ?s = "(orchestrator_create opts jobs lg, w)"
  obtain r o1 w1 where o: "orchestrate env ?s = Some (r, (o1, w1))"
    using total_orchestrate [OF assms] unfolding total_def by (metis not_None_eq surj_pair)
  have "logged o1" using postD [OF orchestrate_post o] by simp
  with o show ?thesis
    by (cases r rule: sum.exhaust; cases "or_logging_ready o1")
      (auto simp: orchestrator_run_def logged_def bindP_def on_logger_def logger_get_def returnP_def split: exn.splits)
qed

text \<open>
  C13. A run comes to an end, by an exit code or an exception that is not a \<open>std::exception\<close>: if the other
  threads and the file system answer, and the display returns, nothing in the main thread loops for
  ever or ends the process.
\<close>

theorem run_returns:
  assumes "world_answers env clock updates table stored"
  shows "\<exists>r s'. orchestrator_run env (orchestrator_create opts jobs lg, w) = Some (r, s') \<and>
    (r = Inr 0 \<or> r = Inr 1 \<or> r = Inl NonStdError)"
  by (rule run_ends [OF assms])

end
