(* ===== verification/Run_Example.thy ===== *)
theory Run_Example
  imports Run_Loop Run_Files Terminal_Display
begin

text \<open>
  A concrete environment for the run: the terminal display, a clock that moves when it is read and
  when the program sleeps, a disk with one descriptor, and workers that report back at once. The
  theorems on the run are applied to it.
\<close>

section \<open>The environment\<close>

type_synonym disk = "(int \<Rightarrow> string option) \<times> (string \<Rightarrow> 8 word list option)"
type_synonym 'd on_demo = "'d \<times> (int \<times> disk)"
type_synonym demo = "terminal_display on_demo"

definition on_disk :: "(disk \<Rightarrow> 'a \<times> disk) \<Rightarrow> 'd on_demo \<Rightarrow> 'a \<times> 'd on_demo" where
  "on_disk f = (\<lambda>(d, (t, x)). case f x of (a, x') \<Rightarrow> (a, (d, (t, x'))))"

definition disk_files :: "'d on_demo file_api" where
  "disk_files =
     \<lparr>fa_strerror = (\<lambda>_. ''error''),
      fa_exists = (\<lambda>path. on_disk (\<lambda>(t, c). (c path \<noteq> None, (t, c)))),
      fa_open = (\<lambda>path. on_disk (\<lambda>(t, c).
         if t 3 = None then ((3, 0), (t(3 \<mapsto> path), c(path \<mapsto> []))) else ((- 1, 24), (t, c)))),
      fa_write = (\<lambda>fd data. on_disk (\<lambda>(t, c). case t fd of
           None \<Rightarrow> ((- 1, 9), (t, c))
         | Some path \<Rightarrow> (case c path of
               None \<Rightarrow> ((- 1, 9), (t, c))
             | Some bs \<Rightarrow> ((int (min 5 (length data)), 0), (t, c(path \<mapsto> bs @ take 5 data)))))),
      fa_fallocate = (\<lambda>fd size w. ((0, 0), w)),
      fa_fsync = (\<lambda>fd w. ((0, 0), w)),
      fa_close = (\<lambda>fd. on_disk (\<lambda>(t, c). ((0, 0), (t(fd := None), c)))),
      fa_remove = (\<lambda>path w. snd (on_disk (\<lambda>(t, c). ((), (t, c(path := None)))) w)),
      fa_seed = (\<lambda>w. (\<lambda>i. 7, w))\<rparr>"

definition demo_log :: "'d on_demo log_api" where
  "demo_log = \<lparr>lo_init_thread_pool = (\<lambda>_ _ w. w), lo_file_sink = (\<lambda>_ w. (Inr (), w)),
     lo_register = (\<lambda>w. (Inr (), w)), lo_flush = (\<lambda>w. w), lo_drop = (\<lambda>w. w), lo_shutdown = (\<lambda>w. w)\<rparr>"

definition demo_out :: "'d on_demo out_api" where
  "demo_out = \<lparr>oa_open = (\<lambda>_ w. (True, w)), oa_write = (\<lambda>_ _ w. (True, w))\<rparr>"

definition demo_view :: worker_view where
  "demo_view = \<lparr>vw_config = default_job, vw_iops = 0, vw_bytes = 0, vw_histogram = hist_empty 64,
     vw_read_errors = 0, vw_write_errors = 0, vw_direct_effective = True, vw_failed = False, vw_error_message = []\<rparr>"

definition tick :: "int \<times> disk \<Rightarrow> time_point \<times> (int \<times> disk)" where
  "tick = (\<lambda>(t, x). (t, (t + 1, x)))"

definition disk_setting :: "(display_context \<Rightarrow> 'd on_demo display_ops) \<Rightarrow> 'd on_demo orch_env" where
  "disk_setting backend =
     \<lparr>oe_log = demo_log, oe_files = disk_files, oe_out = demo_out, oe_dump = (\<lambda>_. Inr ''{}''),
      oe_create_directories = (\<lambda>_ w. (Inr (), w)), oe_local_timestamp = (\<lambda>w. (''20250101T000000'', w)),
      oe_format_utc = (\<lambda>_. ''2025-01-01T00:00:00Z''),
      oe_new_worker = (\<lambda>_ _ w. Some (Inr (), w)), oe_start_worker = (\<lambda>_ w. Some (Inr (), w)),
      oe_join_worker = (\<lambda>_ w. Some (demo_view, w)), oe_destroy_worker = (\<lambda>_ _ w. Some (Inr (), w)),
      oe_start_sampling = (\<lambda>w. Some (Inr (), w)), oe_stop_sampling = (\<lambda>w. Some ([], w)),
      oe_latest_snapshot = (\<lambda>w. (empty_snapshot, w)), oe_registry = (\<lambda>_. None),
      oe_terminal = backend,
      oe_now = (\<lambda>(d, x). case tick x of (t, x') \<Rightarrow> (t, (d, x'))), oe_wall_now = (\<lambda>w. (0, w)),
      oe_sleep_for = (\<lambda>n (d, (t, x)). (d, (t + n, x))), oe_running = (\<lambda>w. (True, w)),
      oe_clear_running = (\<lambda>w. w), oe_install_handlers = (\<lambda>w. w), oe_restore_handlers = (\<lambda>w. w)\<rparr>"

definition demo_setting :: "demo orch_env" where
  "demo_setting = disk_setting (\<lambda>ctx. terminal_ops plain_fmt tick)"

definition demo_options :: cli_options where
  "demo_options = \<lparr>opt_config_path = ''jobs.json'', opt_runtime_seconds = 2, opt_output_dir = ''out'',
     opt_ui_backend = ''terminal'', opt_direct_override = None, opt_engine_override = None,
     opt_verbose = False, opt_keep_files = False\<rparr>"

definition demo_start :: demo where
  "demo_start = (terminal_create \<lparr>dc_engine_label = [], dc_direct_label = [], dc_log_path = []\<rparr> [] True,
     (0, (\<lambda>_. None, \<lambda>_. None)))"

section \<open>It keeps to the contracts\<close>

definition demo_clock :: "'d on_demo \<Rightarrow> time_point" where "demo_clock w = fst (snd w)"
definition demo_table :: "'d on_demo \<Rightarrow> int \<Rightarrow> string option" where "demo_table w = fst (snd (snd w))"
definition demo_content :: "'d on_demo \<Rightarrow> string \<Rightarrow> 8 word list option" where "demo_content w = snd (snd (snd w))"

text \<open>The frames painted so far.\<close>

definition demo_frames :: "demo \<Rightarrow> nat" where
  "demo_frames w = length (filter (\<lambda>x. x = kCursorHome) (td_out (fst w)))"

lemma demo_display:
  "display_create (oe_registry demo_setting) (oe_terminal demo_setting) backend ctx = Inr disp \<Longrightarrow>
     disp = terminal_ops plain_fmt tick"
  by (simp add: demo_setting_def disk_setting_def display_create_def split: if_splits)

lemma demo_steady: "steady_world demo_setting (terminal_ops plain_fmt tick) demo_clock demo_frames"
  by (auto simp: steady_world_def demo_setting_def disk_setting_def terminal_defs tick_def demo_clock_def demo_frames_def
      should_stop_def kSleepSlice_def kCursorHome_def split: prod.splits)

lemma disk_posix: "posix_files disk_files demo_table (\<lambda>path bs w. demo_content w path = Some bs)"
  by (auto simp: posix_files_def disk_files_def on_disk_def demo_table_def demo_content_def min_def Suc_le_eq
      split: if_splits option.splits prod.splits)

lemma disk_returns: "returns (fa_write disk_files fd data)"
  unfolding returns_def
  by (auto simp: disk_files_def on_disk_def retry_on_eintr.simps split: option.splits prod.splits)

lemma disk_nodes: "file_nodes disk_files (\<lambda>w path. demo_content w path \<noteq> None)"
  by (auto simp: file_nodes_def disk_files_def on_disk_def demo_content_def
      split: if_splits option.splits prod.splits intro!: ext)

lemma demo_answers:
  "world_answers demo_setting demo_clock demo_frames demo_table (\<lambda>path bs w. demo_content w path = Some bs)"
proof -
  have f: "oe_files demo_setting = disk_files" by (simp add: demo_setting_def disk_setting_def)
  have d: "steady_world demo_setting disp demo_clock demo_frames \<and> (\<forall>n w. di_init disp n w \<noteq> None) \<and>
        (\<forall>res w. di_summary disp res w \<noteq> None) \<and> (\<forall>w. \<exists>w'. di_shutdown disp w = Some (Inr (), w'))"
    if "display_create (oe_registry demo_setting) (oe_terminal demo_setting) backend ctx = Inr disp" for backend ctx disp
    unfolding demo_display [OF that]
    using demo_steady terminal.init_returns [of plain_fmt tick] terminal.summary_ends [of plain_fmt tick]
      terminal.shutdown_ends [of plain_fmt tick]
    by (metis option.distinct(1))
  have o: "oe_new_worker demo_setting kind job w \<noteq> None" "oe_start_worker demo_setting i w \<noteq> None"
    "oe_join_worker demo_setting i w \<noteq> None" "oe_start_sampling demo_setting w \<noteq> None" "oe_stop_sampling demo_setting w \<noteq> None"
    for kind job i w by (simp_all add: demo_setting_def disk_setting_def)
  show ?thesis unfolding world_answers_def f using o d disk_posix disk_returns by blast
qed

section \<open>The theorems apply\<close>

theorem run_exit_code_witness:
  "\<exists>r o2 w2. orchestrator_run demo_setting (orchestrator_create demo_options [default_job] None, demo_start) = Some (r, (o2, w2)) \<and>
     (case orchestrate demo_setting (orchestrator_create demo_options [default_job] None, demo_start) of
       Some (Inr results, s) \<Rightarrow>
         r = Inr (if list_ex jr_failed (br_jobs results) then 1 else 0) \<and> s = (o2, w2) \<and>
         length (br_jobs results) = length [default_job] \<and> or_workers o2 = length [default_job] \<and>
         or_threads o2 = [] \<and> \<not> or_sampling o2 \<and>
         map fst (fp_created (or_file_prep o2)) = map jc_filename [default_job] \<and> fp_cleaned (or_file_prep o2)
     | Some (Inl NonStdError, s) \<Rightarrow> r = Inl NonStdError \<and> s = (o2, w2)
     | Some (Inl e, s) \<Rightarrow> r = Inr 1 \<and> s = (o2, w2)
     | None \<Rightarrow> False)"
proof -
  obtain r o2 w2 where
    "orchestrator_run demo_setting (orchestrator_create demo_options [default_job] None, demo_start) = Some (r, (o2, w2))"
    using run_ends [OF demo_answers, of demo_options "[default_job]" None demo_start] by force
  from run_exit_code [OF this] this show ?thesis
    by (intro exI [of _ r] exI [of _ o2] exI [of _ w2] conjI)
qed

theorem run_loop_bounded_witness:
  "\<exists>w'. run_loop demo_setting (terminal_ops plain_fmt tick) (0 + seconds_ns 2) (0 + seconds_ns 1) demo_start = Some (Inr (), w') \<and>
    demo_clock demo_start \<le> demo_clock w' \<and> demo_frames w' \<le> demo_frames demo_start + nat 2 \<and>
    (0 + seconds_ns 2 \<le> demo_clock w' \<or> fst (should_stop demo_setting (terminal_ops plain_fmt tick) w'))"
  by (rule run_loop_bounded [OF demo_steady]) simp_all

theorem run_returns_witness:
  "\<exists>r s'. orchestrator_run demo_setting (orchestrator_create demo_options [default_job] None, demo_start) = Some (r, s') \<and>
    (r = Inr 0 \<or> r = Inr 1 \<or> r = Inl NonStdError)"
  by (rule run_returns [OF demo_answers])


theorem display_released_witness:
  "\<exists>r o2 w2. run_benchmark demo_setting (orchestrator_create demo_options [] None, demo_start) = Some (r, (o2, w2)) \<and>
     \<not> td_alt_active (fst w2)"
proof -
  let ?s = "(orchestrator_create demo_options [] None, demo_start)"
  have "total (run_benchmark demo_setting)" by (rule total_run_benchmark [OF demo_answers])
  then obtain r o2 w2 where run: "run_benchmark demo_setting ?s = Some (r, (o2, w2))"
    unfolding total_def by (metis not_None_eq surj_pair)
  have "display_backend disp (\<lambda>w. td_alt_active (fst w))"
    if "display_create (oe_registry demo_setting) (oe_terminal demo_setting) backend ctx = Inr disp" for backend ctx disp
    using terminal_backend [of plain_fmt tick] unfolding demo_display [OF that] by (simp add: case_prod_unfold)
  from display_released [where env = demo_setting and active = "\<lambda>w. td_alt_active (fst w)", OF this run] run
  show ?thesis by (auto simp: demo_start_def terminal_create_def)
qed

end
