(* ===== verification/Gui_Example.thy ===== *)
theory Gui_Example
  imports Qt_App_Runner Run_Example
begin

text \<open>
  A concrete run with the GUI, on the disk and the clock of \<open>Run_Example\<close>: the world records what the
  benchmark thread publishes.
\<close>

type_synonym gui_demo = "mailbox_step list on_demo"

definition trace_host :: "gui_demo qt_host" where
  "trace_host =
     \<lparr>qh_publish = (\<lambda>a (t, x). (t @ [a], x)), qh_stop_requested = (\<lambda>w. (False, w)),
      qh_request_stop = (\<lambda>w. w), qh_show = (\<lambda>cx w. w), qh_exec = (\<lambda>w. Some ((), w))\<rparr>"

definition gui_setting :: "gui_demo orch_env" where
  "gui_setting = disk_setting (qt_display trace_host)"

definition gui_options :: cli_options where
  "gui_options = demo_options\<lparr>opt_runtime_seconds := 0, opt_ui_backend := ''qt''\<rparr>"

definition gui_job :: job_config where
  "gui_job = default_job\<lparr>jc_filename := ''data'', jc_engine := ''psync'', jc_file_size := 0\<rparr>"

definition gui_start :: gui_demo where
  "gui_start = ([], (0, (\<lambda>_. None, \<lambda>_. None)))"

lemma trace_host_ok: "traced_host fst trace_host"
  by (auto simp: traced_host_def trace_host_def keeps_fun_def keeps_upd_def keeps_opt_def)

lemma gui_calm: "calm_world fst gui_setting"
proof -
  have "calm_files fst (oe_files gui_setting)"
    by (auto simp: calm_files_def keeps_fun_def keeps_upd_def gui_setting_def disk_setting_def disk_files_def on_disk_def
        split: prod.splits option.splits)
  then show ?thesis
    by (auto simp: calm_world_def calm_log_def keeps_fun_def keeps_upd_def keeps_opt_def gui_setting_def disk_setting_def
        demo_log_def demo_out_def tick_def split: prod.splits)
qed

section \<open>The run\<close>

abbreviation "gui_env1 \<equiv> with_qt_display trace_host gui_setting"

text \<open>The functions of the environment.\<close>

lemma gui_env_calls [simp]:
  "oe_now gui_env1 (d, (t, x)) = (t, (d, (t + 1, x)))" "oe_wall_now gui_env1 w = (0, w)"
  "oe_running gui_env1 w = (True, w)" "oe_clear_running gui_env1 w = w"
  "oe_install_handlers gui_env1 w = w" "oe_restore_handlers gui_env1 w = w"
  "oe_new_worker gui_env1 kind job w = Some (Inr (), w)" "oe_start_worker gui_env1 i w = Some (Inr (), w)"
  "oe_join_worker gui_env1 i w = Some (demo_view, w)" "oe_destroy_worker gui_env1 i lg w = Some (Inr (), w)"
  "oe_start_sampling gui_env1 w = Some (Inr (), w)" "oe_stop_sampling gui_env1 w = Some ([], w)"
  "oe_create_directories gui_env1 path w = (Inr (), w)" "oe_files gui_env1 = disk_files" "oe_log gui_env1 = demo_log"
  "oe_out gui_env1 = demo_out" "oe_dump gui_env1 j = Inr ''{}''"
  "display_create (oe_registry gui_env1) term ''qt'' cx = Inr (qt_display trace_host cx)"
  by (simp_all add: with_qt_display_def gui_setting_def disk_setting_def tick_def display_create_def display_register_def)

lemma gui_display_calls [simp]:
  "di_init (qt_display trace_host cx) n (d, x) = Some (Inr (), (d @ [Publish_Context cx, Set_Runtime n], x))"
  "di_summary (qt_display trace_host cx) r (d, x) = Some (Inr (), (d @ [Publish_Results r], x))"
  "di_shutdown (qt_display trace_host cx) (d, x) = Some (Inr (), (d @ [Mark_Shutdown], x))"
  "di_stop_requested (qt_display trace_host cx) w = (False, w)"
  by (simp_all add: qt_display_def trace_host_def modifyP_def)

lemmas program_defs = bindP_def on_world_def call_def waits_def checked_def returnP_def modifyP_def withP_def scoped_def
  on_logger_def on_files_def

lemma collect_demo:
  "\<exists>results t'. collect_results gui_env1 opts agg b views samples (d, (t, x)) = Some (Inr results, (d, (t', x)))"
  unfolding collect_results_def Let_def by (auto simp: program_defs)

lemma run_loop_demo [simp]: "deadline \<le> t \<Longrightarrow>
  run_loop gui_env1 (qt_display trace_host cx) deadline next_tick (d, (t, x)) = Some (Inr (), (d, (t + 1, x)))"
  by (simp add: run_loop.simps [of gui_env1] should_stop_def)

lemma supervise_demo:
  assumes "or_threads o1 = []"
  shows "\<exists>results t'. supervise gui_env1 (qt_display trace_host cx) gui_options 1 agg (o1, (d, (t, x))) =
    Some (Inr results, (o1\<lparr>or_sampling := False\<rparr>, (d @ [Publish_Results results], (t', x))))"
proof -
  obtain results t' where c: "collect_results gui_env1 gui_options agg False [demo_view] [] (d, (3 + t, x)) =
      Some (Inr results, (d, (t', x)))" using collect_demo by blast
  have "\<not> vw_failed demo_view" "opt_runtime_seconds gui_options = 0" by (simp_all add: demo_view_def gui_options_def)
  then show ?thesis using c assms
    by (cases o1) (simp add: supervise_def program_defs should_stop_def)
qed

lemma run_with_display_demo:
  assumes "or_threads o1 = []"
  shows "\<exists>results t'. run_with_display gui_env1 (qt_display trace_host cx) gui_options 1 (o1, (d, (t, x))) =
    Some (Inr results, (o1\<lparr>or_sampling := False\<rparr>, (d @ session_steps cx 0 [] (Some results), (t', x))))"
proof -
  have r: "opt_runtime_seconds gui_options = 0" by (simp add: gui_options_def)
  have on: "or_threads (o1\<lparr>or_sampling := True\<rparr>) = []" using assms by simp
  define agg where "agg = aggregator_start t 0 (aggregator_create 1 0)"
  obtain results t' where c: "supervise gui_env1 (qt_display trace_host cx) gui_options 1 agg
      (o1\<lparr>or_sampling := True\<rparr>, (d @ [Publish_Context cx, Set_Runtime 0], (t + 1, x))) =
    Some (Inr results, ((o1\<lparr>or_sampling := True\<rparr>)\<lparr>or_sampling := False\<rparr>,
      ((d @ [Publish_Context cx, Set_Runtime 0]) @ [Publish_Results results], (t', x))))"
    using supervise_demo [OF on, of cx agg "d @ [Publish_Context cx, Set_Runtime 0]" "t + 1" x] by blast
  then show ?thesis
    by (intro exI [of _ results] exI [of _ t'])
      (simp add: run_with_display_def program_defs r agg_def session_steps_def published_def)
qed

lemma fill_demo: "create_and_fill disk_files gui_job (p, (d, (t, (\<lambda>_. None, \<lambda>_. None)))) =
  Some (Inr (), (p\<lparr>fp_created := fp_created p @ [(''data'', False)]\<rparr>, (d, (t, (\<lambda>_. None, [''data'' \<mapsto> []])))))"
proof -
  have "jc_filename gui_job = ''data''" "jc_file_size gui_job = 0" by (simp_all add: gui_job_def)
  then show ?thesis
    by (simp add: create_and_fill_def fill_and_sync_def reserve_space_def disk_files_def on_disk_def fill_file.simps fun_upd_idem)
qed

lemma remove_demo: "fa_remove disk_files path (d, (t, (tb, c))) = (d, (t, (tb, c(path := None))))"
  by (simp add: disk_files_def on_disk_def)

lemma orchestrate_demo:
  "\<exists>results o2 cx t' x. orchestrate gui_env1 (orchestrator_create gui_options [gui_job] (Some lg), gui_start) =
     Some (Inr results, (o2, (session_steps cx 0 [] (Some results), (t', x)))) \<and> \<not> or_any_worker_failed o2"
proof -
  define o3 where "o3 = (orchestrator_create gui_options [gui_job] (Some (path_append ''out'' ''cfio.log'', False)))
    \<lparr>or_output_dir := ''out'', or_logging_ready := True,
     or_file_prep := (file_preparator_create False)\<lparr>fp_created := [(''data'', False)]\<rparr>, or_workers := 1\<rparr>"
  have job: "jc_engine gui_job = ''psync''" "create_engine ''psync'' = Inr PsyncEngine"
    by (simp_all add: gui_job_def create_engine_def is_known_engine_def known_engines_def)
  have opts: "opt_output_dir gui_options = ''out''" "opt_verbose gui_options = False" "opt_keep_files gui_options = False"
    "opt_ui_backend gui_options = ''qt''"
    by (simp_all add: gui_options_def demo_options_def)
  let ?cx = "make_display_context (or_options o3) (or_jobs o3) (path_append (or_output_dir o3) ''cfio.log'')"
  have o3: "or_threads o3 = []" "or_options o3 = gui_options" "length (or_jobs o3) = 1"
    by (simp_all add: o3_def orchestrator_create_def)
  obtain results t' where "run_with_display gui_env1 (qt_display trace_host ?cx) gui_options 1
      (o3, ([], (0, (\<lambda>_. None, [''data'' \<mapsto> []])))) =
    Some (Inr results, (o3\<lparr>or_sampling := False\<rparr>, ([] @ session_steps ?cx 0 [] (Some results), (t', (\<lambda>_. None, [''data'' \<mapsto> []])))))"
    using run_with_display_demo [OF o3(1)] by blast
  then have run: "run_benchmark gui_env1 (o3, ([], (0, (\<lambda>_. None, [''data'' \<mapsto> []])))) =
    Some (Inr results, (o3\<lparr>or_sampling := False\<rparr>, (session_steps ?cx 0 [] (Some results), (t', (\<lambda>_. None, [''data'' \<mapsto> []])))))"
    by (simp add: run_benchmark_def withP_def o3 opts)
  define steps where "steps = session_steps ?cx 0 [] (Some results)"
  have "\<exists>o2 x. orchestrate gui_env1 (orchestrator_create gui_options [gui_job] (Some lg), gui_start) =
      Some (Inr results, (o2, (steps, (t', x)))) \<and> \<not> or_any_worker_failed o2"
    using run [folded steps_def]
    by (simp add: orchestrate_def program_defs setup_output_directory_def create_output_directory_def init_logging_def
        logger_shutdown_def logger_init_def logger_get_def demo_log_def orchestrator_create_def opts job gui_start_def fill_demo
        o3_def file_preparator_create_def lift_lib_def Let_def export_results_def export_json_def export_csv_def write_out_def
        demo_out_def cleanup_files_def file_cleanup_def remove_demo)
  then show ?thesis unfolding steps_def by blast
qed

text \<open>The orchestrator's exit, and the end of the GUI.\<close>

lemma run_qt_gui_demo:
  "\<exists>results cx lg' w'. run_qt_gui gui_setting trace_host gui_options [gui_job] (Some lg, gui_start) = Some (Inr 0, (lg', w')) \<and>
     fst w' = session_steps cx 0 [] (Some results) @ [Mark_Shutdown]"
proof -
  obtain results o2 cx t' x where o: "orchestrate gui_env1 (orchestrator_create gui_options [gui_job] (Some lg), gui_start) =
      Some (Inr results, (o2, (session_steps cx 0 [] (Some results), (t', x))))" "\<not> or_any_worker_failed o2"
    using orchestrate_demo by blast
  let ?s = "(o2, (session_steps cx 0 [] (Some results) @ [Mark_Shutdown], (t', x)))"
  have "\<exists>o3 w3. orchestrator_destroy gui_env1 ?s = Some (Inr (), (o3, w3))"
  proof -
    have d: "\<exists>o3 w3. destroy_workers gui_env1 is (o1, w) = Some (Inr (), (o3, w3))" for "is" o1 w
    proof (induction "is" arbitrary: o1 w)
      case (Cons i "is")
      then show ?case by (auto simp: program_defs)
    qed (intro exI, simp add: returnP_def)
    obtain o3 w3 where "destroy_workers gui_env1 [0..<or_workers o2] ?s = Some (Inr (), (o3, w3))" using d by blast
    then have "orchestrator_destroy gui_env1 ?s = Some (Inr (), (o3, file_preparator_destroy disk_files (or_file_prep o3, w3)))"
      by (simp add: orchestrator_destroy_def program_defs)
    then show ?thesis by blast
  qed
  then obtain o3 w3 where d: "orchestrator_destroy gui_env1 ?s = Some (Inr (), (o3, w3))" by blast
  have "calm_world fst gui_env1" using gui_calm by (simp add: calm_world_def with_qt_display_def)
  then have "fst w3 = fst (snd ?s)" using calm_destroy d unfolding keeps_def by (metis snd_conv)
  moreover have "run_qt_gui gui_setting trace_host gui_options [gui_job] (Some lg, gui_start) = Some (Inr 0, (or_logger o3, w3))"
    using o d by (simp add: run_qt_gui_def bindP_def logger_get_def Let_def trace_host_def orchestrator_run_def)
  ultimately show ?thesis by auto
qed

theorem gui_run_reports_witness:
  "\<exists>rc lg' w' r. run_qt_gui gui_setting trace_host gui_options [gui_job] (Some (''cfio.log'', False), gui_start) =
       Some (Inr rc, (lg', w')) \<and> rc = 0 \<and> protocol False (fst w') \<and> results_after (fst w') = Some r \<and>
     (\<forall>genv cx es. \<exists>g. gui_session genv cx [[], fst w'] es = Some g \<and>
        (if mw_finished (gu_window g) then mw_status (gu_window g) = build_run_summary (gv_fmt genv) r else True))"
proof -
  obtain results cx lg' w' where
    run: "run_qt_gui gui_setting trace_host gui_options [gui_job] (Some (''cfio.log'', False), gui_start) = Some (Inr 0, (lg', w'))"
    and w': "fst w' = session_steps cx 0 [] (Some results) @ [Mark_Shutdown]"
    using run_qt_gui_demo by blast
  have opts: "opt_ui_backend gui_options = ''qt''" "0 \<le> opt_runtime_seconds gui_options"
    "int_in_range (opt_runtime_seconds gui_options * kMsPerSecond)" "fst gui_start = []"
    by (simp_all add: gui_options_def int_in_range_def gui_start_def)
  note g = gui_run_reports [OF gui_calm trace_host_ok opts run]
  have r: "results_after (fst w') = Some results" unfolding w' by (rule session_results)
  have "protocol False (fst w')" using g by (rule conjunct1)
  moreover have "\<exists>g. gui_session genv cx [[], fst w'] es = Some g \<and>
      (if mw_finished (gu_window g) then mw_status (gu_window g) = build_run_summary (gv_fmt genv) results else True)"
    for genv cx es
    using g [THEN conjunct2, THEN conjunct2, THEN spec [of _ genv], THEN spec [of _ cx], THEN spec [of _ "[[], fst w']"],
      THEN spec [of _ es]] r by auto
  ultimately show ?thesis using run r by blast
qed

end
