(* ===== verification/Thread_Steps.thy ===== *)
theory Thread_Steps
  imports Worker_Thread
begin

text \<open>
  The thread of a worker, \<open>WorkerThread::Run\<close> (\<open>src/telemetry/worker_thread.cpp\<close>), cut into the pieces
  between two accesses to \<open>g_running\<close>: what other threads do to the flag can happen between any
  two of them. Run without interruption the pieces give back the sequential model, so everything
  known about the loops carries over to every interleaving.
\<close>

section \<open>The pieces\<close>

text \<open>
  Where the thread is: at the head of the synchronous loop, before the given number of submissions of
  the pre-fill, at the head of the draining loop, at the given completions of its inner loop, or at
  the end. \<open>depth\<close> is the local constant \<open>effective_iodepth\<close>.
\<close>

datatype loop_pc =
  Sync_Head | Prefilling nat | Drain_Head | Reaping time_point "io_completion list" | Finished

fun loop_step ::
    "('g, 'd, 's, 'c) worker_env \<Rightarrow> int \<Rightarrow> loop_pc \<Rightarrow> (('g, 'd, 's, 'c) worker \<times> int, loop_pc) wprog" where
  "loop_step env depth Sync_Head =
     bindW (counted (sync_iteration env)) (\<lambda>again. returnW (if again then Sync_Head else Finished))"
| "loop_step env depth (Prefilling 0) = returnW Drain_Head"
| "loop_step env depth (Prefilling (Suc k)) =
     bindW (counted (load_running env)) (\<lambda>running.
       if running then bindW (submit_counted env) (\<lambda>_. returnW (Prefilling k)) else returnW Drain_Head)"
| "loop_step env depth Drain_Head =
     bindW (counted (load_running env)) (\<lambda>running (w, n).
       if running \<or> n > 0
       then bindW (counted (engine_call (eo_poll (we_ops env) 1 depth))) (\<lambda>completions.
            bindW (counted (read_clock env)) (\<lambda>now. returnW (Reaping now completions))) (w, n)
       else returnW Finished (w, n))"
| "loop_step env depth (Reaping now []) = returnW Drain_Head"
| "loop_step env depth (Reaping now (c # cs)) =
     bindW (counted (lift_outcome (record_completion env c now))) (\<lambda>_.
     bindW (add_in_flight (- 1)) (\<lambda>_.
     bindW (counted (load_running env)) (\<lambda>running.
     bindW (if running then submit_counted env else returnW ()) (\<lambda>_.
       returnW (Reaping now cs)))))"
| "loop_step env depth Finished = returnW Finished"

text \<open>The handlers of \<open>Run\<close>.\<close>

definition failure_text :: "exn \<Rightarrow> string" where
  "failure_text e = (case e of NonStdError \<Rightarrow> ''unknown exception'' | _ \<Rightarrow> what e)"

definition thread_step ::
    "('g, 'd, 's, 'c) worker_env \<Rightarrow> int \<Rightarrow> loop_pc \<Rightarrow> ('g, 'd, 's, 'c) worker \<times> int \<Rightarrow>
     (loop_pc \<times> ('g, 'd, 's, 'c) worker \<times> int) outcome option" where
  "thread_step env depth pc x = (case loop_step env depth pc x of
      None \<Rightarrow> None
    | Some (Done (Inr pc', x')) \<Rightarrow> Some (Done (pc', x'))
    | Some (Done (Inl e, (w, n))) \<Rightarrow> Some (Done (Finished, (record_failure env (failure_text e) w, n)))
    | Some (AssertFail a) \<Rightarrow> Some (AssertFail a)
    | Some Undefined \<Rightarrow> Some Undefined)"

text \<open>The first piece after the barrier.\<close>

definition first_pc :: "job_config \<Rightarrow> loop_pc" where
  "first_pc config =
     (if effective_iodepth config = 1 then Sync_Head else Prefilling (nat (effective_iodepth config)))"

section \<open>The pieces in sequence\<close>

text \<open>What the sequential model still does from each place.\<close>

fun resume ::
    "('g, 'd, 's, 'c) worker_env \<Rightarrow> int \<Rightarrow> loop_pc \<Rightarrow> (('g, 'd, 's, 'c) worker \<times> int, unit) wprog" where
  "resume env depth Sync_Head = counted (run_sync_loop env)"
| "resume env depth (Prefilling k) = bindW (prefill env k) (\<lambda>_. loop_while (async_iteration env depth))"
| "resume env depth Drain_Head = loop_while (async_iteration env depth)"
| "resume env depth (Reaping now cs) =
     bindW (reap_and_refill env now cs) (\<lambda>_. loop_while (async_iteration env depth))"
| "resume env depth Finished = returnW ()"

lemma bindW_assoc: "bindW (bindW m f) g = bindW m (\<lambda>a. bindW (f a) g)"
  by (rule ext) (auto simp: bindW_def split: option.splits outcome.splits sum.splits)

lemma bindW_returnW [simp]: "bindW (returnW a) f = f a"
  by (rule ext) (simp add: bindW_def returnW_def)

lemma bindW_if: "bindW (if b then m else m') f = (if b then bindW m f else bindW m' f)"
  by simp

lemma loop_while_bindW: "loop_while body = bindW body (\<lambda>again. if again then loop_while body else returnW ())"
  by (rule ext, subst loop_while.simps)
    (auto simp: bindW_def returnW_def split: option.splits outcome.splits sum.splits)

lemma counted_bindW: "counted (bindW m f) = bindW (counted m) (\<lambda>a. counted (f a))"
  by (rule ext) (auto simp: counted_def bindW_def split: option.splits outcome.splits sum.splits)

lemma counted_returnW [simp]: "counted (returnW a) = returnW a"
  by (rule ext) (auto simp: counted_def returnW_def)

lemma resume_step:
  assumes "pc \<noteq> Finished"
  shows "resume env depth pc = bindW (loop_step env depth pc) (resume env depth)"
  using assms
proof (cases "(env, depth, pc)" rule: loop_step.cases)
  case (1 env' depth')
  have "resume env depth Sync_Head = counted (bindW (sync_iteration env)
      (\<lambda>again. if again then loop_while (sync_iteration env) else returnW ()))"
    by (simp add: run_sync_loop_def flip: loop_while_bindW)
  then show ?thesis using 1
    by (auto simp: counted_bindW bindW_assoc run_sync_loop_def intro!: arg_cong [where f = "bindW _"])
next
  case (4 env' depth')
  define L where "L = loop_while (async_iteration env depth)"
  have L: "L = bindW (async_iteration env depth) (\<lambda>again. if again then L else returnW ())"
    unfolding L_def by (rule loop_while_bindW)
  have resumes: "resume env depth (Reaping now cs) = bindW (reap_and_refill env now cs) (\<lambda>_. L)" for now cs
    by (simp add: L_def)
  have step: "bindW (\<lambda>(w, n). if a \<or> n > 0 then m (w, n) else returnW False (w, n)) (\<lambda>again. if again then L else returnW ()) x =
      bindW (\<lambda>(w, n). if a \<or> n > 0 then m' (w, n) else returnW Finished (w, n)) (resume env depth) x"
    if "bindW m (\<lambda>again. if again then L else returnW ()) = bindW m' (resume env depth)"
    for a :: bool and m m' and x :: "('a, 'b, 'c, 'd) worker \<times> int"
    using fun_cong [OF that, of x] by (cases x) (auto simp: bindW_def returnW_def)
  let ?poll = "\<lambda>f. bindW (counted (engine_call (eo_poll (we_ops env) 1 depth))) (\<lambda>cs.
    bindW (counted (read_clock env)) (\<lambda>now. f now cs))"
  have "L = bindW (loop_step env depth Drain_Head) (resume env depth)"
    by (subst L, unfold async_iteration_def loop_step.simps bindW_assoc, rule arg_cong [where f = "bindW _"], rule ext, rule ext,
        rule step [where m = "?poll (\<lambda>now cs. bindW (reap_and_refill env now cs) (\<lambda>_. returnW True))"
          and m' = "?poll (\<lambda>now cs. returnW (Reaping now cs))"])
      (simp add: bindW_assoc resumes del: resume.simps(4))
  moreover have "pc = Drain_Head" "resume env depth Drain_Head = L" using 4 by (simp_all add: L_def)
  ultimately show ?thesis by (simp only:)
next
  case (6 env' depth' now c cs)
  then show ?thesis by (simp add: bindW_assoc)
qed (auto simp: bindW_assoc bindW_if intro!: arg_cong [where f = "bindW _"])


text \<open>An undisturbed run of the pieces.\<close>

definition undisturbed ::
    "('g, 'd, 's, 'c) worker_env \<Rightarrow> int \<Rightarrow> loop_pc \<times> ('g, 'd, 's, 'c) worker \<times> int \<Rightarrow>
     loop_pc \<times> ('g, 'd, 's, 'c) worker \<times> int \<Rightarrow> bool" where
  "undisturbed env depth =
     (\<lambda>(pc, x) q. pc \<noteq> Finished \<and> thread_step env depth pc x = Some (Done q))\<^sup>*\<^sup>*"

text \<open>How the thread ends on a result of the sequential model.\<close>

definition ended ::
    "('g, 'd, 's, 'c) worker_env \<Rightarrow> (unit result \<times> ('g, 'd, 's, 'c) worker \<times> int) outcome option \<Rightarrow>
     ('g, 'd, 's, 'c) worker \<times> int \<Rightarrow> bool" where
  "ended env r x \<longleftrightarrow> r = Some (Done (Inr (), x)) \<or>
     (\<exists>e w n. r = Some (Done (Inl e, (w, n))) \<and> x = (record_failure env (failure_text e) w, n))"

lemma thread_stepE:
  assumes "thread_step env depth pc x = Some (Done (pc', x'))"
  obtains "loop_step env depth pc x = Some (Done (Inr pc', x'))"
    | e w n where "loop_step env depth pc x = Some (Done (Inl e, (w, n)))" "pc' = Finished"
      "x' = (record_failure env (failure_text e) w, n)"
  using assms by (auto simp: thread_step_def split: option.splits outcome.splits sum.splits prod.splits)

lemma undisturbed_resume:
  "undisturbed env depth (pc, x) (Finished, x') \<Longrightarrow> ended env (resume env depth pc x) x'"
  unfolding undisturbed_def
proof (induction "(pc, x)" arbitrary: pc x rule: converse_rtranclp_induct)
  case (step q)
  obtain pc' y where q: "q = (pc', y)" by (cases q)
  have s: "pc \<noteq> Finished" "thread_step env depth pc x = Some (Done (pc', y))" using step.hyps(1) q by auto
  have r: "resume env depth pc x = bindW (loop_step env depth pc) (resume env depth) x"
    using resume_step [OF s(1)] by (rule fun_cong)
  from s(2) show ?case
  proof (cases rule: thread_stepE)
    case 1
    then show ?thesis using step.hyps(3) [OF q] by (simp add: r bindW_def)
  next
    case (2 e w n)
    then have "y = x'" using step.hyps(2) q by (auto elim: converse_rtranclpE)
    then show ?thesis using 2 by (simp add: r bindW_def ended_def)
  qed
qed (simp add: ended_def returnW_def)


lemma loop_while_reach:
  assumes "loop_while body w = Some (Done (r, w'))"
  shows "\<exists>w1. (\<lambda>a b. body a = Some (Done (Inr True, b)))\<^sup>*\<^sup>* w w1 \<and>
    body w1 = Some (Done (case r of Inr u \<Rightarrow> Inr False | Inl e \<Rightarrow> Inl e, w'))"
proof -
  let ?P = "\<lambda>body w res. \<forall>r w'. res = Done (r, w') \<longrightarrow>
    (\<exists>w1. (\<lambda>a b. body a = Some (Done (Inr True, b)))\<^sup>*\<^sup>* w w1 \<and>
      body w1 = Some (Done (case r of Inr u \<Rightarrow> Inr False | Inl e \<Rightarrow> Inl e, w')))"
  have "?P body w (Done (r, w'))"
  proof (rule loop_while.raw_induct [OF _ assms, where P = ?P], intro allI impI)
    fix loop :: "('a \<Rightarrow> (bool result \<times> 'a) outcome option) \<Rightarrow> 'a \<Rightarrow> (unit result \<times> 'a) outcome option"
      and body w res r w'
    assume ih: "\<And>body w res. loop body w = Some res \<Longrightarrow> ?P body w res"
      and eq: "(case body w of
          None \<Rightarrow> None
        | Some (Done (Inr again, w')) \<Rightarrow> if again then loop body w' else Some (Done (Inr (), w'))
        | Some (Done (Inl e, w')) \<Rightarrow> Some (Done (Inl e, w'))
        | Some (AssertFail x) \<Rightarrow> Some (AssertFail x)
        | Some Undefined \<Rightarrow> Some Undefined) = Some res"
      and res: "res = Done (r, w')"
    show "\<exists>w1. (\<lambda>a b. body a = Some (Done (Inr True, b)))\<^sup>*\<^sup>* w w1 \<and>
      body w1 = Some (Done (case r of Inr u \<Rightarrow> Inr False | Inl e \<Rightarrow> Inl e, w'))"
    proof (cases "\<exists>w2. body w = Some (Done (Inr True, w2))")
      case True
      then obtain w2 where w2: "body w = Some (Done (Inr True, w2))" by blast
      then have "loop body w2 = Some res" using eq by simp
      from ih [OF this] res obtain w1 where
        "(\<lambda>a b. body a = Some (Done (Inr True, b)))\<^sup>*\<^sup>* w2 w1"
        "body w1 = Some (Done (case r of Inr u \<Rightarrow> Inr False | Inl e \<Rightarrow> Inl e, w'))" by blast
      then show ?thesis using converse_rtranclp_into_rtranclp [of "\<lambda>a b. body a = Some (Done (Inr True, b))" w w2 w1] w2 by blast
    next
      case False
      then have "body w = Some (Done (case r of Inr u \<Rightarrow> Inr False | Inl e \<Rightarrow> Inl e, w'))"
        using eq res by (auto split: option.splits outcome.splits sum.splits if_splits)
      then show ?thesis by blast
    qed
  qed
  then show ?thesis by simp
qed

lemma undisturbed_trans: "undisturbed env depth p q \<Longrightarrow> undisturbed env depth q r \<Longrightarrow> undisturbed env depth p r"
  unfolding undisturbed_def by (rule rtranclp_trans)

lemma undisturbed_step:
  "pc \<noteq> Finished \<Longrightarrow> thread_step env depth pc x = Some (Done q) \<Longrightarrow> undisturbed env depth (pc, x) q"
  unfolding undisturbed_def by (rule r_into_rtranclp) simp

text \<open>Where a program leads: to a place, or through a handler to the end.\<close>

definition landing ::
    "('g, 'd, 's, 'c) worker_env \<Rightarrow> loop_pc \<Rightarrow> 'a result \<Rightarrow> ('g, 'd, 's, 'c) worker \<times> int \<Rightarrow>
     loop_pc \<times> ('g, 'd, 's, 'c) worker \<times> int" where
  "landing env pc r = (\<lambda>(w, n). case r of
      Inr _ \<Rightarrow> (pc, (w, n)) | Inl e \<Rightarrow> (Finished, (record_failure env (failure_text e) w, n)))"

lemma landing_simps [simp]:
  "landing env pc (Inr u) y = (pc, y)"
  "landing env pc (Inl e) (w, n) = (Finished, (record_failure env (failure_text e) w, n))"
  by (cases y) (simp_all add: landing_def)

lemma undisturbed_piece:
  assumes "loop_step env depth pc x = bindW m (\<lambda>a. returnW (f a)) z" "pc \<noteq> Finished"
    and "m z = Some (Done (r, y))"
  shows "undisturbed env depth (pc, x) (landing env (case r of Inr a \<Rightarrow> f a | Inl e \<Rightarrow> Finished) r y)"
  using assms
  by (cases y; cases r) (auto intro!: undisturbed_step simp: thread_step_def bindW_def returnW_def)

lemma bindW_done_iff:
  "bindW m f x = Some (Done (r, y)) \<longleftrightarrow>
     (\<exists>a z. m x = Some (Done (Inr a, z)) \<and> f a z = Some (Done (r, y))) \<or>
     (\<exists>e. m x = Some (Done (Inl e, y)) \<and> r = Inl e)"
  by (auto simp: bindW_def split: option.splits outcome.splits sum.splits)


lemma undisturbed_reap:
  "reap_and_refill env now cs x = Some (Done (r, y)) \<Longrightarrow>
    undisturbed env depth (Reaping now cs, x) (landing env Drain_Head r y)"
proof (induction cs arbitrary: x)
  case Nil
  then show ?case by (auto simp: returnW_def intro!: undisturbed_step simp: thread_step_def)
next
  case (Cons c cs)
  define m where "m = bindW (counted (lift_outcome (record_completion env c now))) (\<lambda>_.
     bindW (add_in_flight (- 1)) (\<lambda>_.
     bindW (counted (load_running env)) (\<lambda>running.
       if running then submit_counted env else returnW ())))"
  have l: "loop_step env depth (Reaping now (c # cs)) = bindW m (\<lambda>_. returnW (Reaping now cs))"
    by (simp add: m_def bindW_assoc)
  have "reap_and_refill env now (c # cs) = bindW m (\<lambda>_. reap_and_refill env now cs)"
    by (simp add: m_def bindW_assoc)
  then consider u z where "m x = Some (Done (Inr u, z))" "reap_and_refill env now cs z = Some (Done (r, y))"
    | e where "m x = Some (Done (Inl e, y))" "r = Inl e"
    using Cons.prems by (auto simp: bindW_done_iff)
  then show ?case
  proof cases
    case 1
    show ?thesis
      using undisturbed_piece [OF fun_cong [OF l] _ 1(1)] Cons.IH [OF 1(2)] by (auto intro: undisturbed_trans)
  next
    case 2
    show ?thesis using undisturbed_piece [OF fun_cong [OF l] _ 2(1)] 2(2) by (cases y) simp
  qed
qed

lemma undisturbed_prefill:
  "prefill env k x = Some (Done (r, y)) \<Longrightarrow>
    undisturbed env depth (Prefilling k, x) (landing env Drain_Head r y)"
proof (induction k arbitrary: x)
  case 0
  then show ?case by (auto simp: returnW_def intro!: undisturbed_step simp: thread_step_def)
next
  case (Suc k)
  define m where "m = bindW (counted (load_running env)) (\<lambda>running.
       if running then bindW (submit_counted env) (\<lambda>_. returnW True) else returnW False)"
  have l: "loop_step env depth (Prefilling (Suc k)) = bindW m (\<lambda>b. returnW (if b then Prefilling k else Drain_Head))"
    by (auto simp: m_def bindW_assoc bindW_if intro!: arg_cong [where f = "bindW _"])
  have "prefill env (Suc k) = bindW m (\<lambda>b. if b then prefill env k else returnW ())"
    by (auto simp: m_def bindW_assoc bindW_if intro!: arg_cong [where f = "bindW _"])
  then consider z where "m x = Some (Done (Inr True, z))" "prefill env k z = Some (Done (r, y))"
    | "m x = Some (Done (Inr False, y))" "r = Inr ()"
    | e where "m x = Some (Done (Inl e, y))" "r = Inl e"
    using Suc.prems by (auto simp: bindW_done_iff returnW_def split: if_splits)
  then show ?case
  proof cases
    case 1
    show ?thesis
      using undisturbed_piece [OF fun_cong [OF l] _ 1(1)] Suc.IH [OF 1(2)] by (auto intro: undisturbed_trans)
  next
    case 2
    show ?thesis using undisturbed_piece [OF fun_cong [OF l] _ 2(1)] 2(2) by simp
  next
    case 3
    show ?thesis using undisturbed_piece [OF fun_cong [OF l] _ 3(1)] 3(2) by (cases y) simp
  qed
qed


lemma bindW_TrueD:
  assumes "bindW m (\<lambda>_. returnW True) x = Some (Done (r, y))"
  shows "\<exists>r'. m x = Some (Done (r', y)) \<and> r = map_sum id (\<lambda>_. True) r'"
  using assms unfolding bindW_done_iff returnW_def
  by (auto intro: exI [of _ "Inr _"] exI [of _ "Inl _"])

lemma undisturbed_drain:
  assumes "async_iteration env depth x = Some (Done (r, y))"
  shows "undisturbed env depth (Drain_Head, x)
    (landing env (case r of Inr True \<Rightarrow> Drain_Head | _ \<Rightarrow> Finished) r y)"
proof -
  define poll where "poll = bindW (counted (engine_call (eo_poll (we_ops env) 1 depth))) (\<lambda>cs.
    bindW (counted (read_clock env)) (\<lambda>now. returnW (now, cs)))"
  obtain w0 n where x: "x = (w0, n)" by (cases x)
  obtain running w where l: "counted (load_running env) x = Some (Done (Inr running, (w, n)))"
    by (cases "we_running env (wk_env w0)") (auto simp: counted_def load_running_def x)
  show ?thesis
  proof (cases "running \<or> n > 0")
    case True
    have s: "loop_step env depth Drain_Head x = bindW poll (\<lambda>a. returnW (case a of (now, cs) \<Rightarrow> Reaping now cs)) (w, n)"
      using True by (simp add: bindW_done [where m = "counted (load_running env)", OF l] poll_def bindW_assoc)
    have "async_iteration env depth x =
        bindW poll (\<lambda>(now, cs). bindW (reap_and_refill env now cs) (\<lambda>_. returnW True)) (w, n)"
      using True by (simp add: async_iteration_def bindW_done [where m = "counted (load_running env)", OF l] poll_def bindW_assoc)
    with assms have "bindW poll (\<lambda>(now, cs). bindW (reap_and_refill env now cs) (\<lambda>_. returnW True)) (w, n) =
        Some (Done (r, y))" by simp
    then consider now cs z r' where "poll (w, n) = Some (Done (Inr (now, cs), z))"
        "reap_and_refill env now cs z = Some (Done (r', y))" "r = map_sum id (\<lambda>_. True) r'"
      | e where "poll (w, n) = Some (Done (Inl e, y))" "r = Inl e"
      unfolding bindW_done_iff [of poll] by (fastforce dest!: bindW_TrueD)
    then show ?thesis
    proof cases
      case 1
      have "undisturbed env depth (Drain_Head, x) (Reaping now cs, z)"
        using undisturbed_piece [OF s _ 1(1)] by simp
      moreover have "landing env Drain_Head r' y = landing env (case r of Inr True \<Rightarrow> Drain_Head | _ \<Rightarrow> Finished) r y"
        using 1(3) by (cases r'; cases y) auto
      ultimately show ?thesis using undisturbed_reap [OF 1(2), of depth] by (metis undisturbed_trans)
    next
      case 2
      then show ?thesis using undisturbed_piece [OF s _ 2(1)] by (cases y) simp
    qed
  next
    case False
    have "r = Inr False" "y = (w, n)"
      using False assms by (simp_all add: async_iteration_def bindW_done [where m = "counted (load_running env)", OF l] returnW_def)
    moreover have "thread_step env depth Drain_Head x = Some (Done (Finished, (w, n)))"
      using False by (simp add: thread_step_def bindW_done [where m = "counted (load_running env)", OF l] returnW_def)
    ultimately show ?thesis by (auto intro: undisturbed_step)
  qed
qed

lemma undisturbed_loop:
  assumes "\<And>x r y. body x = Some (Done (r, y)) \<Longrightarrow>
      undisturbed env depth (pc, x) (landing env (case r of Inr True \<Rightarrow> pc | _ \<Rightarrow> Finished) r y)"
    and "loop_while body x = Some (Done (r, y))"
  shows "undisturbed env depth (pc, x) (landing env Finished r y)"
proof -
  obtain z where z: "(\<lambda>a b. body a = Some (Done (Inr True, b)))\<^sup>*\<^sup>* x z"
    "body z = Some (Done (case r of Inr u \<Rightarrow> Inr False | Inl e \<Rightarrow> Inl e, y))"
    using loop_while_reach [OF assms(2)] by blast
  have "undisturbed env depth (pc, x) (pc, z)" using z(1)
  proof (induction rule: rtranclp_induct)
    case base
    show ?case by (simp add: undisturbed_def)
  next
    case (step a b)
    then show ?case using assms(1) [of a "Inr True" b] by (auto intro: undisturbed_trans)
  qed
  moreover have "undisturbed env depth (pc, z) (landing env Finished r y)"
    using assms(1) [OF z(2)] by (cases r; cases y) auto
  ultimately show ?thesis by (rule undisturbed_trans)
qed


lemma undisturbed_sync:
  assumes "counted (sync_iteration env) x = Some (Done (r, y))"
  shows "undisturbed env depth (Sync_Head, x)
    (landing env (case r of Inr True \<Rightarrow> Sync_Head | _ \<Rightarrow> Finished) r y)"
proof -
  have "landing env (case r of Inr again \<Rightarrow> if again then Sync_Head else Finished | Inl e \<Rightarrow> Finished) r y =
      landing env (case r of Inr True \<Rightarrow> Sync_Head | _ \<Rightarrow> Finished) r y"
    by (auto split: sum.splits bool.splits)
  then show ?thesis
    using undisturbed_piece [OF fun_cong [OF loop_step.simps(1)] _ assms, of depth] by simp
qed

lemma counted_loop_reach:
  assumes "counted (loop_while body) x = Some (Done (r, y))"
  shows "\<exists>z. (\<lambda>a b. counted body a = Some (Done (Inr True, b)))\<^sup>*\<^sup>* x z \<and>
    counted body z = Some (Done (case r of Inr u \<Rightarrow> Inr False | Inl e \<Rightarrow> Inl e, y))"
proof -
  obtain w n w' where x: "x = (w, n)" "y = (w', n)" "loop_while body w = Some (Done (r, w'))"
    using assms by (cases x) (auto simp: counted_def split: option.splits outcome.splits)
  obtain w1 where w1: "(\<lambda>a b. body a = Some (Done (Inr True, b)))\<^sup>*\<^sup>* w w1"
    "body w1 = Some (Done (case r of Inr u \<Rightarrow> Inr False | Inl e \<Rightarrow> Inl e, w'))"
    using loop_while_reach [OF x(3)] by blast
  have "(\<lambda>a b. counted body a = Some (Done (Inr True, b)))\<^sup>*\<^sup>* (w, n) (w1, n)" using w1(1)
    by (induction rule: rtranclp_induct) (auto simp: counted_def intro: rtranclp.rtrancl_into_rtrancl)
  moreover have "counted body (w1, n) = Some (Done (case r of Inr u \<Rightarrow> Inr False | Inl e \<Rightarrow> Inl e, y))"
    by (simp add: counted_def w1(2) x(2))
  ultimately show ?thesis unfolding x(1) by blast
qed

lemma undisturbed_then_drain:
  assumes "\<And>r y. m x = Some (Done (r, y)) \<Longrightarrow> undisturbed env depth (pc, x) (landing env Drain_Head r y)"
    and "bindW m (\<lambda>_. loop_while (async_iteration env depth)) x = Some (Done (r, y))"
  shows "undisturbed env depth (pc, x) (landing env Finished r y)"
  using assms(2) unfolding bindW_done_iff
proof (elim disjE exE conjE)
  fix u z assume m: "m x = Some (Done (Inr u, z))" and l: "loop_while (async_iteration env depth) z = Some (Done (r, y))"
  from assms(1) [OF m] undisturbed_loop [OF undisturbed_drain l] show ?thesis
    by (auto intro: undisturbed_trans)
next
  fix e assume m: "m x = Some (Done (Inl e, y))" and r: "r = Inl e"
  from assms(1) [OF m] show ?thesis unfolding r by (cases y) simp
qed

lemma resume_undisturbed:
  assumes "resume env depth pc x = Some (Done (r, y))"
  shows "undisturbed env depth (pc, x) (landing env Finished r y)"
proof (cases pc)
  case Sync_Head
  from assms obtain z where z: "(\<lambda>a b. counted (sync_iteration env) a = Some (Done (Inr True, b)))\<^sup>*\<^sup>* x z"
    "counted (sync_iteration env) z = Some (Done (case r of Inr u \<Rightarrow> Inr False | Inl e \<Rightarrow> Inl e, y))"
    using counted_loop_reach [of "sync_iteration env" x r y] by (auto simp: Sync_Head run_sync_loop_def)
  have "undisturbed env depth (Sync_Head, x) (Sync_Head, z)" using z(1)
  proof (induction rule: rtranclp_induct)
    case (step a b)
    then show ?case using undisturbed_sync [of env a "Inr True" b depth] by (auto intro: undisturbed_trans)
  qed (simp add: undisturbed_def)
  moreover have "undisturbed env depth (Sync_Head, z) (landing env Finished r y)"
    using undisturbed_sync [OF z(2), of depth] by (cases r; cases y) auto
  ultimately show ?thesis unfolding Sync_Head by (rule undisturbed_trans)
next
  case (Prefilling k)
  show ?thesis unfolding Prefilling
    by (rule undisturbed_then_drain [OF undisturbed_prefill assms [unfolded Prefilling resume.simps]])
next
  case Drain_Head
  show ?thesis unfolding Drain_Head
    by (rule undisturbed_loop [OF undisturbed_drain assms [unfolded Drain_Head resume.simps]])
next
  case (Reaping now cs)
  show ?thesis unfolding Reaping
    by (rule undisturbed_then_drain [OF undisturbed_reap assms [unfolded Reaping resume.simps]])
next
  case Finished
  then show ?thesis using assms by (auto simp: returnW_def undisturbed_def)
qed


section \<open>The pieces are the thread\<close>

lemma ended_landing:
  "ended env q x \<longleftrightarrow> (\<exists>r y. q = Some (Done (r, y)) \<and> landing env Finished r y = (Finished, x))"
  by (cases x) (auto simp: ended_def landing_def split_sum_ex split: prod.split)

lemma worker_run_ended:
  "worker_run env w = Some (Done w') \<longleftrightarrow>
    (\<exists>n. ended env (resume env (effective_iodepth (wk_config w)) (first_pc (wk_config w)) (w, 0)) (w', n))"
proof -
  have catch: "(case q of None \<Rightarrow> None
      | Some (Done (Inr _, w1)) \<Rightarrow> Some (Done w1)
      | Some (Done (Inl NonStdError, w1)) \<Rightarrow> Some (Done (record_failure env ''unknown exception'' w1))
      | Some (Done (Inl e, w1)) \<Rightarrow> Some (Done (record_failure env (what e) w1))
      | Some (AssertFail x) \<Rightarrow> Some (AssertFail x)
      | Some Undefined \<Rightarrow> Some Undefined) = Some (Done w') \<longleftrightarrow>
     q = Some (Done (Inr (), w')) \<or>
     (\<exists>e w1. q = Some (Done (Inl e, w1)) \<and> w' = record_failure env (failure_text e) w1)" for q
    by (auto simp: failure_text_def split: option.splits outcome.splits sum.splits exn.splits)
  show ?thesis
  proof (cases "effective_iodepth (wk_config w) = 1")
    case True
    then show ?thesis
      unfolding worker_run_def catch
      by (auto simp: ended_def first_pc_def counted_def split: option.splits outcome.splits)
  next
    case False
    then show ?thesis
      unfolding worker_run_def catch
      by (auto simp: ended_def first_pc_def run_async_loop_def Let_def split: option.splits outcome.splits)
  qed
qed



end
