(* ===== verification/Thread_Invariant.thy ===== *)
theory Thread_Invariant
  imports Thread_Steps
begin

text \<open>
  What holds between any two pieces of the thread of a worker (\<open>src/telemetry/worker_thread.cpp\<close>): the
  invariant of the sequential model place by place, and the measure that shrinks once the flag is
  cleared.
\<close>

section \<open>The invariant\<close>

definition finished_worker ::
    "('s \<Rightarrow> (u64 \<Rightarrow> submit_info option) \<Rightarrow> bool) \<Rightarrow> job_config \<Rightarrow> ('g, 'd, 's, 'c) worker \<Rightarrow> bool" where
  "finished_worker rep config w \<longleftrightarrow>
     wk_config w = config \<and> (\<exists>entries. accounted w entries) \<and>
     (\<not> wk_failed w \<longrightarrow> held (wk_pool w) = {} \<and> rep (wk_engine w) Map.empty)"

fun thread_inv ::
    "('g, 'd, 's, 'c) worker_env \<Rightarrow> ('s \<Rightarrow> (u64 \<Rightarrow> submit_info option) \<Rightarrow> bool) \<Rightarrow> nat \<Rightarrow> job_config \<Rightarrow>
     loop_pc \<Rightarrow> ('g, 'd, 's, 'c) worker \<times> int \<Rightarrow> bool" where
  "thread_inv env rep D config Sync_Head x = (D = 1 \<and> counting env rep D config [] 0 x)"
| "thread_inv env rep D config (Prefilling k) x = (\<exists>j. counting env rep D config [] j x \<and> j + k \<le> D)"
| "thread_inv env rep D config Drain_Head x = (\<exists>j. counting env rep D config [] j x)"
| "thread_inv env rep D config (Reaping now cs) x = (\<exists>j. counting env rep D config (map cp_id cs) j x)"
| "thread_inv env rep D config Finished x = finished_worker rep config (fst x)"

lemma counting_finished:
  assumes "counting env rep D config [] 0 (w, n)"
  shows "finished_worker rep config w"
proof -
  have w: "working env rep D config [] 0 w" using assms by (simp add: counting_def)
  then obtain p where p: "rep (wk_engine w) p" "ucast ` held (wk_pool w) = dom p"
    by (auto simp: working_def)
  from w have h: "held (wk_pool w) = {}" by (simp add: working_def)
  with p(2) have "dom p = {}" by simp
  then have "rep (wk_engine w) Map.empty" using p(1) by simp
  with w h show ?thesis by (simp add: finished_worker_def working_def)
qed

lemma counting_config: "counting env rep D config rest j (w, n) \<Longrightarrow> wk_config w = config"
  by (simp add: counting_def working_def)

lemma stopped_finished:
  assumes "stopped_counting env rep D config (w, n)"
  shows "finished_worker rep config (record_failure env m w)"
proof -
  obtain entries where "accounted w entries" "wk_config w = config"
    using assms by (auto simp: stopped_counting_def stopped_def working_def)
  then have "accounted (record_failure env m w) entries" "wk_config (record_failure env m w) = config"
    "wk_failed (record_failure env m w)"
    by (simp_all add: record_failure_def accounted_def)
  then show ?thesis by (auto simp: finished_worker_def)
qed

text \<open>From the loop to the thread: the handlers keep what was counted.\<close>

lemma thread_step_inv:
  assumes "safe (\<lambda>pc'. thread_inv env rep D config pc') (stopped_counting env rep D config) (loop_step env depth pc x)"
  shows "case thread_step env depth pc x of
      None \<Rightarrow> True | Some (Done (pc', x')) \<Rightarrow> thread_inv env rep D config pc' x'
    | Some (AssertFail a) \<Rightarrow> False | Some Undefined \<Rightarrow> False"
  using assms
  by (cases rule: safe_cases) (auto simp: thread_step_def stopped_finished split: prod.splits)

lemma reap_step_eq:
  assumes "record_completion env c now w = Done w1"
  shows "loop_step env depth (Reaping now (c # cs)) (w, n) =
    bindW (counted (load_running env)) (\<lambda>running.
      bindW (if running then submit_counted env else returnW ()) (\<lambda>_. returnW (Reaping now cs))) (w1, n - 1)"
proof -
  have "counted (lift_outcome (record_completion env c now)) (w, n) = Some (Done (Inr (), (w1, n)))"
    "add_in_flight (- 1) (w1, n) = Some (Done (Inr (), (w1, n - 1)))"
    by (simp_all add: counted_def lift_outcome_def assms add_in_flight_def)
  then show ?thesis by (simp add: bindW_done)
qed

context io_engine
begin

lemma drain_safe:
  assumes "we_ops env = ops" "counting env rep D config [] j x"
  shows "safe (\<lambda>pc'. thread_inv env rep D config pc') (stopped_counting env rep D config)
    (loop_step env depth Drain_Head x)"
  unfolding loop_step.simps using safe_counted_load [OF assms(2)]
proof (rule safe_bindW)
  fix running y assume y: "counting env rep D config [] j y"
  obtain w n where yw: "y = (w, n)" "working env rep D config [] j w" "n = int j"
    using y by (auto simp: counting_def)
  have "safe (\<lambda>pc'. thread_inv env rep D config pc') (stopped_counting env rep D config)
      (bindW (counted (engine_call (eo_poll (we_ops env) 1 depth))) (\<lambda>cs.
         bindW (counted (read_clock env)) (\<lambda>now. returnW (Reaping now cs))) (w, n))"
  proof (rule safe_bindW)
    show "safe (\<lambda>cs. counting env rep D config (map cp_id cs) j) (stopped_counting env rep D config)
        (counted (engine_call (eo_poll (we_ops env) 1 depth)) (w, n))"
      using poll_safe [OF assms(1) yw(2), of 1 depth] yw(3)
      by (intro safe_counted) (simp add: counting_def stopped_counting_def)
    fix cs :: "io_completion list" and z assume "counting env rep D config (map cp_id cs) j z"
    from safe_counted_clock [OF this]
    show "safe (\<lambda>pc'. thread_inv env rep D config pc') (stopped_counting env rep D config)
        (bindW (counted (read_clock env)) (\<lambda>now. returnW (Reaping now cs)) z)"
      by (rule safe_bindW) auto
  qed
  moreover have "finished_worker rep config w" if "\<not> n > 0"
    using that y yw by (intro counting_finished [of env rep D config w n]) simp
  ultimately show "safe (\<lambda>pc'. thread_inv env rep D config pc') (stopped_counting env rep D config)
      ((case y of (w, n) \<Rightarrow>
         if running \<or> n > 0
         then bindW (counted (engine_call (eo_poll (we_ops env) 1 depth))) (\<lambda>cs.
              bindW (counted (read_clock env)) (\<lambda>now. returnW (Reaping now cs))) (w, n)
         else returnW Finished (w, n)))"
    using yw(1) by auto
qed

lemma prefill_step_safe:
  assumes "we_ops env = ops" "counting env rep D config [] j x" "j + Suc k \<le> D"
  shows "safe (\<lambda>pc'. thread_inv env rep D config pc') (stopped_counting env rep D config)
    (loop_step env depth (Prefilling (Suc k)) x)"
  unfolding loop_step.simps using safe_counted_load [OF assms(2)]
proof (rule safe_bindW)
  fix running y assume y: "counting env rep D config [] j y"
  have "safe (\<lambda>_. counting env rep D config [] (Suc j)) (stopped_counting env rep D config) (submit_counted env y)"
    using submit_counted_safe [OF assms(1) y] assms(3) by simp
  then have "safe (\<lambda>pc'. thread_inv env rep D config pc') (stopped_counting env rep D config)
      (bindW (submit_counted env) (\<lambda>_. returnW (Prefilling k)) y)"
    by (rule safe_bindW) (use assms(3) in auto)
  then show "safe (\<lambda>pc'. thread_inv env rep D config pc') (stopped_counting env rep D config)
      ((if running then bindW (submit_counted env) (\<lambda>_. returnW (Prefilling k)) else returnW Drain_Head) y)"
    using y by auto
qed

lemma reap_step_safe:
  assumes "we_ops env = ops" "counting env rep D config (cp_id c # map cp_id cs) j x"
  shows "safe (\<lambda>pc'. thread_inv env rep D config pc') (stopped_counting env rep D config)
    (loop_step env depth (Reaping now (c # cs)) x)"
proof -
  let ?rest = "map cp_id cs" and ?E = "stopped_counting env rep D config"
  obtain w n where x: "x = (w, n)" "working env rep D config (cp_id c # ?rest) j w" "n = int j"
    using assms(2) by (auto simp: counting_def)
  obtain w1 where w1: "record_completion env c now w = Done w1" "1 \<le> j"
    "working env rep D config ?rest (j - 1) w1"
    using record_completion_working [OF x(2)] by blast
  have jD: "j \<le> D" by (rule working_le [OF x(2)])
  have c1: "counting env rep D config ?rest (j - 1) (w1, n - 1)" using w1 x(3) by (simp add: counting_def)
  show ?thesis
    unfolding x(1) reap_step_eq [OF w1(1)]
    using safe_counted_load [OF c1]
  proof (rule safe_bindW)
    fix running x2 assume x2: "counting env rep D config ?rest (j - 1) x2"
    have "safe (\<lambda>_ x3. \<exists>j'. counting env rep D config ?rest j' x3) ?E
        ((if running then submit_counted env else returnW ()) x2)"
    proof (cases running)
      case True
      have "safe (\<lambda>_. counting env rep D config ?rest (Suc (j - 1))) ?E (submit_counted env x2)"
        using submit_counted_safe [OF assms(1) x2] w1(2) jD by simp
      then have "safe (\<lambda>_ x3. \<exists>j'. counting env rep D config ?rest j' x3) ?E (submit_counted env x2)"
        by (rule safe_mono) blast
      with True show ?thesis by simp
    qed (use x2 in auto)
    then show "safe (\<lambda>pc'. thread_inv env rep D config pc') ?E
        (bindW (if running then submit_counted env else returnW ()) (\<lambda>_. returnW (Reaping now cs)) x2)"
      by (rule safe_bindW) auto
  qed
qed

end

text \<open>Every piece of a thread keeps the invariant, over any engine that keeps its contract.\<close>

lemma loop_step_safe:
  assumes "io_engine (we_ops env) rep" "D = 1 \<Longrightarrow> prompt_engine (we_ops env) rep"
    and "thread_inv env rep D config pc x"
  shows "safe (\<lambda>pc'. thread_inv env rep D config pc') (stopped_counting env rep D config) (loop_step env depth pc x)"
proof (cases "(env, depth, pc)" rule: loop_step.cases)
  case (1 env' depth')
  then have pc: "pc = Sync_Head" by simp
  obtain w n where x: "x = (w, n)" "working env rep D config [] 0 w" "n = 0" "D = 1"
    using assms(3) by (cases x) (auto simp: pc counting_def)
  have "safe (\<lambda>_. counting env rep D config [] 0) (stopped_counting env rep D config)
      (counted (sync_iteration env) x)"
    using prompt_engine.sync_iteration_safe [OF assms(2) [OF x(4)] refl x(2)] x
    by (auto simp: counting_def stopped_counting_def intro!: safe_counted)
  then show ?thesis
    unfolding pc loop_step.simps by (rule safe_bindW) (use x(4) in \<open>auto intro: counting_finished\<close>)
next
  case (3 env' depth' k)
  then have pc: "pc = Prefilling (Suc k)" by simp
  obtain j where "counting env rep D config [] j x" "j + Suc k \<le> D" using assms(3) by (auto simp: pc)
  then show ?thesis unfolding pc by (rule io_engine.prefill_step_safe [OF assms(1) refl])
next
  case (4 env' depth')
  then have pc: "pc = Drain_Head" by simp
  obtain j where "counting env rep D config [] j x" using assms(3) by (auto simp: pc)
  then show ?thesis unfolding pc by (rule io_engine.drain_safe [OF assms(1) refl])
next
  case (6 env' depth' now c cs)
  then have pc: "pc = Reaping now (c # cs)" by simp
  obtain j where "counting env rep D config (cp_id c # map cp_id cs) j x" using assms(3) by (auto simp: pc)
  then show ?thesis unfolding pc by (rule io_engine.reap_step_safe [OF assms(1) refl])
qed (use assms(3) in auto)

section \<open>The flag\<close>

text \<open>
  An environment whose state holds the value of \<open>g_running\<close> that the thread sees, beside what its clock
  needs: a load reads it, \<open>RecordFailure\<close> clears it, and nothing else in the thread touches it.
\<close>

definition flag_env :: "('g, 'd, 's, bool \<times> 'k) worker_env \<Rightarrow> bool" where
  "flag_env env \<longleftrightarrow> (\<forall>b k. we_running env (b, k) = (b, (b, k)) \<and> \<not> fst (we_stop env (b, k)) \<and>
     fst (snd (we_now env (b, k))) = b)"

definition sees :: "('g, 'd, 's, bool \<times> 'k) worker \<Rightarrow> bool \<times> bool" where
  "sees w = (fst (wk_env w), wk_failed w)"

definition frame :: "('w \<Rightarrow> 'b) \<Rightarrow> ('w, 'a) wprog \<Rightarrow> bool" where
  "frame p m \<longleftrightarrow> (\<forall>w r w'. m w = Some (Done (r, w')) \<longrightarrow> p w' = p w)"

lemma frameD: "frame p m \<Longrightarrow> m w = Some (Done (r, w')) \<Longrightarrow> p w' = p w"
  unfolding frame_def by blast

lemma frame_returnW [simp]: "frame p (returnW a)"
  by (simp add: frame_def returnW_def)

lemma frame_bindW [intro]: "frame p m \<Longrightarrow> (\<And>a. frame p (f a)) \<Longrightarrow> frame p (bindW m f)"
  unfolding frame_def bindW_done_iff by metis

lemma frame_counted [intro]: "frame p m \<Longrightarrow> frame (\<lambda>(w, n). p w) (counted m)"
  by (fastforce simp: frame_def counted_def split: option.splits outcome.splits)

lemma frame_add_in_flight [simp]: "frame (\<lambda>(w, n). p w) (add_in_flight d)"
  by (auto simp: frame_def add_in_flight_def)

lemma frame_case [intro]: "(\<And>w n. frame p (f w n)) \<Longrightarrow> frame p (\<lambda>(w, n). f w n (w, n))"
  by (fastforce simp: frame_def)

lemma frame_if [intro]: "frame p m \<Longrightarrow> frame p m' \<Longrightarrow> frame p (if b then m else m')"
  by simp

lemma frame_lift_outcome: "(\<And>w w'. f w = Done w' \<Longrightarrow> p w' = p w) \<Longrightarrow> frame p (lift_outcome f)"
  by (auto simp: frame_def lift_outcome_def bindO_def split: outcome.splits)

lemma sees_upd [simp]:
  "sees (w\<lparr>wk_pool := a\<rparr>) = sees w" "sees (w\<lparr>wk_engine := b\<rparr>) = sees w"
  "sees (w\<lparr>wk_histogram := c\<rparr>) = sees w" "sees (w\<lparr>wk_iops_count := d\<rparr>) = sees w"
  "sees (w\<lparr>wk_bytes_transferred := d\<rparr>) = sees w" "sees (w\<lparr>wk_read_error_count := d\<rparr>) = sees w"
  "sees (w\<lparr>wk_write_error_count := d\<rparr>) = sees w" "sees (w\<lparr>wk_offset_gen := e\<rparr>) = sees w"
  "sees (w\<lparr>wk_direction_decider := f\<rparr>) = sees w"
  by (simp_all add: sees_def)

lemma frame_engine_call: "frame sees (engine_call m)"
  by (auto simp: frame_def engine_call_def split: option.splits)

lemma release_slot_sees: "release_slot env i w = Done w' \<Longrightarrow> sees w' = sees w"
  by (auto simp: release_slot_def bindO_def split: outcome.splits)

lemma record_completion_sees: "record_completion env c now w = Done w' \<Longrightarrow> sees w' = sees w"
  unfolding record_completion_def Let_def by (drule release_slot_sees) (simp split: if_splits)

lemma record_each_sees: "record_each env now cs w = Done w' \<Longrightarrow> sees w' = sees w"
  by (induction cs arbitrary: w) (auto simp: bindO_def dest!: record_completion_sees split: outcome.splits)

lemma generate_next_io_sees: "generate_next_io env w = Done (rq, w') \<Longrightarrow> sees w' = sees w"
  by (auto simp: generate_next_io_def bindO_def split: outcome.splits prod.splits)

lemma frame_read_clock: "flag_env env \<Longrightarrow> frame sees (read_clock env)"
  by (auto simp: frame_def read_clock_def flag_env_def sees_def split: prod.splits) (metis prod.collapse snd_conv fst_conv)+

lemma load_running_flag:
  "flag_env env \<Longrightarrow> load_running env w = Some (Done (Inr (fst (wk_env w)), w))"
  by (cases w; cases "wk_env w") (simp add: load_running_def flag_env_def)

lemma frame_submit_one:
  assumes "flag_env env"
  shows "frame sees (submit_one env)"
proof -
  have m: "frame sees (\<lambda>w. case engine_call (eo_submit (we_ops env) rq) w of
      Some (Done (Inl e, w3)) \<Rightarrow> (case release_slot env (rq_id rq) w3 of
          Done w4 \<Rightarrow> Some (Done (Inl e, w4)) | AssertFail x \<Rightarrow> Some (AssertFail x) | Undefined \<Rightarrow> Some Undefined)
    | r \<Rightarrow> r)" for rq
    using frame_engine_call [of "eo_submit (we_ops env) rq"]
    by (fastforce simp: frame_def dest: release_slot_sees split: option.splits outcome.splits sum.splits)
  show ?thesis
    unfolding frame_def submit_one_def Let_def
    using frame_bindW [OF frame_read_clock [OF assms] m]
    by (auto simp: frame_def dest!: generate_next_io_sees split: outcome.splits)
qed


lemma frame_load_running: "flag_env env \<Longrightarrow> frame sees (load_running env)"
  by (simp add: frame_def load_running_flag)

lemma frame_record_completion: "frame sees (lift_outcome (record_completion env c now))"
  by (rule frame_lift_outcome) (rule record_completion_sees)

lemma frame_record_each: "frame sees (lift_outcome (record_each env now cs))"
  by (rule frame_lift_outcome) (rule record_each_sees)

lemmas frames = frame_bindW frame_counted frame_engine_call frame_returnW frame_if
  frame_record_completion frame_record_each frame_add_in_flight

lemma frame_sync_iteration:
  assumes "flag_env env"
  shows "frame sees (sync_iteration env)"
  unfolding sync_iteration_def
  by (intro frames frame_load_running frame_submit_one frame_read_clock assms)

lemma frame_submit_counted: "flag_env env \<Longrightarrow> frame (\<lambda>(w, n). sees w) (submit_counted env)"
  unfolding submit_counted_def by (intro frames frame_submit_one) auto

lemma frame_loop_step:
  assumes "flag_env env"
  shows "frame (\<lambda>(w, n). sees w) (loop_step env depth pc)"
proof (cases "(env, depth, pc)" rule: loop_step.cases)
  case (4 env' depth')
  let ?poll = "bindW (counted (engine_call (eo_poll (we_ops env) 1 depth))) (\<lambda>completions.
            bindW (counted (read_clock env)) (\<lambda>now. returnW (Reaping now completions)))"
  have "frame (\<lambda>(w, n). sees w) ?poll" by (intro frames frame_read_clock assms)
  then have "frame (\<lambda>(w, n). sees w) (\<lambda>(w, n). if running \<or> n > 0 then ?poll (w, n) else returnW Finished (w, n))"
    for running :: bool
    by (auto simp: frame_def returnW_def dest: frameD split: if_splits)
  then show ?thesis using 4 frame_load_running [OF assms] by (auto intro!: frames)
qed (auto intro!: frames frame_load_running frame_submit_counted frame_sync_iteration assms)

text \<open>
  What a piece does to the flag: nothing, unless it fails, which clears it; and without a failure
  the thread ends only where it saw the flag cleared.
\<close>

lemma loop_step_ends:
  assumes "flag_env env" "loop_step env depth pc (w, n) = Some (Done (Inr Finished, y))" "pc \<noteq> Finished"
  shows "\<not> fst (wk_env w)"
  using assms(3)
proof (cases "(env, depth, pc)" rule: loop_step.cases)
  case (1 env' depth')
  then have "sync_iteration env w = Some (Done (Inr False, fst y))"
    using assms(2) by (auto simp: bindW_done_iff counted_def returnW_def split: if_splits option.splits outcome.splits)
  then show ?thesis
    using load_running_flag [OF assms(1), of w]
    by (auto simp: sync_iteration_def bindW_done_iff returnW_def split: if_splits)
next
  case (3 env' depth' k)
  then show ?thesis using assms(2) by (auto simp: bindW_done_iff returnW_def split: if_splits)
next
  case (4 env' depth')
  then show ?thesis
    using assms(2) load_running_flag [OF assms(1), of w]
    by (auto simp: bindW_done_iff returnW_def counted_def split: if_splits)
next
  case (6 env' depth' now c cs)
  then show ?thesis using assms(2) by (auto simp: bindW_done_iff returnW_def)
qed (use assms(2) in \<open>auto simp: returnW_def\<close>)

lemma thread_step_flag:
  assumes "flag_env env" "thread_step env depth pc (w, n) = Some (Done (pc', (w', n')))" "pc \<noteq> Finished"
  shows "(sees w' = sees w \<and> (pc' = Finished \<longrightarrow> \<not> fst (wk_env w))) \<or>
    (pc' = Finished \<and> wk_failed w' \<and> \<not> fst (wk_env w'))"
  using assms(2)
proof (cases rule: thread_stepE)
  case 1
  then have "sees w' = sees w"
    using frameD [OF frame_loop_step [OF assms(1)] 1] by simp
  with 1 show ?thesis using loop_step_ends [OF assms(1) _ assms(3)] by auto
next
  case (2 e w1 n1)
  then show ?thesis
    using assms(1) by (cases "wk_env w1") (auto simp: record_failure_def flag_env_def)
qed


section \<open>After the flag is cleared\<close>

text \<open>The pieces a thread can still run.\<close>

fun thread_rank :: "loop_pc \<Rightarrow> int \<Rightarrow> nat" where
  "thread_rank Sync_Head n = 1"
| "thread_rank (Prefilling k) n = 3 * nat n + 2"
| "thread_rank Drain_Head n = 3 * nat n + 1"
| "thread_rank (Reaping now cs) n = 3 * (nat n - length cs) + 2 + length cs"
| "thread_rank Finished n = 0"

lemma rank_positive: "pc \<noteq> Finished \<Longrightarrow> 0 < thread_rank pc n"
  by (cases pc) simp_all

lemma counting_rest:
  assumes "counting env rep D config (map cp_id cs) j (w, n)"
  shows "length cs \<le> j" "n = int j"
proof -
  have d: "distinct (map cp_id cs)" "set (map cp_id cs) \<subseteq> ucast ` held (wk_pool w)" "card (held (wk_pool w)) = j"
    using assms by (auto simp: counting_def working_def)
  have "length cs = card (set (map cp_id cs))" using d(1) by (metis distinct_card length_map)
  also have "\<dots> \<le> card (ucast ` held (wk_pool w) :: u64 set)" using d(2) by (intro card_mono) auto
  also have "\<dots> \<le> j" using d(3) card_image_le [of "held (wk_pool w)" "ucast :: u32 \<Rightarrow> u64"] by simp
  finally show "length cs \<le> j" .
  show "n = int j" using assms by (simp add: counting_def)
qed

lemma load_cleared:
  "flag_env env \<Longrightarrow> \<not> fst (wk_env w) \<Longrightarrow> counted (load_running env) (w, n) = Some (Done (Inr False, (w, n)))"
  by (simp add: counted_def load_running_flag)

lemma returnW_done_iff: "returnW a x = Some (Done (r, y)) \<longleftrightarrow> r = Inr a \<and> y = x"
  by (auto simp: returnW_def)

lemma counted_done_iff:
  "counted m (w, n) = Some (Done (r, y)) \<longleftrightarrow> (\<exists>w'. m w = Some (Done (r, w')) \<and> y = (w', n))"
  by (auto simp: counted_def split: option.splits outcome.splits)

lemma drain_ranked:
  assumes "flag_env env" "\<not> fst (wk_env w)" "prompt_engine (we_ops env) rep" "1 \<le> depth"
    and "counting env rep D config [] j (w, n)"
    and "loop_step env depth Drain_Head (w, n) = Some (Done (Inr pc', (w', n')))"
  shows "thread_rank pc' n' < thread_rank Drain_Head n"
proof (cases "n > 0")
  case True
  have e: "io_engine (we_ops env) rep" by (rule prompt_engine.axioms(1) [OF assms(3)])
  obtain cs w1 where cs: "engine_call (eo_poll (we_ops env) 1 depth) w = Some (Done (Inr cs, w1))"
      "pc' = Reaping (fst (we_now env (wk_env w1))) cs" "n' = n"
    using assms(6) True
    by (auto simp: bindW_done [where m = "counted (load_running env)", OF load_cleared [OF assms(1,2)]]
        bindW_done_iff counted_done_iff returnW_def read_clock_def case_prod_beta)
  have w: "working env rep D config [] j w" "n = int j" using assms(5) by (auto simp: counting_def)
  obtain p where p: "rep (wk_engine w) p" "ucast ` held (wk_pool w) = dom p" "card (held (wk_pool w)) = j"
    using w(1) by (auto simp: working_def)
  then have "p \<noteq> Map.empty" using True w(2) by auto
  then have ne: "cs \<noteq> []"
    using prompt_engine.poll_prompt [OF assms(3) p(1) _ assms(4)] cs(1)
    by (auto simp: engine_call_def split: option.splits)
  have "counting env rep D config (map cp_id cs) j (w1, n)"
    using io_engine.poll_safe [OF e refl w(1), of 1 depth] cs(1) w(2) by (simp add: counting_def)
  from counting_rest [OF this] ne cs(2,3) show ?thesis by (cases cs) auto
next
  case False
  then show ?thesis using assms(6) by (auto simp: bindW_done [where m = "counted (load_running env)", OF load_cleared [OF assms(1,2)]] returnW_def)
qed


lemma loop_step_ranked:
  assumes "flag_env env" "\<not> fst (wk_env w)" "prompt_engine (we_ops env) rep" "1 \<le> depth"
    and "thread_inv env rep D config pc (w, n)" "pc \<noteq> Finished"
    and s: "loop_step env depth pc (w, n) = Some (Done (Inr pc', (w', n')))"
  shows "thread_rank pc' n' < thread_rank pc n"
  using assms(6)
proof (cases "(env, depth, pc)" rule: loop_step.cases)
  case (1 env' d)
  then have "pc' = Finished"
    using s load_running_flag [OF assms(1), of w] assms(2)
    by (auto simp: bindW_done_iff counted_done_iff returnW_def sync_iteration_def split: if_splits)
  then show ?thesis using 1 by simp
next
  case (3 env' d k)
  then have pc: "pc = Prefilling (Suc k)" by simp
  show ?thesis
    using s unfolding pc by (auto simp: bindW_done [where m = "counted (load_running env)", OF load_cleared [OF assms(1,2)]] returnW_def)
next
  case (4 env' d)
  then have pc: "pc = Drain_Head" by simp
  obtain j where "counting env rep D config [] j (w, n)" using assms(5) by (auto simp: pc)
  from drain_ranked [OF assms(1-4) this s [unfolded pc]] show ?thesis unfolding pc .
next
  case (6 env' d now c cs)
  then have pc: "pc = Reaping now (c # cs)" by simp
  obtain j where j: "counting env rep D config (map cp_id (c # cs)) j (w, n)" using assms(5) by (auto simp: pc)
  have "working env rep D config (cp_id c # map cp_id cs) j w" using j by (simp add: counting_def)
  from record_completion_working [OF this] obtain w1 where w1: "record_completion env c now w = Done w1" by blast
  have "\<not> fst (wk_env w1)" using record_completion_sees [OF w1] assms(2) by (simp add: sees_def)
  then have "pc' = Reaping now cs" "n' = n - 1"
    using s unfolding pc reap_step_eq [OF w1]
    by (auto simp: bindW_done [where m = "counted (load_running env)", OF load_cleared [OF assms(1)]] returnW_done_iff)
  then show ?thesis using counting_rest [OF j] by (auto simp: pc nat_diff_distrib)
qed (use s in \<open>auto simp: returnW_def\<close>)

text \<open>Once the flag is cleared, every piece brings the thread closer to its end.\<close>

lemma thread_step_ranked:
  assumes "flag_env env" "\<not> fst (wk_env w)" "prompt_engine (we_ops env) rep" "1 \<le> depth"
    and "thread_inv env rep D config pc (w, n)" "pc \<noteq> Finished"
    and "thread_step env depth pc (w, n) = Some (Done (pc', (w', n')))"
  shows "thread_rank pc' n' < thread_rank pc n"
  using assms(7)
proof (cases rule: thread_stepE)
  case 1
  from loop_step_ranked [OF assms(1-6) this] show ?thesis .
next
  case 2
  then show ?thesis using rank_positive [OF assms(6)] by simp
qed

end
