(* ===== verification/Run_Process.thy ===== *)
theory Run_Process
  imports Thread_Invariant Metrics_Aggregator
begin

text \<open>
  The process during \<open>BenchmarkOrchestrator::RunBenchmark\<close>
  (\<open>src/orchestrator/benchmark_orchestrator.cpp\<close>) and the destructor of the orchestrator: the main
  thread, one thread per worker behind the start barrier, the sampling thread of the aggregator
  (\<open>src/telemetry/metrics_aggregator.cpp\<close>) and the signal handler, with the objects they share, as a
  step relation over every interleaving.
\<close>

section \<open>State\<close>

text \<open>A worker has no thread, has to arrive at the barrier, waits there, is in its loop, or is through.\<close>

datatype thread_pc = Unstarted | Arriving | Waiting | Looping loop_pc | Ended

record ('g, 'd, 's, 'k) thread =
  th_pc :: thread_pc
  th_in_flight :: int
  th_worker :: "('g, 'd, 's, bool \<times> 'k) worker"

text \<open>The sampling thread: at the head of its loop, in the timed wait, or through.\<close>

datatype sampler_pc = Sampler_Head | Sampler_Waits | Sampler_Ended

text \<open>
  The main thread, from the construction of the signal scope to the end of the destructor: the steps
  of the constructor of \<open>SignalScope\<close>, the start of the given worker, the timer loop, the join of the given
  worker, the stop and join of the aggregator, the summary, the steps of the destructor of
  \<open>SignalScope\<close>, and the destructor of the orchestrator.
\<close>

datatype main_pc =
  Set_Flag_Pointer | Install_Int | Install_Term | Starting nat | Supervising | Joining nat
| Stop_Sampler | Join_Sampler | Summarising | Restore_Int | Restore_Term | Clear_Flag_Pointer
| Destroy_Sampler | Destroy_Sampler_Join | Destroying nat | Exited

text \<open>
  \<open>pr_barrier\<close> is the start barrier while it lives, with the number of arrivals it still expects;
  \<open>pr_flag_pointer\<close> says that \<open>g_run_flag\<close> points to \<open>g_running_\<close>; \<open>pr_on_int\<close> and \<open>pr_on_term\<close> that \<open>OnSignal\<close> is installed;
  \<open>pr_views\<close> are the workers as \<open>BuildResults\<close> read them, and \<open>pr_thrown\<close> says that an exception left
  \<open>RunBenchmark\<close>.
\<close>

record ('g, 'd, 's, 'k) process =
  pr_running :: bool
  pr_flag_pointer :: bool
  pr_on_int :: bool
  pr_on_term :: bool
  pr_barrier :: "nat option"
  pr_threads :: "('g, 'd, 's, 'k) thread list"
  pr_sampler :: sampler_pc
  pr_stop_requested :: bool
  pr_samples :: "worker_view list list"
  pr_views :: "worker_view list option"
  pr_thrown :: bool
  pr_main :: main_pc

record ('g, 'd, 's, 'k) process_env =
  pe_ops :: "nat \<Rightarrow> 's engine_ops"
  pe_uniform :: "u64 \<Rightarrow> u64 \<Rightarrow> 'g \<Rightarrow> u64 \<times> 'g"
  pe_bernoulli :: "rat \<Rightarrow> 'd \<Rightarrow> bool \<times> 'd"
  pe_ndebug :: bool
  pe_now :: "'k \<Rightarrow> time_point \<times> 'k"

text \<open>The environment of one worker: the flag as it is when the thread runs a piece, and its clock.\<close>

definition thread_env :: "('g, 'd, 's, 'k) process_env \<Rightarrow> nat \<Rightarrow> ('g, 'd, 's, bool \<times> 'k) worker_env" where
  "thread_env pe i =
     \<lparr>we_ops = pe_ops pe i, we_uniform = pe_uniform pe, we_bernoulli = pe_bernoulli pe,
      we_ndebug = pe_ndebug pe,
      we_now = (\<lambda>(b, k). case pe_now pe k of (t, k') \<Rightarrow> (t, (b, k'))),
      we_running = (\<lambda>(b, k). (b, (b, k))),
      we_stop = (\<lambda>(b, k). (False, k))\<rparr>"

definition see_flag :: "bool \<Rightarrow> ('g, 'd, 's, bool \<times> 'k) worker \<Rightarrow> ('g, 'd, 's, bool \<times> 'k) worker" where
  "see_flag b w = w\<lparr>wk_env := (b, snd (wk_env w))\<rparr>"

abbreviation thread_count :: "('g, 'd, 's, 'k) process \<Rightarrow> nat" where
  "thread_count p \<equiv> length (pr_threads p)"

definition set_pc :: "nat \<Rightarrow> thread_pc \<Rightarrow> ('g, 'd, 's, 'k) process \<Rightarrow> ('g, 'd, 's, 'k) process" where
  "set_pc i pc p = p\<lparr>pr_threads := (pr_threads p)[i := (pr_threads p ! i)\<lparr>th_pc := pc\<rparr>]\<rparr>"

section \<open>The workers\<close>

text \<open>
  \<open>WorkerThread::Run\<close>: the arrival, the end of the wait once all have arrived, and a piece of the loop. The
  value \<open>None\<close> means that the thread cannot go on now.
\<close>

definition worker_step ::
    "('g, 'd, 's, 'k) process_env \<Rightarrow> nat \<Rightarrow> ('g, 'd, 's, 'k) process \<Rightarrow> ('g, 'd, 's, 'k) process option" where
  "worker_step pe i p =
     (if i < thread_count p then
        let t = pr_threads p ! i; w = th_worker t; depth = effective_iodepth (wk_config w) in
        case th_pc t of
          Unstarted \<Rightarrow> None
        | Arriving \<Rightarrow>
            (case pr_barrier p of
               Some (Suc r) \<Rightarrow> Some ((set_pc i Waiting p)\<lparr>pr_barrier := Some r\<rparr>)
             | _ \<Rightarrow> None)
        | Waiting \<Rightarrow>
            if pr_barrier p = Some 0 then Some (set_pc i (Looping (first_pc (wk_config w))) p) else None
        | Looping pc \<Rightarrow>
            if pc = Finished then Some (set_pc i Ended p)
            else (case thread_step (thread_env pe i) depth pc (see_flag (pr_running p) w, th_in_flight t) of
                Some (Done (pc', (w', n'))) \<Rightarrow>
                  Some (p\<lparr>pr_threads := (pr_threads p)[i := \<lparr>th_pc = Looping pc', th_in_flight = n', th_worker = w'\<rparr>],
                          pr_running := fst (wk_env w')\<rparr>)
              | _ \<Rightarrow> None)
        | Ended \<Rightarrow> None
      else None)"

section \<open>The sampling thread\<close>

definition sampler_step :: "('g, 'd, 's, 'k) process \<Rightarrow> ('g, 'd, 's, 'k) process option" where
  "sampler_step p = (case pr_sampler p of
     Sampler_Head \<Rightarrow>
       Some (p\<lparr>pr_sampler := (if pr_running p \<and> \<not> pr_stop_requested p then Sampler_Waits else Sampler_Ended)\<rparr>)
   | Sampler_Waits \<Rightarrow>
       if pr_stop_requested p \<or> \<not> pr_running p then Some (p\<lparr>pr_sampler := Sampler_Ended\<rparr>)
       else Some (p\<lparr>pr_samples := pr_samples p @ [map (view_of \<circ> th_worker) (pr_threads p)],
                    pr_sampler := Sampler_Head\<rparr>)
   | Sampler_Ended \<Rightarrow> None)"

section \<open>Signals\<close>

definition on_signal :: "('g, 'd, 's, 'k) process \<Rightarrow> ('g, 'd, 's, 'k) process" where
  "on_signal p = (if pr_flag_pointer p then p\<lparr>pr_running := False\<rparr> else p)"

text \<open>The constructor and the destructor of \<open>SignalScope\<close>, one statement at a time.\<close>

definition signal_scope_step :: "main_pc \<Rightarrow> ('g, 'd, 's, 'k) process \<Rightarrow> ('g, 'd, 's, 'k) process" where
  "signal_scope_step m p = (case m of
     Set_Flag_Pointer \<Rightarrow> p\<lparr>pr_flag_pointer := True\<rparr>
   | Install_Int \<Rightarrow> p\<lparr>pr_on_int := True\<rparr>
   | Install_Term \<Rightarrow> p\<lparr>pr_on_term := True\<rparr>
   | Restore_Int \<Rightarrow> p\<lparr>pr_on_int := False\<rparr>
   | Restore_Term \<Rightarrow> p\<lparr>pr_on_term := False\<rparr>
   | Clear_Flag_Pointer \<Rightarrow> p\<lparr>pr_flag_pointer := False\<rparr>
   | _ \<Rightarrow> p)"

section \<open>The main thread\<close>

text \<open>
  \<open>WorkerThread::Start\<close>, and \<open>WorkerThread::Join\<close>, which waits for a thread that was started; the destructor of
  the \<open>std::jthread\<close> member does the same.
\<close>

definition start_thread :: "nat \<Rightarrow> ('g, 'd, 's, 'k) process \<Rightarrow> ('g, 'd, 's, 'k) process" where
  "start_thread k p = set_pc k Arriving p"

definition join_thread :: "nat \<Rightarrow> ('g, 'd, 's, 'k) process \<Rightarrow> ('g, 'd, 's, 'k) process option" where
  "join_thread k p =
     (let joinable = th_pc (pr_threads p ! k) \<noteq> Unstarted
      in if joinable \<and> th_pc (pr_threads p ! k) \<noteq> Ended then None else Some p)"

declare signal_scope_step_def [simp] start_thread_def [simp]

text \<open>
  A step without an exception. The timer loop may end at any time: at the deadline, on a stop
  request of the display, or when the flag is cleared.
\<close>

definition main_step :: "('g, 'd, 's, 'k) process \<Rightarrow> ('g, 'd, 's, 'k) process option" where
  "main_step p = (case pr_main p of
     Set_Flag_Pointer \<Rightarrow> Some ((signal_scope_step Set_Flag_Pointer p)\<lparr>pr_main := Install_Int\<rparr>)
   | Install_Int \<Rightarrow> Some ((signal_scope_step Install_Int p)\<lparr>pr_main := Install_Term\<rparr>)
   | Install_Term \<Rightarrow>
       Some ((signal_scope_step Install_Term p)\<lparr>pr_barrier := Some (thread_count p), pr_main := Starting 0\<rparr>)
   | Starting k \<Rightarrow>
       if k < thread_count p then Some ((start_thread k p)\<lparr>pr_main := Starting (Suc k)\<rparr>)
       else Some (p\<lparr>pr_main := Supervising\<rparr>)
   | Supervising \<Rightarrow> Some (p\<lparr>pr_running := False, pr_main := Joining 0\<rparr>)
   | Joining k \<Rightarrow>
       if k < thread_count p
       then map_option (\<lambda>p1. p1\<lparr>pr_main := Joining (Suc k)\<rparr>) (join_thread k p)
       else Some (p\<lparr>pr_main := Stop_Sampler\<rparr>)
   | Stop_Sampler \<Rightarrow> Some (p\<lparr>pr_stop_requested := True, pr_main := Join_Sampler\<rparr>)
   | Join_Sampler \<Rightarrow>
       if pr_sampler p = Sampler_Ended
       then Some (p\<lparr>pr_views := Some (map (view_of \<circ> th_worker) (pr_threads p)), pr_main := Summarising\<rparr>)
       else None
   | Summarising \<Rightarrow> Some (p\<lparr>pr_barrier := None, pr_main := Restore_Int\<rparr>)
   | Restore_Int \<Rightarrow> Some ((signal_scope_step Restore_Int p)\<lparr>pr_main := Restore_Term\<rparr>)
   | Restore_Term \<Rightarrow> Some ((signal_scope_step Restore_Term p)\<lparr>pr_main := Clear_Flag_Pointer\<rparr>)
   | Clear_Flag_Pointer \<Rightarrow> Some ((signal_scope_step Clear_Flag_Pointer p)\<lparr>pr_main := Destroy_Sampler\<rparr>)
   | Destroy_Sampler \<Rightarrow> Some (p\<lparr>pr_stop_requested := True, pr_main := Destroy_Sampler_Join\<rparr>)
   | Destroy_Sampler_Join \<Rightarrow>
       if pr_sampler p = Sampler_Ended then Some (p\<lparr>pr_main := Destroying 0\<rparr>) else None
   | Destroying k \<Rightarrow>
       if k < thread_count p
       then map_option (\<lambda>p1. p1\<lparr>pr_main := Destroying (Suc k)\<rparr>) (join_thread k p)
       else Some (p\<lparr>pr_main := Exited\<rparr>)
   | Exited \<Rightarrow> None)"

text \<open>
  An exception of the main thread: the start of a thread, the display or the copy of a snapshot in
  the timer loop, the summary. The barrier is a local object, it goes first.
\<close>

definition main_throws :: "('g, 'd, 's, 'k) process \<Rightarrow> ('g, 'd, 's, 'k) process option" where
  "main_throws p =
     (if (case pr_main p of Starting k \<Rightarrow> k < thread_count p | Supervising \<Rightarrow> True | Summarising \<Rightarrow> True | _ \<Rightarrow> False)
      then Some (p\<lparr>pr_thrown := True, pr_barrier := None, pr_main := Restore_Int\<rparr>) else None)"

section \<open>Steps and runs\<close>

datatype actor = Main | Main_Exception | Worker nat | Sampler | Sigint | Sigterm

inductive process_step ::
    "('g, 'd, 's, 'k) process_env \<Rightarrow> ('g, 'd, 's, 'k) process \<Rightarrow> actor \<Rightarrow> ('g, 'd, 's, 'k) process \<Rightarrow> bool"
  for pe where
  main: "main_step p = Some p' \<Longrightarrow> process_step pe p Main p'"
| throws: "main_throws p = Some p' \<Longrightarrow> process_step pe p Main_Exception p'"
| worker: "worker_step pe i p = Some p' \<Longrightarrow> process_step pe p (Worker i) p'"
| sampler: "sampler_step p = Some p' \<Longrightarrow> process_step pe p Sampler p'"
| sigint: "pr_on_int p \<Longrightarrow> process_step pe p Sigint (on_signal p)"
| sigterm: "pr_on_term p \<Longrightarrow> process_step pe p Sigterm (on_signal p)"

inductive_simps process_step_simps [simp]:
  "process_step pe p Main p'" "process_step pe p Main_Exception p'" "process_step pe p (Worker i) p'"
  "process_step pe p Sampler p'" "process_step pe p Sigint p'" "process_step pe p Sigterm p'"

inductive process_run ::
    "('g, 'd, 's, 'k) process_env \<Rightarrow> ('g, 'd, 's, 'k) process \<Rightarrow> actor list \<Rightarrow> ('g, 'd, 's, 'k) process \<Rightarrow> bool"
  for pe where
  nil: "process_run pe p [] p"
| snoc: "process_run pe p as p' \<Longrightarrow> process_step pe p' a p'' \<Longrightarrow> process_run pe p (as @ [a]) p''"

inductive_cases process_run_snocE: "process_run pe p (as @ [a]) p'"

text \<open>The start: workers as constructed, the sampling thread running.\<close>

definition process_create :: "('g, 'd, 's, bool \<times> 'k) worker list \<Rightarrow> ('g, 'd, 's, 'k) process" where
  "process_create ws =
     \<lparr>pr_running = True, pr_flag_pointer = False, pr_on_int = False, pr_on_term = False, pr_barrier = None,
      pr_threads = map (\<lambda>w. \<lparr>th_pc = Unstarted, th_in_flight = 0, th_worker = w\<rparr>) ws,
      pr_sampler = Sampler_Head, pr_stop_requested = False, pr_samples = [], pr_views = None,
      pr_thrown = False, pr_main = Set_Flag_Pointer\<rparr>"


definition reachable ::
    "('g, 'd, 's, 'k) process_env \<Rightarrow> ('g, 'd, 's, bool \<times> 'k) worker list \<Rightarrow> ('g, 'd, 's, 'k) process \<Rightarrow> bool" where
  "reachable pe ws p \<longleftrightarrow> (\<exists>as. process_run pe (process_create ws) as p)"

end
