(* ===== verification/Run_Invariants.thy ===== *)
theory Run_Invariants
  imports Run_Process
begin

text \<open>
  Invariants of the process during \<open>RunBenchmark\<close> (\<open>src/orchestrator/benchmark_orchestrator.cpp\<close>): the
  barrier, the flag, the joins and the accounts of the workers, in every interleaving.
\<close>

lemmas main_step_defs = main_step_def join_thread_def Let_def map_option_eq_Some

section \<open>Induction over runs\<close>

lemma process_invariant [consumes 1, case_names create main throws worker sampler signal]:
  assumes "reachable pe ws p" "I (process_create ws)"
    and "\<And>p p'. I p \<Longrightarrow> main_step p = Some p' \<Longrightarrow> reachable pe ws p \<Longrightarrow> I p'"
    and "\<And>p p'. I p \<Longrightarrow> main_throws p = Some p' \<Longrightarrow> reachable pe ws p \<Longrightarrow> I p'"
    and "\<And>p i p'. I p \<Longrightarrow> worker_step pe i p = Some p' \<Longrightarrow> reachable pe ws p \<Longrightarrow> I p'"
    and "\<And>p p'. I p \<Longrightarrow> sampler_step p = Some p' \<Longrightarrow> reachable pe ws p \<Longrightarrow> I p'"
    and "\<And>p. I p \<Longrightarrow> pr_on_int p \<or> pr_on_term p \<Longrightarrow> reachable pe ws p \<Longrightarrow> I (on_signal p)"
  shows "I p"
proof -
  obtain "as" where "process_run pe (process_create ws) as p" using assms(1) by (auto simp: reachable_def)
  then show ?thesis
  proof (induction "process_create ws :: ('a, 'b, 'c, 'd) process" "as" p rule: process_run.induct)
    case nil
    show ?case by (rule assms(2))
  next
    case (snoc as p a p')
    have r: "reachable pe ws p" using snoc(1) by (auto simp: reachable_def)
    from snoc(3) show ?case
    proof (cases rule: process_step.cases)
      case main
      show ?thesis by (rule assms(3) [OF snoc(2) main(2) r])
    next
      case throws
      show ?thesis by (rule assms(4) [OF snoc(2) throws(2) r])
    next
      case (worker i)
      show ?thesis by (rule assms(5) [OF snoc(2) worker(2) r])
    next
      case sampler
      show ?thesis by (rule assms(6) [OF snoc(2) sampler(2) r])
    qed (use assms(7) [OF snoc(2) _ r] in simp_all)
  qed
qed

lemma reachable_create [simp]: "reachable pe ws (process_create ws)"
  unfolding reachable_def by (blast intro: process_run.nil)

lemma reachable_step: "reachable pe ws p \<Longrightarrow> process_step pe p a p' \<Longrightarrow> reachable pe ws p'"
  unfolding reachable_def by (blast intro: process_run.snoc)

lemma process_run_append:
  "process_run pe p1 bs p2 \<Longrightarrow> process_run pe p0 as p1 \<Longrightarrow> process_run pe p0 (as @ bs) p2"
proof (induction rule: process_run.induct)
  case (snoc p bs p' a p'')
  then show ?case using process_run.snoc [of pe p0 "as @ bs" p' a p''] by simp
qed simp

section \<open>What a step does to the threads\<close>

lemma set_pc_simps [simp]:
  "pr_threads (set_pc i pc p) = (pr_threads p)[i := (pr_threads p ! i)\<lparr>th_pc := pc\<rparr>]"
  "pr_running (set_pc i pc p) = pr_running p" "pr_flag_pointer (set_pc i pc p) = pr_flag_pointer p"
  "pr_on_int (set_pc i pc p) = pr_on_int p" "pr_on_term (set_pc i pc p) = pr_on_term p"
  "pr_barrier (set_pc i pc p) = pr_barrier p" "pr_sampler (set_pc i pc p) = pr_sampler p"
  "pr_stop_requested (set_pc i pc p) = pr_stop_requested p" "pr_samples (set_pc i pc p) = pr_samples p"
  "pr_views (set_pc i pc p) = pr_views p" "pr_thrown (set_pc i pc p) = pr_thrown p"
  "pr_main (set_pc i pc p) = pr_main p"
  by (simp_all add: set_pc_def)

lemma on_signal_simps [simp]:
  "pr_threads (on_signal p) = pr_threads p" "pr_flag_pointer (on_signal p) = pr_flag_pointer p"
  "pr_on_int (on_signal p) = pr_on_int p" "pr_on_term (on_signal p) = pr_on_term p"
  "pr_barrier (on_signal p) = pr_barrier p" "pr_sampler (on_signal p) = pr_sampler p"
  "pr_stop_requested (on_signal p) = pr_stop_requested p" "pr_samples (on_signal p) = pr_samples p"
  "pr_views (on_signal p) = pr_views p" "pr_thrown (on_signal p) = pr_thrown p"
  "pr_main (on_signal p) = pr_main p" "pr_running (on_signal p) = (pr_running p \<and> \<not> pr_flag_pointer p)"
  by (simp_all add: on_signal_def)

text \<open>The step of a worker, case by case.\<close>

lemma worker_stepE:
  assumes "worker_step pe i p = Some p'"
  obtains (arrive) r where "i < thread_count p" "th_pc (pr_threads p ! i) = Arriving" "pr_barrier p = Some (Suc r)"
      "p' = (set_pc i Waiting p)\<lparr>pr_barrier := Some r\<rparr>"
    | (pass) "i < thread_count p" "th_pc (pr_threads p ! i) = Waiting" "pr_barrier p = Some 0"
      "p' = set_pc i (Looping (first_pc (wk_config (th_worker (pr_threads p ! i))))) p"
    | (finish) "i < thread_count p" "th_pc (pr_threads p ! i) = Looping Finished" "p' = set_pc i Ended p"
    | (piece) pc pc' w' n' where "i < thread_count p" "th_pc (pr_threads p ! i) = Looping pc" "pc \<noteq> Finished"
      "thread_step (thread_env pe i) (effective_iodepth (wk_config (th_worker (pr_threads p ! i)))) pc
         (see_flag (pr_running p) (th_worker (pr_threads p ! i)), th_in_flight (pr_threads p ! i)) =
         Some (Done (pc', (w', n')))"
      "p' = p\<lparr>pr_threads := (pr_threads p)[i := \<lparr>th_pc = Looping pc', th_in_flight = n', th_worker = w'\<rparr>],
              pr_running := fst (wk_env w')\<rparr>"
  using assms
  by (auto simp: worker_step_def Let_def split: if_splits thread_pc.splits option.splits nat.splits outcome.splits)

lemma flag_thread_env: "flag_env (thread_env pe i)"
  by (simp add: flag_env_def thread_env_def split: prod.splits)

lemma sees_see_flag [simp]: "sees (see_flag b w) = (b, wk_failed w)"
  by (simp add: sees_def see_flag_def)

text \<open>What a piece does to the flag of the process.\<close>

lemma piece_flag:
  assumes "thread_step (thread_env pe i) depth pc (see_flag b w, n) = Some (Done (pc', (w', n')))" "pc \<noteq> Finished"
  shows "fst (wk_env w') \<Longrightarrow> b" and "pc' = Finished \<Longrightarrow> \<not> fst (wk_env w')"
    and "wk_failed w' \<Longrightarrow> \<not> wk_failed w \<Longrightarrow> \<not> fst (wk_env w') \<and> pc' = Finished"
  using thread_step_flag [OF flag_thread_env assms] by (auto simp: sees_def see_flag_def)

text \<open>What the other threads leave alone.\<close>

lemma worker_frame:
  assumes "worker_step pe i p = Some p'"
  shows "pr_main p' = pr_main p" "pr_thrown p' = pr_thrown p" "pr_views p' = pr_views p"
    "pr_on_int p' = pr_on_int p" "pr_on_term p' = pr_on_term p" "pr_flag_pointer p' = pr_flag_pointer p"
    "pr_sampler p' = pr_sampler p" "pr_stop_requested p' = pr_stop_requested p"
    "thread_count p' = thread_count p" "pr_running p' \<Longrightarrow> pr_running p"
    "pr_barrier p' = None \<longleftrightarrow> pr_barrier p = None" "\<And>j. j \<noteq> i \<Longrightarrow> pr_threads p' ! j = pr_threads p ! j"
  using assms by (auto elim!: worker_stepE dest: piece_flag(1))

lemma sampler_frame:
  assumes "sampler_step p = Some p'"
  shows "pr_main p' = pr_main p" "pr_thrown p' = pr_thrown p" "pr_views p' = pr_views p"
    "pr_on_int p' = pr_on_int p" "pr_on_term p' = pr_on_term p" "pr_flag_pointer p' = pr_flag_pointer p"
    "pr_stop_requested p' = pr_stop_requested p" "pr_threads p' = pr_threads p"
    "pr_running p' = pr_running p" "pr_barrier p' = pr_barrier p"
  using assms by (auto simp: sampler_step_def split: sampler_pc.splits if_splits)

lemma main_frame:
  assumes "main_step p = Some p'"
  shows "thread_count p' = thread_count p" "pr_running p' \<Longrightarrow> pr_running p" "pr_sampler p' = pr_sampler p"
    "pr_thrown p' = pr_thrown p"
  using assms by (cases "pr_main p"; auto simp: main_step_defs split: if_splits)+

lemma throws_frame:
  assumes "main_throws p = Some p'"
  shows "pr_threads p' = pr_threads p" "pr_running p' = pr_running p" "pr_sampler p' = pr_sampler p"
    "pr_on_int p' = pr_on_int p" "pr_on_term p' = pr_on_term p" "pr_flag_pointer p' = pr_flag_pointer p"
    "pr_views p' = pr_views p" "pr_main p' = Restore_Int" "pr_thrown p'" "pr_barrier p' = None"
    "(\<exists>k < thread_count p. pr_main p = Starting k) \<or> pr_main p = Supervising \<or> pr_main p = Summarising"
  using assms by (auto simp: main_throws_def split: if_splits main_pc.splits)

lemmas step_frames = worker_frame sampler_frame main_frame throws_frame

section \<open>Simple invariants\<close>

lemma thread_count_step: "process_step pe p a p' \<Longrightarrow> thread_count p' = thread_count p"
  by (erule process_step.cases) (simp_all add: step_frames)

lemma thread_count_run: "process_run pe p as p' \<Longrightarrow> thread_count p' = thread_count p"
  by (induction rule: process_run.induct) (simp_all add: thread_count_step)

lemma flag_step: "process_step pe p a p' \<Longrightarrow> pr_running p' \<Longrightarrow> pr_running p"
  by (erule process_step.cases) (auto dest: step_frames)

lemma flag_run: "process_run pe p as p' \<Longrightarrow> pr_running p' \<Longrightarrow> pr_running p"
  by (induction rule: process_run.induct) (auto dest: flag_step)

text \<open>Where \<open>g_run_flag\<close> points to the flag, and where each handler is installed.\<close>

definition holds_pointer :: "main_pc \<Rightarrow> bool" where
  "holds_pointer m = (case m of
     Set_Flag_Pointer \<Rightarrow> False | Destroy_Sampler \<Rightarrow> False | Destroy_Sampler_Join \<Rightarrow> False
   | Destroying _ \<Rightarrow> False | Exited \<Rightarrow> False | _ \<Rightarrow> True)"

definition catches_int :: "main_pc \<Rightarrow> bool" where
  "catches_int m \<longleftrightarrow> holds_pointer m \<and> m \<notin> {Install_Int, Restore_Term, Clear_Flag_Pointer}"

definition catches_term :: "main_pc \<Rightarrow> bool" where
  "catches_term m \<longleftrightarrow> holds_pointer m \<and> m \<notin> {Install_Int, Install_Term, Clear_Flag_Pointer}"

lemmas scope_defs = holds_pointer_def catches_int_def catches_term_def

definition signals_inv :: "('g, 'd, 's, 'k) process \<Rightarrow> bool" where
  "signals_inv p \<longleftrightarrow> pr_flag_pointer p = holds_pointer (pr_main p) \<and>
     pr_on_int p = catches_int (pr_main p) \<and> pr_on_term p = catches_term (pr_main p)"

lemma signals_inv_run:
  assumes "reachable pe ws p"
  shows "signals_inv p"
  using assms
proof (induction rule: process_invariant)
  case create
  show ?case by (simp add: signals_inv_def process_create_def scope_defs)
next
  case (main p p')
  then show ?case
    by (cases "pr_main p") (auto simp: signals_inv_def main_step_defs scope_defs split: if_splits)
next
  case (throws p p')
  have "holds_pointer (pr_main p)" "catches_int (pr_main p)" "catches_term (pr_main p)"
    using throws_frame(11) [OF throws(2)] by (auto simp: scope_defs)
  then show ?case
    using throws(1) unfolding signals_inv_def throws_frame(4,5,6,8) [OF throws(2)] by (simp add: scope_defs)
next
  case (worker p i p')
  show ?case using worker(1) unfolding signals_inv_def worker_frame(1,4,5,6) [OF worker(2)] .
next
  case (sampler p p')
  show ?case using sampler(1) unfolding signals_inv_def sampler_frame(1,4,5,6) [OF sampler(2)] .
qed (simp add: signals_inv_def)


section \<open>The stages of the main thread\<close>

definition stage :: "main_pc \<Rightarrow> nat" where
  "stage m = (case m of
     Set_Flag_Pointer \<Rightarrow> 0 | Install_Int \<Rightarrow> 1 | Install_Term \<Rightarrow> 2 | Starting _ \<Rightarrow> 3 | Supervising \<Rightarrow> 4
   | Joining _ \<Rightarrow> 5 | Stop_Sampler \<Rightarrow> 6 | Join_Sampler \<Rightarrow> 7 | Summarising \<Rightarrow> 8 | Restore_Int \<Rightarrow> 9
   | Restore_Term \<Rightarrow> 10 | Clear_Flag_Pointer \<Rightarrow> 11 | Destroy_Sampler \<Rightarrow> 12 | Destroy_Sampler_Join \<Rightarrow> 13
   | Destroying _ \<Rightarrow> 14 | Exited \<Rightarrow> 15)"

lemma stage_simps [simp]:
  "stage Set_Flag_Pointer = 0" "stage Install_Int = 1" "stage Install_Term = 2" "stage (Starting k) = 3"
  "stage Supervising = 4" "stage (Joining k) = 5" "stage Stop_Sampler = 6" "stage Join_Sampler = 7"
  "stage Summarising = 8" "stage Restore_Int = 9" "stage Restore_Term = 10" "stage Clear_Flag_Pointer = 11"
  "stage Destroy_Sampler = 12" "stage Destroy_Sampler_Join = 13" "stage (Destroying k) = 14" "stage Exited = 15"
  by (simp_all add: stage_def)

lemma throws_stage: "main_throws p = Some p' \<Longrightarrow> stage (pr_main p) \<in> {3, 4, 8}"
  using throws_frame(11) [of p p'] by auto

text \<open>The first thread without a start, as the main thread counts them.\<close>

definition unstarted_from :: "main_pc \<Rightarrow> nat \<Rightarrow> nat" where
  "unstarted_from m n = (case m of Starting k \<Rightarrow> k | _ \<Rightarrow> if stage m < 3 then 0 else n)"

definition start_inv :: "('g, 'd, 's, 'k) process \<Rightarrow> bool" where
  "start_inv p \<longleftrightarrow> (pr_thrown p \<longrightarrow> 9 \<le> stage (pr_main p)) \<and> unstarted_from (pr_main p) (thread_count p) \<le> thread_count p \<and>
     (\<not> pr_thrown p \<longrightarrow> (\<forall>i < thread_count p. th_pc (pr_threads p ! i) = Unstarted \<longleftrightarrow> unstarted_from (pr_main p) (thread_count p) \<le> i))"

lemma worker_unstarted:
  assumes "worker_step pe i p = Some p'"
  shows "th_pc (pr_threads p' ! j) = Unstarted \<longleftrightarrow> th_pc (pr_threads p ! j) = Unstarted"
  using assms by (cases rule: worker_stepE; cases "j = i") auto

lemma start_inv_run:
  assumes "reachable pe ws p"
  shows "start_inv p"
  using assms
proof (induction rule: process_invariant)
  case create
  show ?case by (simp add: start_inv_def process_create_def unstarted_from_def)
next
  case (main p p')
  then show ?case
    by (cases "pr_main p")
      (auto simp: start_inv_def main_step_defs unstarted_from_def nth_list_update split: if_splits)
next
  case (throws p p')
  then show ?case
    using throws_frame(1,8,9) [OF throws(2)] by (simp add: start_inv_def unstarted_from_def)
next
  case (worker p i p')
  then show ?case
    unfolding start_inv_def worker_frame(1,2,9) [OF worker(2)] worker_unstarted [OF worker(2)]
    by blast
next
  case (sampler p p')
  then show ?case
    unfolding start_inv_def sampler_frame(1,2,8) [OF sampler(2)] by blast
qed (simp add: start_inv_def)


section \<open>The barrier\<close>

definition before_barrier :: "thread_pc \<Rightarrow> bool" where
  "before_barrier pc \<longleftrightarrow> pc \<in> {Unstarted, Arriving}"

definition past_barrier :: "thread_pc \<Rightarrow> bool" where
  "past_barrier pc \<longleftrightarrow> pc \<notin> {Unstarted, Arriving, Waiting}"

definition unarrived :: "('g, 'd, 's, 'k) process \<Rightarrow> nat" where
  "unarrived p = length (filter (before_barrier \<circ> th_pc) (pr_threads p))"

lemma filter_update_length:
  "i < length xs \<Longrightarrow> length (filter P (xs[i := y])) + of_bool (P (xs ! i)) = length (filter P xs) + of_bool (P y)"
proof (induction xs arbitrary: i)
  case (Cons x xs)
  then show ?case by (cases i) auto
qed simp

lemma filter_update_same:
  "P y = P (xs ! i) \<Longrightarrow> length (filter P (xs[i := y])) = length (filter P xs)"
  using filter_update_length [of i xs P y] by (cases "i < length xs") (auto simp: list_update_beyond)

lemma unarrived_zero: "unarrived p = 0 \<longleftrightarrow> (\<forall>i < thread_count p. \<not> before_barrier (th_pc (pr_threads p ! i)))"
  by (simp add: unarrived_def filter_empty_conv all_set_conv_all_nth)

lemma before_barrier_simps [simp]:
  "before_barrier Unstarted" "before_barrier Arriving" "\<not> before_barrier Waiting"
  "\<not> before_barrier (Looping pc)" "\<not> before_barrier Ended"
  by (simp_all add: before_barrier_def)

lemma past_barrier_simps [simp]:
  "\<not> past_barrier Unstarted" "\<not> past_barrier Arriving" "\<not> past_barrier Waiting"
  "past_barrier (Looping pc)" "past_barrier Ended"
  by (simp_all add: past_barrier_def)

text \<open>
  The barrier lives from the start of the workers to the end of \<open>RunBenchmark\<close> and counts the threads that
  have not arrived; as long as there are some, no thread is past it.
\<close>

definition barrier_inv :: "('g, 'd, 's, 'k) process \<Rightarrow> bool" where
  "barrier_inv p \<longleftrightarrow>
     (pr_barrier p \<noteq> None \<longleftrightarrow> 3 \<le> stage (pr_main p) \<and> stage (pr_main p) \<le> 8) \<and>
     (\<forall>r. pr_barrier p = Some r \<longrightarrow> r = unarrived p) \<and>
     (unarrived p \<noteq> 0 \<longrightarrow> (\<forall>i < thread_count p. \<not> past_barrier (th_pc (pr_threads p ! i))))"

lemma worker_unarrived:
  assumes "worker_step pe i p = Some p'" "barrier_inv p"
  shows "barrier_inv p'"
  using assms(1)
proof (cases rule: worker_stepE)
  case (arrive r)
  have "unarrived p' + 1 = unarrived p"
    using filter_update_length [OF arrive(1), of "before_barrier \<circ> th_pc" "(pr_threads p ! i)\<lparr>th_pc := Waiting\<rparr>"]
    by (simp add: unarrived_def arrive)
  then show ?thesis
    using assms(2) arrive by (auto simp: barrier_inv_def nth_list_update)
next
  case pass
  have "unarrived p' = unarrived p" unfolding unarrived_def
    using pass by (simp add: filter_update_same)
  then show ?thesis using assms(2) pass by (auto simp: barrier_inv_def)
next
  case finish
  have "unarrived p' = unarrived p" unfolding unarrived_def
    using finish by (simp add: filter_update_same)
  moreover have "unarrived p = 0" using assms(2) finish by (auto simp: barrier_inv_def)
  ultimately show ?thesis using assms(2) finish by (auto simp: barrier_inv_def)
next
  case (piece pc pc' w' n')
  have "unarrived p' = unarrived p" unfolding unarrived_def
    using piece by (simp add: filter_update_same)
  moreover have "unarrived p = 0" using assms(2) piece by (auto simp: barrier_inv_def)
  ultimately show ?thesis using assms(2) piece by (auto simp: barrier_inv_def)
qed

lemma barrier_inv_main:
  assumes "main_step p = Some p'" "barrier_inv p" "start_inv p"
  shows "barrier_inv p'"
proof (cases "\<exists>k. pr_main p = Starting k \<and> k < thread_count p")
  case True
  then obtain k where k: "pr_main p = Starting k" "k < thread_count p"
    "p' = (set_pc k Arriving p)\<lparr>pr_main := Starting (Suc k)\<rparr>"
    using assms(1) by (auto simp: main_step_defs)
  have "th_pc (pr_threads p ! k) = Unstarted"
    using assms(3) k by (auto simp: start_inv_def unstarted_from_def)
  then have "unarrived p' = unarrived p" "th_pc (pr_threads p ! k) = Unstarted"
    unfolding unarrived_def using k by (simp_all add: filter_update_same)
  then show ?thesis using assms(2) k by (auto simp: barrier_inv_def nth_list_update)
next
  case False
  then have t: "pr_threads p' = pr_threads p" "unarrived p' = unarrived p"
    using assms(1) by (cases "pr_main p"; auto simp: main_step_defs unarrived_def split: if_splits)+
  have "unarrived p = thread_count p" if "pr_main p = Install_Term"
    using assms(3) that by (auto simp: start_inv_def unstarted_from_def unarrived_def filter_id_conv all_set_conv_all_nth
        intro!: arg_cong [where f = length])
  then show ?thesis using assms(1,2) False t
    by (cases "pr_main p") (auto simp: barrier_inv_def main_step_defs split: if_splits)
qed

lemma barrier_inv_run:
  assumes "reachable pe ws p"
  shows "barrier_inv p"
  using assms
proof (induction rule: process_invariant)
  case create
  show ?case by (simp add: barrier_inv_def process_create_def)
next
  case (main p p')
  then show ?case using barrier_inv_main start_inv_run by blast
next
  case (throws p p')
  then show ?case
    using throws_frame(1,8,10) [OF throws(2)] by (simp add: barrier_inv_def unarrived_def)
next
  case (worker p i p')
  then show ?case using worker_unarrived by blast
next
  case (sampler p p')
  then show ?case
    using sampler_frame(1,8,10) [OF sampler(2)] by (simp add: barrier_inv_def unarrived_def)
qed (simp add: barrier_inv_def unarrived_def)


section \<open>The flag and the joins\<close>

definition through :: "thread_pc \<Rightarrow> bool" where
  "through pc \<longleftrightarrow> pc \<in> {Looping Finished, Ended}"

text \<open>
  A thread is through only when the flag is cleared; so is it when the main thread, without an
  exception, has left the timer loop. No worker is marked failed before it is through.
\<close>

definition flag_inv :: "('g, 'd, 's, 'k) process \<Rightarrow> bool" where
  "flag_inv p \<longleftrightarrow>
     (\<forall>i < thread_count p. through (th_pc (pr_threads p ! i)) \<longrightarrow> \<not> pr_running p) \<and>
     (\<not> pr_thrown p \<and> 5 \<le> stage (pr_main p) \<longrightarrow> \<not> pr_running p)"

lemma through_simps [simp]:
  "\<not> through Unstarted" "\<not> through Arriving" "\<not> through Waiting" "through Ended"
  "through (Looping pc) \<longleftrightarrow> pc = Finished"
  by (auto simp: through_def)

lemma first_pc_not_finished [simp]: "first_pc config \<noteq> Finished"
  by (simp add: first_pc_def)

lemma worker_flag_inv:
  assumes "worker_step pe i p = Some p'" "flag_inv p"
  shows "flag_inv p'"
  using assms(1)
proof (cases rule: worker_stepE)
  case (piece pc pc' w' n')
  show ?thesis
    using assms(2) piece piece_flag(1,2) [OF piece(4,3)] by (auto simp: flag_inv_def nth_list_update)
qed (use assms(2) in \<open>auto simp: flag_inv_def nth_list_update\<close>)

lemma flag_inv_run:
  assumes "reachable pe ws p"
  shows "flag_inv p"
  using assms
proof (induction rule: process_invariant)
  case create
  show ?case by (simp add: flag_inv_def process_create_def)
next
  case (main p p')
  then show ?case
    by (cases "pr_main p") (auto simp: flag_inv_def main_step_defs nth_list_update split: if_splits)
next
  case (throws p p')
  then show ?case using throws_frame(1,2,9) [OF throws(2)] by (simp add: flag_inv_def)
next
  case (worker p i p')
  then show ?case using worker_flag_inv by blast
next
  case (sampler p p')
  then show ?case using sampler_frame(1,2,8,9) [OF sampler(2)] by (simp add: flag_inv_def)
qed (simp add: flag_inv_def)

text \<open>What has been joined, and what was read after it.\<close>

definition all_ended :: "nat \<Rightarrow> ('g, 'd, 's, 'k) process \<Rightarrow> bool" where
  "all_ended k p \<longleftrightarrow> (\<forall>i < k. i < thread_count p \<longrightarrow> th_pc (pr_threads p ! i) = Ended)"

definition join_inv :: "('g, 'd, 's, 'k) process \<Rightarrow> bool" where
  "join_inv p \<longleftrightarrow>
     (\<not> pr_thrown p \<longrightarrow> (\<forall>k. pr_main p = Joining k \<longrightarrow> all_ended k p) \<and>
        (6 \<le> stage (pr_main p) \<longrightarrow> all_ended (thread_count p) p) \<and>
        (8 \<le> stage (pr_main p) \<longrightarrow> pr_views p \<noteq> None)) \<and>
     (pr_views p \<noteq> None \<longrightarrow> 8 \<le> stage (pr_main p) \<and> all_ended (thread_count p) p \<and>
        pr_views p = Some (map (view_of \<circ> th_worker) (pr_threads p))) \<and>
     (\<forall>k i. pr_main p = Destroying k \<longrightarrow> i < k \<longrightarrow> i < thread_count p \<longrightarrow>
        th_pc (pr_threads p ! i) \<in> {Unstarted, Ended}) \<and>
     (pr_main p = Exited \<longrightarrow> (\<forall>i < thread_count p. th_pc (pr_threads p ! i) \<in> {Unstarted, Ended}))"

text \<open>A thread that is through does not move.\<close>

lemma worker_ended:
  assumes "worker_step pe i p = Some p'" "th_pc (pr_threads p ! j) \<in> {Unstarted, Ended}"
  shows "pr_threads p' ! j = pr_threads p ! j"
  using assms by (cases rule: worker_stepE; cases "j = i") auto

lemma worker_all_ended:
  assumes "worker_step pe i p = Some p'" "all_ended k p"
  shows "all_ended k p'"
  using assms(2) worker_ended [OF assms(1)] worker_frame(9) [OF assms(1)] by (simp add: all_ended_def)

lemma worker_join_inv:
  assumes "worker_step pe i p = Some p'" "join_inv p"
  shows "join_inv p'"
proof -
  have "pr_threads p' = pr_threads p" if "all_ended (thread_count p) p"
    using that worker_ended [OF assms(1)] worker_frame(9) [OF assms(1)]
    by (intro nth_equalityI) (auto simp: all_ended_def)
  then show ?thesis
    using assms(2) worker_all_ended [OF assms(1)] worker_ended [OF assms(1)]
      worker_frame(1,2,3,9) [OF assms(1)]
    unfolding join_inv_def by auto
qed

lemma all_ended_Suc: "all_ended (Suc k) p \<longleftrightarrow> all_ended k p \<and> (k < thread_count p \<longrightarrow> th_pc (pr_threads p ! k) = Ended)"
  by (auto simp: all_ended_def less_Suc_eq)

lemma all_ended_cong: "pr_threads p' = pr_threads p \<Longrightarrow> all_ended k p' = all_ended k p"
  by (simp add: all_ended_def)

lemma all_ended_mono: "\<not> k < thread_count p \<Longrightarrow> all_ended k p \<Longrightarrow> all_ended (thread_count p) p"
  by (simp add: all_ended_def)

lemma main_join_inv:
  assumes "main_step p = Some p'" "join_inv p" "start_inv p"
  shows "join_inv p'"
proof (cases "\<exists>k. pr_main p = Starting k")
  case True
  then show ?thesis using assms by (auto simp: join_inv_def main_step_defs split: if_splits)
next
  case False
  then have t: "all_ended k p' = all_ended k p" for k
    using assms(1) by (cases "pr_main p"; auto simp: main_step_defs all_ended_def split: if_splits)
  have thrown: "pr_main p = Join_Sampler \<Longrightarrow> \<not> pr_thrown p" using assms(3) by (auto simp: start_inv_def)
  have started: "\<not> pr_thrown p \<Longrightarrow> th_pc (pr_threads p ! k) \<noteq> Unstarted" if "pr_main p = Joining k" "k < thread_count p" for k
    using assms(3) that by (auto simp: start_inv_def unstarted_from_def)
  have last: "i < k" if "\<not> k < n" "i < n" for i k n :: nat using that by simp
  show ?thesis
    using False assms(1,2) thrown started
    by (cases "pr_main p")
      (auto simp: join_inv_def main_step_defs t all_ended_Suc dest: all_ended_mono split: if_splits,
       auto simp: all_ended_def less_Suc_eq dest: last)
qed

lemma join_inv_run:
  assumes "reachable pe ws p"
  shows "join_inv p"
  using assms
proof (induction rule: process_invariant)
  case create
  show ?case by (simp add: join_inv_def process_create_def)
next
  case (main p p')
  then show ?case using main_join_inv start_inv_run by blast
next
  case (throws p p')
  then show ?case
    using throws_frame(1,7,8,9,11) [OF throws(2)] by (auto simp: join_inv_def all_ended_def)
next
  case (worker p i p')
  then show ?case using worker_join_inv by blast
next
  case (sampler p p')
  then show ?case
    using sampler_frame(1,2,3,8) [OF sampler(2)] by (simp add: join_inv_def all_ended_def)
qed (simp add: join_inv_def all_ended_def)

end
