(* ===== verification/Run_Correct.thy ===== *)
theory Run_Correct
  imports Run_Invariants
begin

text \<open>
  The workers in every interleaving of \<open>RunBenchmark\<close>
  (\<open>src/orchestrator/benchmark_orchestrator.cpp\<close>): they start together, account for what they do
  whatever the other threads do, and are final when their results are read.
\<close>

section \<open>Workers as constructed\<close>

text \<open>
  Each worker comes from its constructor, on an engine that keeps the contract for its own \<open>rep\<close>,
  with nothing in flight.
\<close>

definition constructed ::
    "('g, 'd, 's, 'k) process_env \<Rightarrow> (nat \<Rightarrow> 's \<Rightarrow> (u64 \<Rightarrow> submit_info option) \<Rightarrow> bool) \<Rightarrow>
     ('g, 'd, 's, bool \<times> 'k) worker list \<Rightarrow> bool" where
  "constructed pe rep ws \<longleftrightarrow> (\<forall>i < length ws.
     \<exists>alloc bytes so sd c config s s1.
       worker_create (thread_env pe i) alloc bytes so sd c config s = Some (Inr (ws ! i), s1) \<and>
       rep i s1 Map.empty \<and> io_engine (pe_ops pe i) (rep i) \<and>
       (effective_iodepth config = 1 \<longrightarrow> prompt_engine (pe_ops pe i) (rep i)) \<and>
       1 \<le> effective_iodepth config \<and> effective_iodepth config < 2 ^ 31)"

abbreviation depth_of :: "('g, 'd, 's, bool \<times> 'k) worker \<Rightarrow> int" where
  "depth_of w \<equiv> effective_iodepth (wk_config w)"

lemma we_ops_thread_env [simp]: "we_ops (thread_env pe i) = pe_ops pe i"
  by (simp add: thread_env_def)

lemma constructedD:
  assumes "constructed pe rep ws" "i < length ws"
  shows "working (thread_env pe i) (rep i) (nat (depth_of (ws ! i))) (wk_config (ws ! i)) [] 0 (ws ! i)"
    and "io_engine (pe_ops pe i) (rep i)"
    and "depth_of (ws ! i) = 1 \<Longrightarrow> prompt_engine (pe_ops pe i) (rep i)" and "1 \<le> depth_of (ws ! i)"
    and "\<not> wk_failed (ws ! i)"
proof -
  obtain alloc bytes so sd c config s s1 where c:
    "worker_create (thread_env pe i) alloc bytes so sd c config s = Some (Inr (ws ! i), s1)"
    "rep i s1 Map.empty" "io_engine (pe_ops pe i) (rep i)"
    "effective_iodepth config = 1 \<longrightarrow> prompt_engine (pe_ops pe i) (rep i)"
    "1 \<le> effective_iodepth config" "effective_iodepth config < 2 ^ 31"
    using assms unfolding constructed_def by blast
  from created_working [where rep = "rep i", OF c(1,2,5,6)] have w:
    "working (thread_env pe i) (rep i) (nat (effective_iodepth config)) config [] 0 (ws ! i)" by simp
  then have cfg: "wk_config (ws ! i) = config" by (simp add: working_def)
  show "working (thread_env pe i) (rep i) (nat (depth_of (ws ! i))) (wk_config (ws ! i)) [] 0 (ws ! i)"
    using w by (simp add: cfg)
  show "io_engine (pe_ops pe i) (rep i)" by (rule c(3))
  show "depth_of (ws ! i) = 1 \<Longrightarrow> prompt_engine (pe_ops pe i) (rep i)" "1 \<le> depth_of (ws ! i)"
    using c(4,5) by (simp_all add: cfg)
  show "\<not> wk_failed (ws ! i)" using w by (simp add: working_def)
qed

section \<open>The invariant of the threads\<close>

definition thread_ok ::
    "('g, 'd, 's, 'k) process_env \<Rightarrow> (nat \<Rightarrow> 's \<Rightarrow> (u64 \<Rightarrow> submit_info option) \<Rightarrow> bool) \<Rightarrow> nat \<Rightarrow>
     ('g, 'd, 's, bool \<times> 'k) worker \<Rightarrow> ('g, 'd, 's, 'k) thread \<Rightarrow> bool" where
  "thread_ok pe rep i w0 t \<longleftrightarrow> (case th_pc t of
     Looping pc \<Rightarrow> thread_inv (thread_env pe i) (rep i) (nat (depth_of w0)) (wk_config w0) pc
       (th_worker t, th_in_flight t)
   | Ended \<Rightarrow> finished_worker (rep i) (wk_config w0) (th_worker t)
   | _ \<Rightarrow> th_worker t = w0 \<and> th_in_flight t = 0)"

definition threads_ok ::
    "('g, 'd, 's, 'k) process_env \<Rightarrow> (nat \<Rightarrow> 's \<Rightarrow> (u64 \<Rightarrow> submit_info option) \<Rightarrow> bool) \<Rightarrow>
     ('g, 'd, 's, bool \<times> 'k) worker list \<Rightarrow> ('g, 'd, 's, 'k) process \<Rightarrow> bool" where
  "threads_ok pe rep ws p \<longleftrightarrow> thread_count p = length ws \<and>
     (\<forall>i < length ws. thread_ok pe rep i (ws ! i) (pr_threads p ! i))"

lemma finished_see_flag [simp]: "finished_worker rep config (see_flag b w) = finished_worker rep config w"
  by (simp add: finished_worker_def see_flag_def accounted_def)

lemma counting_see_flag [simp]:
  "counting env rep D config rest j (see_flag b w, n) = counting env rep D config rest j (w, n)"
  by (simp add: counting_def see_flag_def)

lemma thread_inv_see_flag [simp]:
  "thread_inv env rep D config pc (see_flag b w, n) = thread_inv env rep D config pc (w, n)"
  by (cases pc) simp_all

lemma thread_inv_config: "thread_inv env rep D config pc (w, n) \<Longrightarrow> wk_config w = config"
  by (cases pc) (auto simp: finished_worker_def dest: counting_config)

lemma thread_inv_first:
  assumes "working env rep (nat (effective_iodepth config)) config [] 0 w"
  shows "thread_inv env rep (nat (effective_iodepth config)) config (first_pc config) (w, 0)"
  using assms by (auto simp: first_pc_def counting_def)

text \<open>A piece of a thread in any process state.\<close>

lemma piece_inv:
  assumes "constructed pe rep ws" "i < length ws"
    and "thread_inv (thread_env pe i) (rep i) (nat (depth_of (ws ! i))) (wk_config (ws ! i)) pc (w, n)"
  shows "case thread_step (thread_env pe i) depth pc (w, n) of
      None \<Rightarrow> True
    | Some (Done (pc', x')) \<Rightarrow>
        thread_inv (thread_env pe i) (rep i) (nat (depth_of (ws ! i))) (wk_config (ws ! i)) pc' x'
    | Some (AssertFail a) \<Rightarrow> False | Some Undefined \<Rightarrow> False"
  using constructedD [OF assms(1,2)] assms(3)
  by (intro thread_step_inv loop_step_safe) auto


lemma worker_threads_ok:
  assumes "constructed pe rep ws" "worker_step pe i p = Some p'" "threads_ok pe rep ws p"
  shows "threads_ok pe rep ws p'"
proof -
  have n: "thread_count p = length ws" using assms(3) by (simp add: threads_ok_def)
  have old: "thread_ok pe rep j (ws ! j) (pr_threads p ! j)" if "j < length ws" for j
    using assms(3) that by (simp add: threads_ok_def)
  have new: "thread_ok pe rep i (ws ! i) (pr_threads p' ! i)"
    using assms(2)
  proof (cases rule: worker_stepE)
    case (arrive r)
    then show ?thesis using old [of i] n by (simp add: thread_ok_def)
  next
    case pass
    then show ?thesis
      using old [of i] n thread_inv_first [OF constructedD(1) [OF assms(1), of i]] by (simp add: thread_ok_def)
  next
    case finish
    then show ?thesis using old [of i] n by (simp add: thread_ok_def)
  next
    case (piece pc pc' w' n')
    have i: "i < length ws" using piece(1) n by simp
    have "thread_inv (thread_env pe i) (rep i) (nat (depth_of (ws ! i))) (wk_config (ws ! i)) pc
        (see_flag (pr_running p) (th_worker (pr_threads p ! i)), th_in_flight (pr_threads p ! i))"
      using old [OF i] piece(2) by (simp add: thread_ok_def)
    from piece_inv [OF assms(1) i this, of "effective_iodepth (wk_config (th_worker (pr_threads p ! i)))"]
    show ?thesis using piece by (simp add: thread_ok_def)
  qed
  have "thread_ok pe rep j (ws ! j) (pr_threads p' ! j)" if "j < length ws" for j
    using that new old [OF that] worker_frame(12) [OF assms(2), of j] by (cases "j = i") simp_all
  then show ?thesis using n worker_frame(9) [OF assms(2)] by (simp add: threads_ok_def)
qed

lemma main_threads:
  assumes "main_step p = Some p'" "start_inv p"
  shows "th_worker (pr_threads p' ! j) = th_worker (pr_threads p ! j)"
    and "th_in_flight (pr_threads p' ! j) = th_in_flight (pr_threads p ! j)"
    and "th_pc (pr_threads p' ! j) = th_pc (pr_threads p ! j) \<or>
      th_pc (pr_threads p ! j) = Unstarted \<and> th_pc (pr_threads p' ! j) = Arriving"
proof -
  have k: "th_pc (pr_threads p ! k) = Unstarted" if "pr_main p = Starting k" "k < thread_count p" for k
    using assms(2) that by (auto simp: start_inv_def unstarted_from_def)
  show "th_worker (pr_threads p' ! j) = th_worker (pr_threads p ! j)"
    "th_in_flight (pr_threads p' ! j) = th_in_flight (pr_threads p ! j)"
    "th_pc (pr_threads p' ! j) = th_pc (pr_threads p ! j) \<or>
      th_pc (pr_threads p ! j) = Unstarted \<and> th_pc (pr_threads p' ! j) = Arriving"
    using assms(1) k
    by (cases "pr_main p"; auto simp: main_step_defs nth_list_update split: if_splits)+
qed

lemma threads_ok_run:
  assumes "reachable pe ws p" "constructed pe rep ws"
  shows "threads_ok pe rep ws p"
  using assms(1)
proof (induction rule: process_invariant)
  case create
  show ?case by (simp add: threads_ok_def thread_ok_def process_create_def)
next
  case (main p p')
  note m = main_threads [OF main(2) start_inv_run [OF main(3)]]
  have "thread_ok pe rep i (ws ! i) (pr_threads p' ! i)" if "thread_ok pe rep i (ws ! i) (pr_threads p ! i)" for i
    using that m [of i] by (auto simp: thread_ok_def split: thread_pc.splits)
  then show ?case using main(1) main_frame(1) [OF main(2)] by (simp add: threads_ok_def)
next
  case (throws p p')
  then show ?case using throws_frame(1) [OF throws(2)] by (simp add: threads_ok_def)
next
  case (worker p i p')
  then show ?case using worker_threads_ok assms(2) by blast
next
  case (sampler p p')
  then show ?case using sampler_frame(8) [OF sampler(2)] by (simp add: threads_ok_def)
qed (simp add: threads_ok_def)


section \<open>The common start\<close>

text \<open>A worker that is not past the barrier is as constructed.\<close>

definition idle_inv :: "('g, 'd, 's, bool \<times> 'k) worker list \<Rightarrow> ('g, 'd, 's, 'k) process \<Rightarrow> bool" where
  "idle_inv ws p \<longleftrightarrow> thread_count p = length ws \<and>
     (\<forall>i < length ws. \<not> past_barrier (th_pc (pr_threads p ! i)) \<longrightarrow> th_worker (pr_threads p ! i) = ws ! i)"

lemma idle_inv_run:
  assumes "reachable pe ws p"
  shows "idle_inv ws p"
  using assms
proof (induction rule: process_invariant)
  case create
  show ?case by (simp add: idle_inv_def process_create_def)
next
  case (main p p')
  note m = main_threads [OF main(2) start_inv_run [OF main(3)]]
  have "past_barrier (th_pc (pr_threads p' ! j)) = past_barrier (th_pc (pr_threads p ! j))" for j
    using m(3) [of j] by auto
  then show ?case using main(1) main_frame(1) [OF main(2)] by (simp add: idle_inv_def m(1))
next
  case (throws p p')
  then show ?case using throws_frame(1) [OF throws(2)] by (simp add: idle_inv_def)
next
  case (worker p i p')
  have "th_worker (pr_threads p' ! j) = th_worker (pr_threads p ! j) \<and>
      \<not> past_barrier (th_pc (pr_threads p ! j)) \<or> past_barrier (th_pc (pr_threads p' ! j))
      \<or> pr_threads p' ! j = pr_threads p ! j" for j
    using worker(2) by (cases rule: worker_stepE; cases "j = i") auto
  then show ?case using worker(1) worker_frame(9) [OF worker(2)] unfolding idle_inv_def by metis
next
  case (sampler p p')
  then show ?case using sampler_frame(8) [OF sampler(2)] by (simp add: idle_inv_def)
qed (simp add: idle_inv_def)

text \<open>
  C6. The workers start together: in every interleaving, as long as one thread has not arrived at the
  barrier, no thread has left it and every worker is as it was constructed, without a single request
  issued. And unless an exception leaves \<open>RunBenchmark\<close>, the barrier, a local object, lives as long
  as there is a thread that still has to use it.
\<close>

theorem start_together:
  assumes "reachable pe ws p" "i < length ws"
  shows "(th_pc (pr_threads p ! i) \<in> {Unstarted, Arriving} \<longrightarrow>
      map th_worker (pr_threads p) = ws \<and> (\<forall>t \<in> set (pr_threads p). th_pc t \<in> {Unstarted, Arriving, Waiting})) \<and>
    (th_pc (pr_threads p ! i) \<in> {Arriving, Waiting} \<and> \<not> pr_thrown p \<longrightarrow> pr_barrier p \<noteq> None)"
proof (intro conjI impI)
  have n: "thread_count p = length ws" and idle: "idle_inv ws p"
    using idle_inv_run [OF assms(1)] by (simp_all add: idle_inv_def)
  have b: "barrier_inv p" by (rule barrier_inv_run [OF assms(1)])
  have past: "\<not> past_barrier (th_pc (pr_threads p ! j))"
    if "th_pc (pr_threads p ! i) \<in> {Unstarted, Arriving}" "j < length ws" for j
  proof -
    have "unarrived p \<noteq> 0" unfolding unarrived_zero using that(1) assms(2) n by (auto simp: before_barrier_def)
    then show ?thesis using b that(2) n by (simp add: barrier_inv_def)
  qed
  assume i: "th_pc (pr_threads p ! i) \<in> {Unstarted, Arriving}"
  show "map th_worker (pr_threads p) = ws"
    using idle n past [OF i] by (intro nth_equalityI) (auto simp: idle_inv_def)
  show "\<forall>t \<in> set (pr_threads p). th_pc t \<in> {Unstarted, Arriving, Waiting}"
    using past [OF i] n by (auto simp: all_set_conv_all_nth past_barrier_def)
next
  assume t: "th_pc (pr_threads p ! i) \<in> {Arriving, Waiting} \<and> \<not> pr_thrown p"
  have n: "thread_count p = length ws" using idle_inv_run [OF assms(1)] by (simp add: idle_inv_def)
  have "3 \<le> stage (pr_main p)"
    using start_inv_run [OF assms(1)] t n assms(2)
    by (cases "pr_main p") (auto simp: start_inv_def unstarted_from_def)
  moreover have "stage (pr_main p) < 6"
    using join_inv_run [OF assms(1)] t n assms(2) by (auto simp: join_inv_def all_ended_def not_less [symmetric])
  ultimately show "pr_barrier p \<noteq> None"
    using barrier_inv_run [OF assms(1)] by (simp add: barrier_inv_def)
qed

section \<open>Accounts in every interleaving\<close>

lemma thread_ok_accounted:
  assumes "thread_ok pe rep i w0 t" "\<exists>entries. accounted w0 entries"
  shows "wk_config (th_worker t) = wk_config w0" "\<exists>entries. accounted (th_worker t) entries"
proof -
  have "wk_config w = config \<and> (\<exists>entries. accounted w entries)" if "thread_inv env rep' D config pc (w, n)"
    for env :: "('a, 'b, 'c, bool \<times> 'd) worker_env" and rep' D config pc w n
    using that by (cases pc) (auto simp: counting_def working_def finished_worker_def)
  then show "wk_config (th_worker t) = wk_config w0" "\<exists>entries. accounted (th_worker t) entries"
    using assms by (cases "th_pc t"; auto simp: thread_ok_def finished_worker_def)+
qed

text \<open>A worker is marked failed only when it is through, and then the flag is cleared.\<close>

lemma failed_through:
  assumes "thread_ok pe rep i w0 t" "wk_failed (th_worker t)" "\<not> wk_failed w0"
  shows "through (th_pc t)"
proof -
  have "pc = Finished" if "thread_inv env rep' D config pc (w, n)" "wk_failed w"
    for env :: "('a, 'b, 'c, bool \<times> 'd) worker_env" and rep' D config pc w n
    using that by (cases pc) (auto simp: counting_def working_def)
  then show ?thesis using assms by (cases "th_pc t") (auto simp: thread_ok_def)
qed



section \<open>The results are final\<close>

lemma reachable_run: "process_run pe p bs p' \<Longrightarrow> reachable pe ws p \<Longrightarrow> reachable pe ws p'"
  by (induction rule: process_run.induct) (auto intro: reachable_step)

lemma views_step:
  assumes "process_step pe p a p'" "pr_views p = Some vs" "join_inv p"
  shows "pr_views p' = Some vs"
  using assms(1)
proof (cases rule: process_step.cases)
  case main
  then show ?thesis
    using assms(2,3) by (cases "pr_main p") (auto simp: main_step_defs join_inv_def split: if_splits)
qed (use assms(2) in \<open>auto simp: worker_frame(3) sampler_frame(3) throws_frame(7)\<close>)

lemma views_run:
  "process_run pe p bs p' \<Longrightarrow> reachable pe ws p \<Longrightarrow> pr_views p = Some vs \<Longrightarrow> pr_views p' = Some vs"
proof (induction rule: process_run.induct)
  case (snoc p bs p' a p'')
  then show ?case using views_step join_inv_run reachable_run by metis
qed

text \<open>
  C7. What \<open>BuildResults\<close> reads is final: at that moment every worker thread has ended, the views are
  those of the workers, one for each job, and no later step of any thread, nor a signal, changes a
  worker any more. A run without an exception does read them before the process exits.
\<close>

theorem results_final:
  assumes "reachable pe ws p" "process_run pe p bs p'"
  shows "(\<forall>vs. pr_views p = Some vs \<longrightarrow>
      vs = map (view_of \<circ> th_worker) (pr_threads p') \<and> length vs = length ws \<and> pr_views p' = Some vs \<and>
      (\<forall>t \<in> set (pr_threads p'). th_pc t = Ended)) \<and>
    (pr_main p' = Exited \<and> \<not> pr_thrown p' \<longrightarrow> pr_views p' \<noteq> None)"
proof (intro conjI allI impI)
  have r: "reachable pe ws p'" by (rule reachable_run [OF assms(2,1)])
  then have j: "join_inv p'" by (rule join_inv_run)
  have n: "thread_count p' = length ws" using idle_inv_run [OF r] by (simp add: idle_inv_def)
  fix vs assume "pr_views p = Some vs"
  from views_run [OF assms(2,1) this] show v: "pr_views p' = Some vs" .
  then show vs: "vs = map (view_of \<circ> th_worker) (pr_threads p')" and "\<forall>t \<in> set (pr_threads p'). th_pc t = Ended"
    using j by (auto simp: join_inv_def all_ended_def all_set_conv_all_nth)
  show "length vs = length ws" unfolding vs using n by simp
next
  assume "pr_main p' = Exited \<and> \<not> pr_thrown p'"
  then show "pr_views p' \<noteq> None"
    using join_inv_run [OF reachable_run [OF assms(2,1)]] by (simp add: join_inv_def)
qed

text \<open>
  A signal the handler takes always finds the flag of the run, and stops it for good: the flag is
  cleared and no step of any thread sets it again. When the process exits, both handlers are
  restored and the pointer is null.
\<close>

lemma signal_stops_run:
  assumes "reachable pe ws p" "process_step pe p a p'" "process_run pe p' bs p''"
  shows "(a \<in> {Sigint, Sigterm} \<longrightarrow> pr_flag_pointer p \<and> \<not> pr_running p'') \<and>
    (pr_main p'' = Exited \<longrightarrow> \<not> pr_on_int p'' \<and> \<not> pr_on_term p'' \<and> \<not> pr_flag_pointer p'')"
proof (intro conjI impI)
  assume a: "a \<in> {Sigint, Sigterm}"
  then have "pr_on_int p \<or> pr_on_term p" "p' = on_signal p" using assms(2) by auto
  moreover from this(1) show "pr_flag_pointer p"
    using signals_inv_run [OF assms(1)] by (auto simp: signals_inv_def scope_defs)
  ultimately have "\<not> pr_running p'" by simp
  then show "\<not> pr_running p''" using flag_run [OF assms(3)] by blast
next
  assume "pr_main p'' = Exited"
  moreover have "signals_inv p''"
    using signals_inv_run reachable_run [OF assms(3) reachable_step [OF assms(1,2)]] by blast
  ultimately show "\<not> pr_on_int p''" "\<not> pr_on_term p''" "\<not> pr_flag_pointer p''"
    by (simp_all add: signals_inv_def scope_defs)
qed

end
