(* ===== verification/Run_Liveness.thy ===== *)
theory Run_Liveness
  imports Run_Correct
begin

text \<open>
  The end of \<open>RunBenchmark\<close> and of the process (\<open>src/orchestrator/benchmark_orchestrator.cpp\<close>): once the flag
  is cleared everything comes to its end, whatever the scheduler does; and the way out that an
  exception of the main thread takes, where it does not.
\<close>

section \<open>Pieces return\<close>

text \<open>The system calls behind an engine come back.\<close>

definition answers :: "'s engine_ops \<Rightarrow> bool" where
  "answers ops \<longleftrightarrow> (\<forall>rq s. eo_submit ops rq s \<noteq> None) \<and> (\<forall>mx s. eo_poll ops 1 mx s \<noteq> None)"

definition returns :: "('w, 'a) wprog \<Rightarrow> bool" where
  "returns m \<longleftrightarrow> (\<forall>w. m w \<noteq> None)"

lemma returns_bindW: "returns m \<Longrightarrow> (\<And>a. returns (f a)) \<Longrightarrow> returns (bindW m f)"
  by (auto simp: returns_def bindW_def split: option.splits outcome.splits sum.splits)

lemma returns_counted: "returns m \<Longrightarrow> returns (counted m)"
  by (auto simp: returns_def counted_def split: option.splits outcome.splits)

lemma returns_simps [simp]:
  "returns (returnW a)" "returns (add_in_flight d)" "returns (lift_outcome f)"
  "returns (load_running env)" "returns (read_clock env)"
  by (simp_all add: returns_def returnW_def add_in_flight_def lift_outcome_def load_running_def
      read_clock_def split: prod.split)

lemma returns_engine_call: "(\<And>s. m s \<noteq> None) \<Longrightarrow> returns (engine_call m)"
  by (auto simp: returns_def engine_call_def split: option.splits)

lemma returns_case: "(\<And>w n. returns (f w n)) \<Longrightarrow> returns (\<lambda>(w, n). f w n (w, n))"
  by (simp add: returns_def)

lemma returns_submit_one:
  assumes "answers (we_ops env)"
  shows "returns (submit_one env)"
proof -
  have call: "returns (engine_call (eo_submit (we_ops env) rq))" for rq
    using assms by (intro returns_engine_call) (simp add: answers_def)
  define M where "M = (\<lambda>rq w. case engine_call (eo_submit (we_ops env) rq) w of
      Some (Done (Inl e, w3)) \<Rightarrow> (case release_slot env (rq_id rq) w3 of
          Done w4 \<Rightarrow> Some (Done (Inl e, w4)) | AssertFail x \<Rightarrow> Some (AssertFail x) | Undefined \<Rightarrow> Some Undefined)
    | r \<Rightarrow> r)"
  have "returns (M rq)" for rq
    using call [of rq] by (auto simp: returns_def M_def split: option.splits outcome.splits sum.splits)
  then have "returns (bindW (read_clock env) (\<lambda>t. M (rq\<lparr>rq_submit_time := t\<rparr>)))" for rq
    by (intro returns_bindW) simp_all
  then have "bindW (read_clock env) (\<lambda>t. M (rq\<lparr>rq_submit_time := t\<rparr>)) w \<noteq> None" for rq w
    by (simp add: returns_def)
  moreover have "submit_one env w = (case generate_next_io env w of
      AssertFail x \<Rightarrow> Some (AssertFail x) | Undefined \<Rightarrow> Some Undefined
    | Done (rq, w1) \<Rightarrow> bindW (read_clock env) (\<lambda>t. M (rq\<lparr>rq_submit_time := t\<rparr>)) w1)" for w
    by (simp only: submit_one_def M_def Let_def)
  ultimately show ?thesis by (simp add: returns_def split: outcome.split prod.split)
qed

lemma returns_loop_step:
  assumes "answers (we_ops env)"
  shows "returns (loop_step env depth pc)"
proof -
  have poll: "returns (engine_call (eo_poll (we_ops env) 1 mx))" for mx
    using assms by (intro returns_engine_call) (simp add: answers_def)
  have sc: "returns (submit_counted env)"
    unfolding submit_counted_def by (intro returns_bindW returns_counted returns_submit_one assms) simp
  have sync: "returns (sync_iteration env)"
    unfolding sync_iteration_def by (auto intro!: returns_bindW returns_submit_one assms poll)
  have drain: "returns (\<lambda>(w, n). if running \<or> n > 0
       then bindW (counted (engine_call (eo_poll (we_ops env) 1 depth))) (\<lambda>cs.
            bindW (counted (read_clock env)) (\<lambda>now. returnW (Reaping now cs))) (w, n)
       else returnW Finished (w, n))" for running :: bool
  proof -
    have "returns (bindW (counted (engine_call (eo_poll (we_ops env) 1 depth))) (\<lambda>cs.
            bindW (counted (read_clock env)) (\<lambda>now. returnW (Reaping now cs))))"
      by (intro returns_bindW returns_counted poll) simp_all
    then show ?thesis by (auto simp: returns_def returnW_def)
  qed
  show ?thesis
    by (cases "(env, depth, pc)" rule: loop_step.cases)
      (auto intro!: returns_bindW returns_counted sync sc drain)
qed

lemma thread_step_returns: "answers (we_ops env) \<Longrightarrow> thread_step env depth pc x \<noteq> None"
  using returns_loop_step [of env depth pc]
  by (cases x) (auto simp: returns_def thread_step_def split: option.splits outcome.splits sum.splits prod.splits)

section \<open>The measure\<close>

text \<open>The steps each thread has at most before it, with the flag cleared.\<close>

fun pc_rank :: "thread_pc \<Rightarrow> int \<Rightarrow> nat" where
  "pc_rank Unstarted n = 6"
| "pc_rank Arriving n = 5"
| "pc_rank Waiting n = 4"
| "pc_rank (Looping pc) n = thread_rank pc n + 1"
| "pc_rank Ended n = 0"

definition main_rank :: "nat \<Rightarrow> main_pc \<Rightarrow> nat" where
  "main_rank n m = (case m of
     Set_Flag_Pointer \<Rightarrow> 3 * n + 15 | Install_Int \<Rightarrow> 3 * n + 14 | Install_Term \<Rightarrow> 3 * n + 13
   | Starting k \<Rightarrow> 2 * n + 12 + (n - k) | Supervising \<Rightarrow> 2 * n + 11 | Joining k \<Rightarrow> n + 10 + (n - k)
   | Stop_Sampler \<Rightarrow> n + 9 | Join_Sampler \<Rightarrow> n + 8 | Summarising \<Rightarrow> n + 7 | Restore_Int \<Rightarrow> n + 6
   | Restore_Term \<Rightarrow> n + 5 | Clear_Flag_Pointer \<Rightarrow> n + 4 | Destroy_Sampler \<Rightarrow> n + 3
   | Destroy_Sampler_Join \<Rightarrow> n + 2 | Destroying k \<Rightarrow> 1 + (n - k) | Exited \<Rightarrow> 0)"

definition sampler_rank :: "sampler_pc \<Rightarrow> nat" where
  "sampler_rank s = (case s of Sampler_Ended \<Rightarrow> 0 | _ \<Rightarrow> 1)"

definition threads_rank :: "('g, 'd, 's, 'k) process \<Rightarrow> nat" where
  "threads_rank p = (\<Sum>t \<leftarrow> pr_threads p. pc_rank (th_pc t) (th_in_flight t))"

definition process_rank :: "('g, 'd, 's, 'k) process \<Rightarrow> nat" where
  "process_rank p = main_rank (thread_count p) (pr_main p) + sampler_rank (pr_sampler p) + threads_rank p"

lemma sum_list_update_less:
  "i < length xs \<Longrightarrow> f y < f (xs ! i) \<Longrightarrow> (\<Sum>x \<leftarrow> xs[i := y]. f x) < (\<Sum>x \<leftarrow> xs. f x :: nat)"
proof (induction xs arbitrary: i)
  case (Cons x xs)
  then show ?case by (cases i) auto
qed simp

lemma threads_rank_set_pc:
  "i < thread_count p \<Longrightarrow> pc_rank pc (th_in_flight (pr_threads p ! i)) < pc_rank (th_pc (pr_threads p ! i)) (th_in_flight (pr_threads p ! i)) \<Longrightarrow>
    pr_threads p' = (pr_threads p)[i := (pr_threads p ! i)\<lparr>th_pc := pc\<rparr>] \<Longrightarrow> threads_rank p' < threads_rank p"
  unfolding threads_rank_def by (simp add: sum_list_update_less)

lemma first_pc_rank: "thread_rank (first_pc config) 0 < 3"
  by (simp add: first_pc_def)


section \<open>Every step but a signal lowers the measure\<close>

lemma worker_ranked:
  assumes "reachable pe ws p" "constructed pe rep ws" "\<And>i. i < length ws \<Longrightarrow> prompt_engine (pe_ops pe i) (rep i)"
    and "\<not> pr_running p" "worker_step pe i p = Some p'"
  shows "process_rank p' < process_rank p"
proof -
  have ok: "threads_ok pe rep ws p" by (rule threads_ok_run [OF assms(1,2)])
  then have n: "thread_count p = length ws"
    and t: "i < length ws \<Longrightarrow> thread_ok pe rep i (ws ! i) (pr_threads p ! i)" by (simp_all add: threads_ok_def)
  have "threads_rank p' < threads_rank p"
    using assms(5)
  proof (cases rule: worker_stepE)
    case (arrive r)
    then show ?thesis by (intro threads_rank_set_pc [where i = i and pc = Waiting]) simp_all
  next
    case pass
    have "th_in_flight (pr_threads p ! i) = 0" using pass t n by (simp add: thread_ok_def)
    then show ?thesis
      using pass first_pc_rank [of "wk_config (th_worker (pr_threads p ! i))"]
      by (intro threads_rank_set_pc [where i = i and pc = "Looping (first_pc (wk_config (th_worker (pr_threads p ! i))))"])
        simp_all
  next
    case finish
    then show ?thesis by (intro threads_rank_set_pc [where i = i and pc = Ended]) simp_all
  next
    case (piece pc pc' w' n')
    let ?w = "th_worker (pr_threads p ! i)"
    have i: "i < length ws" using piece(1) n by simp
    have inv: "thread_inv (thread_env pe i) (rep i) (nat (depth_of (ws ! i))) (wk_config (ws ! i)) pc
        (see_flag (pr_running p) ?w, th_in_flight (pr_threads p ! i))"
      using t [OF i] piece(2) by (simp add: thread_ok_def)
    then have "wk_config ?w = wk_config (ws ! i)"
      using thread_inv_config by (simp only: thread_inv_see_flag) blast
    then have "1 \<le> depth_of ?w" using constructedD(4) [OF assms(2) i] by simp
    then have "thread_rank pc' n' < thread_rank pc (th_in_flight (pr_threads p ! i))"
      using thread_step_ranked [OF flag_thread_env _ _ _ inv piece(3,4)] assms(3) [OF i] assms(4)
      by (simp add: see_flag_def)
    then show ?thesis
      using piece(1,2) unfolding threads_rank_def piece(5) by (simp add: sum_list_update_less)
  qed
  then show ?thesis
    using worker_frame(1,7,9) [OF assms(5)] by (simp add: process_rank_def)
qed

lemma sampler_ranked:
  assumes "sampler_step p = Some p'" "\<not> pr_running p"
  shows "process_rank p' < process_rank p"
  using assms by (auto simp: sampler_step_def process_rank_def sampler_rank_def threads_rank_def
      split: sampler_pc.splits if_splits)

lemma main_ranked:
  assumes "main_step p = Some p'" "start_inv p"
  shows "process_rank p' < process_rank p"
proof (cases "\<exists>k. pr_main p = Starting k \<and> k < thread_count p")
  case True
  then obtain k where k: "pr_main p = Starting k" "k < thread_count p"
    "p' = (set_pc k Arriving p)\<lparr>pr_main := Starting (Suc k)\<rparr>"
    using assms(1) by (auto simp: main_step_defs)
  have "th_pc (pr_threads p ! k) = Unstarted"
    using assms(2) k by (auto simp: start_inv_def unstarted_from_def)
  then have "threads_rank p' < threads_rank p"
    using k by (intro threads_rank_set_pc [where i = k and pc = Arriving]) simp_all
  then show ?thesis using k by (simp add: process_rank_def main_rank_def)
next
  case False
  then have "pr_threads p' = pr_threads p"
    using assms(1) by (cases "pr_main p"; auto simp: main_step_defs split: if_splits)
  then show ?thesis
    using assms(1) False main_frame(3) [OF assms(1)]
    by (cases "pr_main p")
      (auto simp: process_rank_def threads_rank_def main_rank_def main_step_defs split: if_splits)
qed

definition is_signal :: "actor \<Rightarrow> bool" where
  "is_signal a \<longleftrightarrow> a \<in> {Sigint, Sigterm}"

lemma signal_rank: "process_rank (on_signal p) = process_rank p"
  by (simp add: process_rank_def threads_rank_def)

lemma step_ranked:
  assumes "reachable pe ws p" "constructed pe rep ws" "\<And>i. i < length ws \<Longrightarrow> prompt_engine (pe_ops pe i) (rep i)"
    and "\<not> pr_running p" "process_step pe p a p'" "a \<noteq> Main_Exception"
  shows "process_rank p' + of_bool (\<not> is_signal a) \<le> process_rank p"
  using assms(5)
proof (cases rule: process_step.cases)
  case main
  then show ?thesis using main_ranked [OF main(2) start_inv_run [OF assms(1)]] by simp
next
  case (worker i)
  then show ?thesis using worker_ranked [OF assms(1-4) worker(2)] by simp
next
  case sampler
  then show ?thesis using sampler_ranked [OF sampler(2) assms(4)] by simp
qed (use assms(6) in \<open>simp_all add: is_signal_def signal_rank\<close>)

lemma run_ranked:
  assumes "process_run pe p bs p'" "reachable pe ws p" "constructed pe rep ws"
    "\<And>i. i < length ws \<Longrightarrow> prompt_engine (pe_ops pe i) (rep i)" "\<not> pr_running p" "Main_Exception \<notin> set bs"
  shows "process_rank p' + length (filter (\<lambda>a. \<not> is_signal a) bs) \<le> process_rank p"
  using assms(1,2,5,6)
proof (induction rule: process_run.induct)
  case (snoc p bs p' a p'')
  have r: "reachable pe ws p'" by (rule reachable_run [OF snoc.hyps(1) snoc.prems(1)])
  have "\<not> pr_running p'" using flag_run [OF snoc.hyps(1)] snoc.prems(2) by blast
  then have "process_rank p'' + of_bool (\<not> is_signal a) \<le> process_rank p'"
    using step_ranked [OF r assms(3,4) _ snoc.hyps(2)] snoc.prems(3) by (cases "a = Main_Exception") auto
  then show ?case using snoc.IH snoc.prems by auto
qed simp


section \<open>Progress\<close>

text \<open>A thread that was started and has not ended can move, or another one before the barrier can.\<close>

lemma threads_ok_thread: "threads_ok pe rep ws p \<Longrightarrow> i < length ws \<Longrightarrow> thread_ok pe rep i (ws ! i) (pr_threads p ! i)"
  by (simp add: threads_ok_def)

lemma sampler_progress: "pr_sampler p \<noteq> Sampler_Ended \<Longrightarrow> \<exists>p'. sampler_step p = Some p'"
  by (cases "pr_sampler p") (auto simp: sampler_step_def)

lemma worker_progress:
  assumes "reachable pe ws p" "constructed pe rep ws" "\<And>i. i < length ws \<Longrightarrow> answers (pe_ops pe i)"
    and "\<not> pr_thrown p" "stage (pr_main p) = 5" "i < thread_count p" "th_pc (pr_threads p ! i) \<noteq> Ended"
  shows "\<exists>j p'. worker_step pe j p = Some p'"
proof -
  have ok: "threads_ok pe rep ws p" by (rule threads_ok_run [OF assms(1,2)])
  have s: "start_inv p" and b: "barrier_inv p"
    using start_inv_run [OF assms(1)] barrier_inv_run [OF assms(1)] .
  have n: "thread_count p = length ws" using ok by (simp add: threads_ok_def)
  have started: "th_pc (pr_threads p ! j) \<noteq> Unstarted" if "j < thread_count p" for j
    using s assms(4,5) that by (cases "pr_main p") (auto simp: start_inv_def unstarted_from_def)
  have bar: "pr_barrier p = Some (unarrived p)" using b assms(5) by (auto simp: barrier_inv_def)
  show ?thesis
  proof (cases "unarrived p = 0")
    case False
    then obtain j where "j < thread_count p" "th_pc (pr_threads p ! j) = Arriving"
      using started by (auto simp: unarrived_zero before_barrier_def)
    then show ?thesis using bar False
      by (intro exI [of _ j]) (auto simp: worker_step_def Let_def split: nat.split)
  next
    case True
    then have "\<not> before_barrier (th_pc (pr_threads p ! i))" using assms(6) by (simp add: unarrived_zero)
    then consider "th_pc (pr_threads p ! i) = Waiting" | pc where "th_pc (pr_threads p ! i) = Looping pc"
      using assms(7) by (cases "th_pc (pr_threads p ! i)") (auto simp: before_barrier_def)
    then show ?thesis
    proof cases
      case 1
      then show ?thesis using bar True assms(6)
        by (intro exI [of _ i]) (simp add: worker_step_def Let_def)
    next
      case (2 pc)
      let ?t = "pr_threads p ! i" and ?w = "th_worker (pr_threads p ! i)"
      have i: "i < length ws" using assms(6) n by simp
      have "thread_inv (thread_env pe i) (rep i) (nat (depth_of (ws ! i))) (wk_config (ws ! i)) pc
          (see_flag (pr_running p) ?w, th_in_flight ?t)"
        using 2 threads_ok_thread [OF ok i] by (simp add: thread_ok_def)
      from piece_inv [OF assms(2) i this, of "effective_iodepth (wk_config ?w)"]
        thread_step_returns [of "thread_env pe i" "effective_iodepth (wk_config ?w)" pc "(see_flag (pr_running p) ?w, th_in_flight ?t)"]
        assms(3) [OF i]
      obtain pc' w' n' where "thread_step (thread_env pe i) (effective_iodepth (wk_config ?w)) pc
          (see_flag (pr_running p) ?w, th_in_flight ?t) = Some (Done (pc', (w', n')))"
        by (auto split: option.splits outcome.splits)
      then show ?thesis using 2 assms(6)
        by (intro exI [of _ i]) (simp add: worker_step_def Let_def)
    qed
  qed
qed

lemma process_progress:
  assumes "reachable pe ws p" "constructed pe rep ws" "\<And>i. i < length ws \<Longrightarrow> answers (pe_ops pe i)"
    and "\<not> pr_thrown p" "pr_main p \<noteq> Exited"
  shows "\<exists>a p'. \<not> is_signal a \<and> a \<noteq> Main_Exception \<and> process_step pe p a p'"
proof (cases "main_step p")
  case (Some p')
  then show ?thesis by (intro exI [of _ Main] exI [of _ p']) (simp add: is_signal_def)
next
  case None
  have all: "all_ended (thread_count p) p" if "6 \<le> stage (pr_main p)"
    using join_inv_run [OF assms(1)] assms(4) that by (simp add: join_inv_def)
  from None assms(5) consider
      k where "pr_main p = Joining k" "k < thread_count p" "th_pc (pr_threads p ! k) \<noteq> Ended"
    | "pr_sampler p \<noteq> Sampler_Ended"
    using all by (cases "pr_main p") (auto simp: main_step_defs all_ended_def split: if_splits)
  then show ?thesis
  proof cases
    case 1
    from worker_progress [OF assms(1-4) _ 1(2,3)] 1(1) obtain j p' where "worker_step pe j p = Some p'" by auto
    then show ?thesis by (intro exI [of _ "Worker j"] exI [of _ p']) (simp add: is_signal_def)
  next
    case 2
    from sampler_progress [OF this] obtain p' where "sampler_step p = Some p'" by blast
    then show ?thesis by (intro exI [of _ Sampler] exI [of _ p']) (simp add: is_signal_def)
  qed
qed

section \<open>Properties\<close>

text \<open>
  C5. The end of a run: once the flag is cleared, by a signal, a failing worker or the main thread, and
  as long as no exception leaves \<open>RunBenchmark\<close>, the process takes at most \<open>process_rank\<close> more steps,
  signals aside, whatever the scheduler does, and while it has not exited some thread can take one:
  there is no deadlock and no livelock. When it exits every worker thread has ended. The engines
  are those whose calls return and whose polls report.
\<close>

theorem stop_ends_run:
  assumes "reachable pe ws p" "constructed pe rep ws"
    and "\<And>i. i < length ws \<Longrightarrow> prompt_engine (pe_ops pe i) (rep i) \<and> answers (pe_ops pe i)"
    and "\<not> pr_running p" "\<not> pr_thrown p" "process_run pe p bs p'" "Main_Exception \<notin> set bs"
  shows "length (filter (\<lambda>a. \<not> is_signal a) bs) + process_rank p' \<le> process_rank p \<and>
    (if pr_main p' = Exited then \<forall>t \<in> set (pr_threads p'). th_pc t = Ended
     else \<exists>a p''. \<not> is_signal a \<and> a \<noteq> Main_Exception \<and> process_step pe p' a p'')"
proof (intro conjI)
  have r: "reachable pe ws p'" by (rule reachable_run [OF assms(6,1)])
  show "length (filter (\<lambda>a. \<not> is_signal a) bs) + process_rank p' \<le> process_rank p"
    using run_ranked [OF assms(6,1,2) _ assms(4,7)] assms(3) by simp
  have t: "\<not> pr_thrown p'" using assms(6,7,5)
  proof (induction rule: process_run.induct)
    case (snoc p bs p1 a p2)
    from snoc.hyps(2) show ?case
      using snoc by (cases rule: process_step.cases) (auto simp: worker_frame(2) sampler_frame(2) main_frame(4))
  qed
  show "if pr_main p' = Exited then \<forall>t \<in> set (pr_threads p'). th_pc t = Ended
     else \<exists>a p''. \<not> is_signal a \<and> a \<noteq> Main_Exception \<and> process_step pe p' a p''"
    using process_progress [OF r assms(2) _ t] assms(3) join_inv_run [OF r] t
    by (auto simp: join_inv_def all_ended_def all_set_conv_all_nth)
qed

text \<open>After a thread could not be started: an earlier one is at a barrier that is gone.\<close>

definition start_failed :: "('g, 'd, 's, 'k) process \<Rightarrow> bool" where
  "start_failed p \<longleftrightarrow> 0 < thread_count p \<and> pr_barrier p = None \<and> th_pc (pr_threads p ! 0) \<in> {Arriving, Waiting} \<and>
     pr_main p \<in> {Restore_Int, Restore_Term, Clear_Flag_Pointer, Destroy_Sampler, Destroy_Sampler_Join, Destroying 0}"

lemma start_failed_step:
  assumes "process_step pe p a p'" "start_failed p"
  shows "start_failed p'"
  using assms(1)
proof (cases rule: process_step.cases)
  case main
  then show ?thesis using assms(2)
    by (cases "pr_main p") (auto simp: start_failed_def main_step_defs split: if_splits)
next
  case throws
  then show ?thesis using throws_frame(11) [OF throws(2)] assms(2) by (auto simp: start_failed_def)
next
  case (worker i)
  from worker(2) have "pr_threads p' ! 0 = pr_threads p ! 0" "pr_barrier p' = None"
    using assms(2) by (cases rule: worker_stepE; cases "i = 0"; auto simp: start_failed_def)+
  then show ?thesis using assms(2) worker_frame(1,9) [OF worker(2)] by (simp add: start_failed_def)
next
  case sampler
  then show ?thesis
    using assms(2) sampler_frame(1,8,10) [OF sampler(2)] by (simp add: start_failed_def)
qed (use assms(2) in \<open>simp_all add: start_failed_def\<close>)



text \<open>
  The same holds for an exception of the display in the timer loop unless the flag is cleared: nothing
  on the way out does, so a process with a started worker exits only if a worker fails.
\<close>

lemma exit_needs_cleared_flag:
  assumes "reachable pe ws p" "pr_main p = Exited" "i < thread_count p" "th_pc (pr_threads p ! i) \<noteq> Unstarted"
  shows "\<not> pr_running p"
proof -
  have "th_pc (pr_threads p ! i) = Ended"
    using join_inv_run [OF assms(1)] assms(2-4) by (auto simp: join_inv_def)
  then show ?thesis using flag_inv_run [OF assms(1)] assms(3) by (auto simp: flag_inv_def)
qed

end
