(* ===== verification/Run_Samples.thy ===== *)
theory Run_Samples
  imports Run_Correct
begin

text \<open>
  What the sampling thread of the aggregator (\<open>src/telemetry/metrics_aggregator.cpp\<close>) reads while the workers
  run: every sample of a worker accounts for a stage of one log of completions, so the differences
  of counters that \<open>TakeSnapshot\<close> forms are counts of completions.
\<close>

section \<open>The log only grows\<close>

definition extends :: "('w \<Rightarrow> ('g, 'd, 's, 'c) worker) \<Rightarrow> ('w, 'a) wprog \<Rightarrow> bool" where
  "extends f m \<longleftrightarrow> (\<forall>x r x' es. m x = Some (Done (r, x')) \<longrightarrow> accounted (f x) es \<longrightarrow>
     (\<exists>es'. accounted (f x') (es' @ es)))"

lemma extendsD:
  "extends f m \<Longrightarrow> m x = Some (Done (r, x')) \<Longrightarrow> accounted (f x) es \<Longrightarrow> \<exists>es'. accounted (f x') (es' @ es)"
  unfolding extends_def by blast

lemma extends_same: "(\<And>x r x' es. m x = Some (Done (r, x')) \<Longrightarrow> accounted (f x') es = accounted (f x) es) \<Longrightarrow> extends f m"
  unfolding extends_def by (metis append_Nil)

lemma extends_returnW [simp]: "extends f (returnW a)"
  by (rule extends_same) (simp add: returnW_def)

lemma extends_bindW: "extends f m \<Longrightarrow> (\<And>a. extends f (g a)) \<Longrightarrow> extends f (bindW m g)"
  unfolding extends_def bindW_done_iff by (metis append_assoc)

lemma extends_counted: "extends id m \<Longrightarrow> extends fst (counted m)"
  unfolding extends_def by (metis counted_done_iff fst_conv id_apply surj_pair)

lemma extends_if: "extends f m \<Longrightarrow> extends f m' \<Longrightarrow> extends f (if b then m else m')"
  by simp

lemma accounted_upd [simp]:
  "accounted (w\<lparr>wk_pool := a\<rparr>) es = accounted w es" "accounted (w\<lparr>wk_engine := b\<rparr>) es = accounted w es"
  "accounted (w\<lparr>wk_env := c\<rparr>) es = accounted w es" "accounted (w\<lparr>wk_offset_gen := e\<rparr>) es = accounted w es"
  "accounted (w\<lparr>wk_direction_decider := f\<rparr>) es = accounted w es"
  by (simp_all add: accounted_def)

lemma extends_engine_call: "extends id (engine_call m)"
  by (rule extends_same) (auto simp: engine_call_def split: option.splits)

lemma extends_read_clock: "extends id (read_clock env)"
  by (rule extends_same) (auto simp: read_clock_def split: prod.splits)

lemma extends_load_running: "extends id (load_running env)"
  by (rule extends_same) (auto simp: load_running_def split: prod.splits)

lemma extends_add_in_flight: "extends fst (add_in_flight d)"
  by (rule extends_same) (auto simp: add_in_flight_def)

lemma release_slot_accounted: "release_slot env i w = Done w' \<Longrightarrow> accounted w' es = accounted w es"
  by (auto simp: release_slot_def bindO_def split: outcome.splits)

lemma generate_next_io_accounted: "generate_next_io env w = Done (rq, w') \<Longrightarrow> accounted w' es = accounted w es"
  by (auto simp: generate_next_io_def bindO_def split: outcome.splits prod.splits)

lemma record_completion_extends:
  assumes "record_completion env c now w = Done w'" "accounted w es"
  shows "\<exists>x. accounted w' ((x, c) # es)"
proof -
  define x where "x = (if now - cp_submit_time c > 0 then word_of_int (now - cp_submit_time c) else 0 :: u64)"
  have "accounted w' ((x, c) # es)"
    using assms release_slot_accounted [OF assms(1) [unfolded record_completion_def Let_def], of "(x, c) # es"]
    by (cases "cp_direction c") (auto simp: accounted_def x_def)
  then show ?thesis ..
qed


lemma record_each_extends:
  "record_each env now cs w = Done w' \<Longrightarrow> accounted w es \<Longrightarrow> \<exists>es'. accounted w' (es' @ es)"
proof (induction cs arbitrary: w es)
  case (Cons c cs)
  then obtain w1 where w1: "record_completion env c now w = Done w1" "record_each env now cs w1 = Done w'"
    by (auto simp: bindO_def split: outcome.splits)
  obtain x where "accounted w1 ((x, c) # es)" using record_completion_extends [OF w1(1) Cons.prems(2)] ..
  from Cons.IH [OF w1(2) this] obtain es' where "accounted w' (es' @ (x, c) # es)" ..
  then show ?case by (intro exI [of _ "es' @ [(x, c)]"]) simp
qed (auto intro: exI [of _ "[]"])

lemma extends_lift_outcome:
  "(\<And>w w' es. f w = Done w' \<Longrightarrow> accounted w es \<Longrightarrow> \<exists>es'. accounted w' (es' @ es)) \<Longrightarrow> extends id (lift_outcome f)"
  by (auto simp: extends_def lift_outcome_def bindO_def split: outcome.splits)

lemma extends_record_completion: "extends id (lift_outcome (record_completion env c now))"
  by (rule extends_lift_outcome) (metis append_Cons append_Nil record_completion_extends)

lemma extends_record_each: "extends id (lift_outcome (record_each env now cs))"
  by (rule extends_lift_outcome) (rule record_each_extends)

lemma extends_submit_one: "extends id (submit_one env)"
proof -
  define M where "M = (\<lambda>rq w. case engine_call (eo_submit (we_ops env) rq) w of
      Some (Done (Inl e, w3)) \<Rightarrow> (case release_slot env (rq_id rq) w3 of
          Done w4 \<Rightarrow> Some (Done (Inl e, w4)) | AssertFail x \<Rightarrow> Some (AssertFail x) | Undefined \<Rightarrow> Some Undefined)
    | r \<Rightarrow> r)"
  have "extends id (M rq)" for rq
    using extends_engine_call [of "eo_submit (we_ops env) rq"] unfolding extends_def M_def
    by (fastforce dest: release_slot_accounted split: option.splits outcome.splits sum.splits)
  then have m: "extends id (bindW (read_clock env) (\<lambda>t. M (rq\<lparr>rq_submit_time := t\<rparr>)))" for rq
    by (intro extends_bindW extends_read_clock)
  have eq: "submit_one env w = (case generate_next_io env w of
      AssertFail x \<Rightarrow> Some (AssertFail x) | Undefined \<Rightarrow> Some Undefined
    | Done (rq, w1) \<Rightarrow> bindW (read_clock env) (\<lambda>t. M (rq\<lparr>rq_submit_time := t\<rparr>)) w1)" for w
    by (simp only: submit_one_def M_def Let_def)
  show ?thesis unfolding extends_def eq
    by (auto split: outcome.splits) (metis extendsD [OF m] generate_next_io_accounted id_apply)
qed

lemmas extends_rules = extends_bindW extends_counted extends_engine_call extends_if extends_returnW
  extends_read_clock extends_load_running extends_add_in_flight extends_record_completion
  extends_record_each extends_submit_one

lemma extends_submit_counted: "extends fst (submit_counted env)"
  unfolding submit_counted_def by (intro extends_rules)

lemma extends_sync_iteration: "extends id (sync_iteration env)"
  unfolding sync_iteration_def by (intro extends_rules)

lemma extends_loop_step: "extends fst (loop_step env depth pc)"
proof (cases "(env, depth, pc)" rule: loop_step.cases)
  case (4 env' depth')
  let ?poll = "bindW (counted (engine_call (eo_poll (we_ops env) 1 depth))) (\<lambda>completions.
            bindW (counted (read_clock env)) (\<lambda>now. returnW (Reaping now completions)))"
  have "extends fst ?poll" by (intro extends_rules)
  then have "extends fst (\<lambda>(w, n). if running \<or> n > 0 then ?poll (w, n) else returnW Finished (w, n))"
    for running :: bool
    unfolding extends_def by (auto simp: returnW_def split: if_splits intro: exI [of _ "[]"])
  then show ?thesis using 4 by (auto intro!: extends_rules)
qed (auto intro!: extends_rules extends_submit_counted extends_sync_iteration)

lemma thread_step_extends:
  assumes "thread_step env depth pc (w, n) = Some (Done (pc', (w', n')))" "accounted w es"
  shows "\<exists>es'. accounted w' (es' @ es)"
  using assms(1)
proof (cases rule: thread_stepE)
  case 1
  from extendsD [OF extends_loop_step 1] assms(2) show ?thesis by simp
next
  case (2 e w1 n1)
  from extendsD [OF extends_loop_step 2(1)] assms(2) obtain es' where "accounted w1 (es' @ es)" by auto
  then show ?thesis using 2(3) by (auto simp: record_failure_def accounted_def)
qed

section \<open>Samples are stages of the log\<close>

text \<open>A view, and the last completions of a log, latest first, that it accounts for.\<close>

definition view_accounts :: "worker_view \<Rightarrow> (u64 \<times> io_completion) list \<Rightarrow> bool" where
  "view_accounts v entries \<longleftrightarrow>
     vw_histogram v = foldr hist_record (map fst entries) (hist_empty 64) \<and>
     vw_iops v = of_nat (length entries) \<and>
     vw_bytes v = sum_list (map (\<lambda>x. word_of_int (cp_bytes (snd x))) entries) \<and>
     vw_read_errors v =
       of_nat (length (filter (\<lambda>x. \<not> cp_success (snd x) \<and> cp_direction (snd x) = Dir_kRead) entries)) \<and>
     vw_write_errors v =
       of_nat (length (filter (\<lambda>x. \<not> cp_success (snd x) \<and> cp_direction (snd x) = Dir_kWrite) entries))"

lemma view_accounts_of: "view_accounts (view_of w) es = accounted w es"
  by (simp add: view_accounts_def view_of_def accounted_def)

definition sampled ::
    "nat \<Rightarrow> (u64 \<times> io_completion) list \<Rightarrow> nat list \<Rightarrow> ('g, 'd, 's, 'k) process \<Rightarrow> bool" where
  "sampled i es ms p \<longleftrightarrow> accounted (th_worker (pr_threads p ! i)) es \<and> sorted ms \<and>
     length ms = length (pr_samples p) \<and> (\<forall>m \<in> set ms. m \<le> length es) \<and>
     (\<forall>k < length ms. i < length (pr_samples p ! k) \<and> view_accounts (pr_samples p ! k ! i) (last_n (ms ! k) es))"

lemma last_n_append: "m \<le> length es \<Longrightarrow> last_n m (es' @ es) = last_n m es"
  by (simp add: last_n_def)

lemma sampled_grows:
  assumes "sampled i es ms p" "accounted (th_worker (pr_threads p' ! i)) (es' @ es)" "pr_samples p' = pr_samples p"
  shows "sampled i (es' @ es) ms p'"
  using assms unfolding sampled_def by (auto simp: last_n_append)

lemma sampled_tick:
  assumes "sampled i es ms p" "i < thread_count p" "pr_threads p' = pr_threads p"
    and "pr_samples p' = pr_samples p @ [map (view_of \<circ> th_worker) (pr_threads p)]"
  shows "sampled i es (ms @ [length es]) p'"
  using assms unfolding sampled_def
  by (auto simp: sorted_append nth_append less_Suc_eq view_accounts_of last_n_def)


lemma worker_step_grows:
  assumes "worker_step pe j p = Some p'" "accounted (th_worker (pr_threads p ! i)) es"
  shows "\<exists>es'. accounted (th_worker (pr_threads p' ! i)) (es' @ es)" "pr_samples p' = pr_samples p"
proof -
  have same: "\<exists>es'. accounted (th_worker t) (es' @ es)" if "th_worker t = th_worker (pr_threads p ! i)"
    for t :: "('a, 'b, 'c, 'd) thread"
    using assms(2) that by (intro exI [of _ "[]"]) simp
  show "\<exists>es'. accounted (th_worker (pr_threads p' ! i)) (es' @ es)"
    using assms(1)
  proof (cases rule: worker_stepE)
    case (piece pc pc' w' n')
    show ?thesis
    proof (cases "i = j")
      case True
      have "accounted (see_flag (pr_running p) (th_worker (pr_threads p ! j))) es"
        using assms(2) True by (simp add: see_flag_def)
      from thread_step_extends [OF piece(4) this] show ?thesis using piece(1,5) True by simp
    qed (use piece(5) same in simp)
  qed (intro same; cases "i = j"; simp)+
  show "pr_samples p' = pr_samples p" using assms(1) by (cases rule: worker_stepE) simp_all
qed

lemma sampled_run:
  assumes "reachable pe ws p" "i < length ws" "\<exists>es. accounted (ws ! i) es"
  shows "\<exists>es ms. sampled i es ms p"
  using assms(1)
proof (induction rule: process_invariant)
  case create
  obtain es where "accounted (ws ! i) es" using assms(3) ..
  then have "sampled i es [] (process_create ws)"
    using assms(2) by (simp add: sampled_def process_create_def)
  then show ?case by blast
next
  case (main p p')
  then obtain es ms where "sampled i es ms p" by blast
  moreover have "pr_samples p' = pr_samples p"
    using main(2) by (cases "pr_main p") (auto simp: main_step_defs split: if_splits)
  ultimately have "sampled i es ms p'"
    using main_threads(1) [OF main(2) start_inv_run [OF main(3)], of i] by (simp add: sampled_def)
  then show ?case by blast
next
  case (throws p p')
  then obtain es ms where "sampled i es ms p" by blast
  then have "sampled i es ms p'" using throws(2) by (auto simp: main_throws_def sampled_def split: if_splits)
  then show ?case by blast
next
  case (worker p j p')
  then obtain es ms where s: "sampled i es ms p" by blast
  then have "accounted (th_worker (pr_threads p ! i)) es" by (simp add: sampled_def)
  from worker_step_grows [OF worker(2) this] sampled_grows [OF s] show ?case by blast
next
  case (sampler p p')
  then obtain es ms where s: "sampled i es ms p" by blast
  have t: "pr_threads p' = pr_threads p" by (rule sampler_frame(8) [OF sampler(2)])
  have "pr_samples p' = pr_samples p \<or>
      pr_samples p' = pr_samples p @ [map (view_of \<circ> th_worker) (pr_threads p)]"
    using sampler(2) by (auto simp: sampler_step_def split: sampler_pc.splits if_splits)
  then show ?case
  proof
    assume "pr_samples p' = pr_samples p"
    then have "sampled i es ms p'" using s t by (simp add: sampled_def)
    then show ?case by blast
  next
    assume e: "pr_samples p' = pr_samples p @ [map (view_of \<circ> th_worker) (pr_threads p)]"
    have "i < thread_count p" using idle_inv_run [OF sampler(3)] assms(2) by (simp add: idle_inv_def)
    from sampled_tick [OF s this t e] show ?case by blast
  qed
qed (auto simp: sampled_def)


section \<open>Properties\<close>

lemma view_accounts_iops: "view_accounts v es \<Longrightarrow> vw_iops v = of_nat (length es)"
  by (simp add: view_accounts_def)


end
