(* ===== verification/Process_Example.thy ===== *)
theory Process_Example
  imports Run_Liveness Run_Samples
begin

text \<open>Runs of two workers with the blocking engine, on which the properties of the process hold.\<close>

section \<open>The setting\<close>

definition demo_process_env :: "(unit, unit, nat blocking_state, nat) process_env" where
  "demo_process_env =
     \<lparr>pe_ops = (\<lambda>i. psync_engine (quiet_os 512)), pe_uniform = (\<lambda>lo hi g. (lo, g)),
      pe_bernoulli = (\<lambda>p g. (True, g)), pe_ndebug = False, pe_now = (\<lambda>k. (int k, k + 1))\<rparr>"

lemma demo_constructed: "\<exists>w. constructed demo_process_env (\<lambda>_. blocking_rep) [w, w]"
proof -
  have pow: "is_pow2 512" unfolding is_pow2_def by (rule exI [of _ 9]) simp
  have d: "effective_iodepth demo_config = 1"
    by (simp add: effective_iodepth_def demo_config_def is_synchronous_engine_def)
  obtain pool where "buffer_pool_create (\<lambda>a n. 512) (\<lambda>_. 0) 512 512 1 = Inr pool"
    using pow by (simp add: buffer_pool_create_ok)
  then have "\<exists>w s1. worker_create (thread_env demo_process_env 0) (\<lambda>a n. 512) (\<lambda>_. 0) () () (True, 0) demo_config
      (new_blocking_engine, 0) = Some (Inr w, s1) \<and> blocking_rep s1 Map.empty"
    unfolding worker_create_def d
    by (auto simp: demo_config_def default_job_def demo_process_env_def thread_env_def psync_engine_def
        blocking_open_def new_blocking_engine_def open_file_with_direct_fallback_def quiet_os_def Let_def
        blocking_rep_def)
  then obtain w s1 where w: "worker_create (thread_env demo_process_env 0) (\<lambda>a n. 512) (\<lambda>_. 0) () () (True, 0)
      demo_config (new_blocking_engine, 0) = Some (Inr w, s1)" "blocking_rep s1 Map.empty" by blast
  define env where "env = thread_env demo_process_env 0"
  have e: "thread_env demo_process_env i = env" for i
    by (simp add: env_def thread_env_def demo_process_env_def)
  have "prompt_engine (pe_ops demo_process_env i) blocking_rep" for i
    by (simp add: demo_process_env_def psync.prompt_engine_axioms)
  moreover from this have "io_engine (pe_ops demo_process_env i) blocking_rep" for i
    by (rule prompt_engine.axioms(1))
  ultimately have "constructed demo_process_env (\<lambda>_. blocking_rep) [w, w]"
    unfolding constructed_def e using w [folded env_def] d
    by (intro allI impI exI [of _ "\<lambda>a n. 512"] exI [of _ "\<lambda>_. 0"] exI [of _ "()"] exI [of _ "(True, 0)"]
        exI [of _ demo_config] exI [of _ "(new_blocking_engine, 0)"] exI [of _ s1])
      (auto simp: less_Suc_eq)
  then show ?thesis by blast
qed

lemma quiet_answers: "answers (psync_engine (quiet_os 512))"
proof -
  have retry: "retry_on_eintr (\<lambda>w. ((512, EINVAL), w + 1)) v = Some ((512, EINVAL), v + 1)" for v :: nat
    by (subst retry_on_eintr.simps) simp
  then have "retry_on_eintr (case d of Dir_kRead \<Rightarrow> os_pread (quiet_os 512) a b c x
       | Dir_kWrite \<Rightarrow> os_pwrite (quiet_os 512) a b c x) v \<noteq> None" for d a b c x and v :: nat
    by (cases d) (simp_all add: quiet_os_def)
  then show ?thesis
    by (auto simp: answers_def psync_engine_def psync_submit_def blocking_poll_def split: option.splits prod.splits)
qed

lemma demo_engine:
  "prompt_engine (pe_ops demo_process_env i) blocking_rep \<and> answers (pe_ops demo_process_env i)"
  by (simp add: demo_process_env_def psync.prompt_engine_axioms quiet_answers)

section \<open>Runs to the end\<close>

text \<open>From every state with the flag cleared there is a run to the exit.\<close>

lemma run_completes:
  assumes "reachable pe ws p" "constructed pe rep ws"
    and "\<And>i. i < length ws \<Longrightarrow> prompt_engine (pe_ops pe i) (rep i) \<and> answers (pe_ops pe i)"
    and "\<not> pr_running p" "\<not> pr_thrown p"
  shows "\<exists>bs p'. process_run pe p bs p' \<and> pr_main p' = Exited \<and> \<not> pr_thrown p'"
  using assms(1,4,5)
proof (induction "process_rank p" arbitrary: p rule: less_induct)
  case less
  show ?case
  proof (cases "pr_main p = Exited")
    case True
    then show ?thesis using less.prems process_run.nil by blast
  next
    case False
    obtain a q where a: "\<not> is_signal a" "a \<noteq> Main_Exception" "process_step pe p a q"
      using process_progress [OF less.prems(1) assms(2) _ less.prems(3) False] assms(3) by blast
    have "process_rank q < process_rank p"
      using step_ranked [OF less.prems(1) assms(2) _ less.prems(2) a(3,2)] assms(3) a(1) by simp
    moreover have "reachable pe ws q" by (rule reachable_step [OF less.prems(1) a(3)])
    moreover have "\<not> pr_running q" using flag_step [OF a(3)] less.prems(2) by blast
    moreover have "\<not> pr_thrown q" using a(3,2) less.prems(3)
      by (cases rule: process_step.cases) (auto simp: worker_frame(2) sampler_frame(2) main_frame(4))
    ultimately obtain bs p' where "process_run pe q bs p'" "pr_main p' = Exited" "\<not> pr_thrown p'"
      using less.hyps by blast
    then show ?thesis
      using process_run_append [OF _ process_run.snoc [OF process_run.nil a(3)]] by blast
  qed
qed

text \<open>The signal scope is entered, then a signal arrives.\<close>

definition interrupted_start :: "('g, 'd, 's, bool \<times> 'k) worker list \<Rightarrow> ('g, 'd, 's, 'k) process" where
  "interrupted_start ws = (process_create ws)\<lparr>pr_flag_pointer := True, pr_on_int := True, pr_main := Install_Term,
     pr_running := False\<rparr>"

lemma scope_entered:
  "reachable pe ws ((process_create ws)\<lparr>pr_flag_pointer := True, pr_on_int := True, pr_main := Install_Term\<rparr>)"
proof -
  have "process_step pe (process_create ws) Main ((process_create ws)\<lparr>pr_flag_pointer := True, pr_main := Install_Int\<rparr>)"
    by (simp add: main_step_defs process_create_def)
  from reachable_step [OF reachable_create this]
  have r: "reachable pe ws ((process_create ws)\<lparr>pr_flag_pointer := True, pr_main := Install_Int\<rparr>)" .
  have "process_step pe ((process_create ws)\<lparr>pr_flag_pointer := True, pr_main := Install_Int\<rparr>) Main
      ((process_create ws)\<lparr>pr_flag_pointer := True, pr_on_int := True, pr_main := Install_Term\<rparr>)"
    by (simp add: main_step_defs process_create_def)
  from reachable_step [OF r this] show ?thesis .
qed

lemma signal_arrives:
  "process_step pe ((process_create ws)\<lparr>pr_flag_pointer := True, pr_on_int := True, pr_main := Install_Term\<rparr>)
     Sigint (interrupted_start ws)"
  by (simp add: on_signal_def process_create_def interrupted_start_def)

lemma interrupted_reachable: "reachable pe ws (interrupted_start ws)"
  by (rule reachable_step [OF scope_entered signal_arrives])

lemma interrupted_simps [simp]:
  "\<not> pr_running (interrupted_start ws)" "\<not> pr_thrown (interrupted_start ws)"
  by (simp_all add: interrupted_start_def process_create_def)


text \<open>One of two threads has been started.\<close>

definition first_started ::
    "('g, 'd, 's, bool \<times> 'k) worker \<Rightarrow> ('g, 'd, 's, bool \<times> 'k) worker \<Rightarrow> ('g, 'd, 's, 'k) process" where
  "first_started v w = (process_create [v, w])\<lparr>pr_flag_pointer := True, pr_on_int := True, pr_on_term := True,
     pr_barrier := Some 2,
     pr_threads := [\<lparr>th_pc = Arriving, th_in_flight = 0, th_worker = v\<rparr>,
                    \<lparr>th_pc = Unstarted, th_in_flight = 0, th_worker = w\<rparr>],
     pr_main := Starting 1\<rparr>"

lemma first_started_reachable: "reachable pe [v, w] (first_started v w)"
proof -
  let ?p = "(process_create [v, w])\<lparr>pr_flag_pointer := True, pr_on_int := True, pr_on_term := True,
     pr_barrier := Some 2, pr_main := Starting 0\<rparr>"
  have "process_step pe ((process_create [v, w])\<lparr>pr_flag_pointer := True, pr_on_int := True, pr_main := Install_Term\<rparr>)
      Main ?p" by (simp add: main_step_defs process_create_def)
  from reachable_step [OF scope_entered this] have r: "reachable pe [v, w] ?p" .
  have "process_step pe ?p Main (first_started v w)"
    by (simp add: main_step_defs process_create_def first_started_def set_pc_def)
  from reachable_step [OF r this] show ?thesis .
qed

section \<open>Witnesses\<close>

theorem start_together_witness:
  "\<exists>w. let p = first_started w w in
     reachable demo_process_env [w, w] p \<and> map th_worker (pr_threads p) = [w, w] \<and> pr_barrier p \<noteq> None"
proof -
  obtain w where "constructed demo_process_env (\<lambda>_. blocking_rep) [w, w]" using demo_constructed by blast
  have r: "reachable demo_process_env [w, w] (first_started w w)" by (rule first_started_reachable)
  have "th_pc (pr_threads (first_started w w) ! 0) = Arriving" "\<not> pr_thrown (first_started w w)"
    by (simp_all add: first_started_def process_create_def)
  then show ?thesis using start_together [OF r, of 0] r by (intro exI [of _ w]) (simp add: Let_def)
qed

lemma demo_exits:
  assumes "constructed demo_process_env (\<lambda>_. blocking_rep) [w, w]"
  shows "\<exists>bs p. process_run demo_process_env (interrupted_start [w, w]) bs p \<and>
    reachable demo_process_env [w, w] p \<and> pr_main p = Exited \<and> \<not> pr_thrown p"
  using run_completes [OF interrupted_reachable assms demo_engine] reachable_run [OF _ interrupted_reachable]
  by (metis interrupted_simps)


theorem results_final_witness:
  "\<exists>w p vs. reachable demo_process_env [w, w] p \<and> pr_main p = Exited \<and> pr_views p = Some vs \<and> length vs = 2 \<and>
     vs = map (view_of \<circ> th_worker) (pr_threads p)"
proof -
  obtain w where w: "constructed demo_process_env (\<lambda>_. blocking_rep) [w, w]" using demo_constructed by blast
  from demo_exits [OF w] obtain p where p: "reachable demo_process_env [w, w] p" "pr_main p = Exited" "\<not> pr_thrown p"
    by blast
  then obtain vs where "pr_views p = Some vs" using results_final [OF p(1) process_run.nil] by blast
  moreover from this have "vs = map (view_of \<circ> th_worker) (pr_threads p)" "length vs = 2"
    using results_final [OF p(1) process_run.nil] by auto
  ultimately show ?thesis using p by blast
qed

lemma signal_stops_run_example:
  "\<exists>w. process_step demo_process_env
       ((process_create [w, w])\<lparr>pr_flag_pointer := True, pr_on_int := True, pr_main := Install_Term\<rparr>)
       Sigint (interrupted_start [w, w]) \<and> \<not> pr_running (interrupted_start [w, w])"
proof -
  obtain w where "constructed demo_process_env (\<lambda>_. blocking_rep) [w, w]" using demo_constructed by blast
  have "\<not> pr_running (interrupted_start [w, w])"
    using signal_stops_run [OF scope_entered [of demo_process_env "[w, w]"] signal_arrives process_run.nil] by simp
  with signal_arrives [of demo_process_env "[w, w]"] show ?thesis by (intro exI [of _ w]) blast
qed

theorem stop_ends_run_witness:
  "\<exists>w bs p. reachable demo_process_env [w, w] (interrupted_start [w, w]) \<and>
     process_run demo_process_env (interrupted_start [w, w]) bs p \<and>
     length (filter (\<lambda>a. \<not> is_signal a) bs) \<le> process_rank (interrupted_start [w, w]) \<and>
     pr_main p = Exited \<and> list_all (\<lambda>t. th_pc t = Ended) (pr_threads p)"
proof -
  obtain w where w: "constructed demo_process_env (\<lambda>_. blocking_rep) [w, w]" using demo_constructed by blast
  have n: "process_run pe p bs p' \<Longrightarrow> \<not> pr_thrown p' \<Longrightarrow> Main_Exception \<notin> set bs"
    for pe and p p' :: "(unit, unit, nat blocking_state, nat) process" and bs
  proof (induction rule: process_run.induct)
    case (snoc p bs p' a p'')
    from snoc.hyps(2) show ?case
      using snoc by (cases rule: process_step.cases)
        (auto simp: worker_frame(2) sampler_frame(2) main_frame(4) throws_frame(9))
  qed simp
  from demo_exits [OF w] obtain bs p where p: "process_run demo_process_env (interrupted_start [w, w]) bs p"
    "pr_main p = Exited" "\<not> pr_thrown p" by blast
  from stop_ends_run [OF interrupted_reachable w demo_engine _ _ p(1) n [OF p(1,3)]] p interrupted_reachable
  show ?thesis by (intro exI [of _ w] exI [of _ bs] exI [of _ p]) (auto simp: list_all_iff)
qed



text \<open>Two ticks of the sampling thread before the workers start.\<close>

definition sampled_twice :: "('g, 'd, 's, bool \<times> 'k) worker list \<Rightarrow> ('g, 'd, 's, 'k) process" where
  "sampled_twice ws = (process_create ws)\<lparr>pr_samples := [map view_of ws, map view_of ws]\<rparr>"

lemma sampled_twice_reachable: "reachable pe ws (sampled_twice ws)"
proof -
  let ?p0 = "process_create ws" and ?v = "map view_of ws"
  let ?p1 = "?p0\<lparr>pr_sampler := Sampler_Waits\<rparr>" and ?p2 = "?p0\<lparr>pr_samples := [?v]\<rparr>"
  let ?p3 = "?p0\<lparr>pr_samples := [?v], pr_sampler := Sampler_Waits\<rparr>"
  have "process_step pe ?p0 Sampler ?p1" by (simp add: sampler_step_def process_create_def)
  from reachable_step [OF reachable_create this] have r1: "reachable pe ws ?p1" .
  have "process_step pe ?p1 Sampler ?p2" by (simp add: sampler_step_def process_create_def comp_def)
  from reachable_step [OF r1 this] have r2: "reachable pe ws ?p2" .
  have "process_step pe ?p2 Sampler ?p3" by (simp add: sampler_step_def process_create_def)
  from reachable_step [OF r2 this] have r3: "reachable pe ws ?p3" .
  have "process_step pe ?p3 Sampler (sampled_twice ws)"
    by (simp add: sampler_step_def process_create_def sampled_twice_def comp_def)
  from reachable_step [OF r3 this] show ?thesis .
qed


end
