(* ===== verification/Command_Line.thy ===== *)
theory Command_Line
  imports Qt_App_Runner
begin

text \<open>
  The command line of \<open>main\<close> (\<open>src/main.cpp\<close>): the options and flags it declares, with their checks, and
  \<open>main\<close> as a whole. The command line library is a parameter that is given the declarations and
  answers with an exit code or with the values it stored in the bound variables.
\<close>

section \<open>The declarations\<close>

datatype cli_check = Existing_File | Positive_Number | Is_Member "string list"

record cli_declaration =
  cd_name :: string
  cd_is_flag :: bool
  cd_required :: bool
  cd_default :: "string option"
  cd_checks :: "cli_check list"
  cd_excludes :: "string list"

definition cli_option :: "string \<Rightarrow> cli_declaration" where
  "cli_option name = \<lparr>cd_name = name, cd_is_flag = False, cd_required = False, cd_default = None,
     cd_checks = [], cd_excludes = []\<rparr>"

definition cli_flag :: "string \<Rightarrow> cli_declaration" where
  "cli_flag name = (cli_option name)\<lparr>cd_is_flag := True\<rparr>"

definition cli_declarations :: "cli_declaration list" where
  "cli_declarations =
     [(cli_option ''--config'')\<lparr>cd_required := True, cd_checks := [Existing_File]\<rparr>,
      (cli_option ''--runtime'')\<lparr>cd_default := Some ''10'', cd_checks := [Positive_Number]\<rparr>,
      cli_option ''--output-dir'',
      (cli_option ''--ui'')\<lparr>cd_default := Some ''terminal'',
         cd_checks := [Is_Member [''terminal'', ''tui'', ''qt'']]\<rparr>,
      (cli_flag ''--direct'')\<lparr>cd_excludes := [''--no-direct'']\<rparr>,
      (cli_flag ''--no-direct'')\<lparr>cd_excludes := [''--direct'']\<rparr>,
      (cli_option ''--engine'')\<lparr>cd_checks := [Is_Member known_engines]\<rparr>,
      cli_flag ''--verbose'',
      cli_flag ''--keep-files'']"

text \<open>What the library stored: the bound members of \<open>opts\<close>, the two flags, and \<open>--engine\<close> when it was given.\<close>

record cli_values =
  cv_config :: string
  cv_runtime :: int
  cv_output_dir :: string
  cv_ui :: string
  cv_direct :: bool
  cv_no_direct :: bool
  cv_engine :: "string option"
  cv_verbose :: bool
  cv_keep_files :: bool

definition cli_opts :: "cli_values \<Rightarrow> cli_options" where
  "cli_opts v = \<lparr>opt_config_path = cv_config v, opt_runtime_seconds = cv_runtime v,
     opt_output_dir = cv_output_dir v, opt_ui_backend = cv_ui v, opt_direct_override = None,
     opt_engine_override = None, opt_verbose = cv_verbose v, opt_keep_files = cv_keep_files v\<rparr>"

text \<open>\<open>main\<close>: on a parse error, and for \<open>--help\<close>, \<open>CLI11_PARSE\<close> returns the code of the library.\<close>

definition main_args ::
    "(cli_declaration list \<Rightarrow> string list \<Rightarrow> int + cli_values) \<Rightarrow> 'w orch_env \<Rightarrow> 'j json_api \<Rightarrow>
     (string \<Rightarrow> string option) \<Rightarrow> 'r csv_api \<Rightarrow>
     (cli_options \<Rightarrow> job_config list \<Rightarrow> (logger \<times> 'w, int) prog) option \<Rightarrow> string list \<Rightarrow>
     (logger \<times> 'w, int) prog" where
  "main_args parse env japi files capi qt_gui argv =
     (case parse cli_declarations argv of
        Inl code \<Rightarrow> returnP code
      | Inr v \<Rightarrow> main_after_parse env japi files capi qt_gui (cv_direct v) (cv_no_direct v) (cv_engine v) (cli_opts v))"

section \<open>What the library promises\<close>

text \<open>
  The documented behaviour of \<open>CLI11\<close>: a value that was stored passed the checks of its option, a
  required option was given, and of two options that exclude each other at most one was.
\<close>

datatype cli_value = Text string | Number int | Switch bool

fun stored_value :: "cli_values \<Rightarrow> string \<Rightarrow> cli_value option" where
  "stored_value v name =
     (if name = ''--config'' then Some (Text (cv_config v))
      else if name = ''--runtime'' then Some (Number (cv_runtime v))
      else if name = ''--output-dir'' then Some (Text (cv_output_dir v))
      else if name = ''--ui'' then Some (Text (cv_ui v))
      else if name = ''--direct'' then Some (Switch (cv_direct v))
      else if name = ''--no-direct'' then Some (Switch (cv_no_direct v))
      else if name = ''--engine'' then map_option Text (cv_engine v)
      else if name = ''--verbose'' then Some (Switch (cv_verbose v))
      else if name = ''--keep-files'' then Some (Switch (cv_keep_files v))
      else None)"

fun check_passes :: "(string \<Rightarrow> bool) \<Rightarrow> cli_check \<Rightarrow> cli_value \<Rightarrow> bool" where
  "check_passes exists Existing_File (Text s) = exists s"
| "check_passes exists Positive_Number (Number n) = (n > 0)"
| "check_passes exists (Is_Member xs) (Text s) = (s \<in> set xs)"
| "check_passes exists _ _ = False"

definition cli_conforms ::
    "(string \<Rightarrow> bool) \<Rightarrow> (cli_declaration list \<Rightarrow> string list \<Rightarrow> int + cli_values) \<Rightarrow> bool" where
  "cli_conforms exists parse \<longleftrightarrow> (\<forall>ds argv v. parse ds argv = Inr v \<longrightarrow>
     (\<forall>d \<in> set ds.
        (\<forall>c \<in> set (cd_checks d). \<forall>x. stored_value v (cd_name d) = Some x \<longrightarrow> check_passes exists c x) \<and>
        (\<forall>n \<in> set (cd_excludes d). \<not> (stored_value v (cd_name d) = Some (Switch True) \<and> stored_value v n = Some (Switch True)))))"

lemma accepted_values:
  assumes "cli_conforms exists parse" "parse cli_declarations argv = Inr v"
  shows "exists (cv_config v)" "0 < cv_runtime v" "cv_ui v \<in> {''terminal'', ''tui'', ''qt''}"
    "\<not> (cv_direct v \<and> cv_no_direct v)" "\<And>e. cv_engine v = Some e \<Longrightarrow> e \<in> set known_engines"
proof -
  have d: "\<forall>d \<in> set cli_declarations.
        (\<forall>c \<in> set (cd_checks d). \<forall>x. stored_value v (cd_name d) = Some x \<longrightarrow> check_passes exists c x) \<and>
        (\<forall>n \<in> set (cd_excludes d). \<not> (stored_value v (cd_name d) = Some (Switch True) \<and> stored_value v n = Some (Switch True)))"
    using assms unfolding cli_conforms_def by blast
  then show "exists (cv_config v)" "0 < cv_runtime v" "cv_ui v \<in> {''terminal'', ''tui'', ''qt''}"
    "\<not> (cv_direct v \<and> cv_no_direct v)" "\<And>e. cv_engine v = Some e \<Longrightarrow> e \<in> set known_engines"
    by (auto simp: cli_declarations_def cli_option_def cli_flag_def)
qed


text \<open>A library that accepts one command line.\<close>

lemma cli_conforms_example:
  "cli_conforms (\<lambda>s. s = ''jobs.json'') (\<lambda>ds argv.
     if ds = cli_declarations \<and> argv = [''--config'', ''jobs.json'', ''--engine'', ''sync'']
     then Inr \<lparr>cv_config = ''jobs.json'', cv_runtime = 10, cv_output_dir = [], cv_ui = ''terminal'', cv_direct = False,
       cv_no_direct = False, cv_engine = Some ''sync'', cv_verbose = False, cv_keep_files = False\<rparr>
     else Inl 106)"
  by (auto simp: cli_conforms_def cli_declarations_def cli_option_def cli_flag_def known_engines_def)

section \<open>What it means for a run\<close>

text \<open>
  On an accepted command line the run lasts a positive time, the display is one the factory knows of,
  and every job that is loaded has a known engine, with both overrides as given: of the two flags
  for \<open>O_DIRECT\<close> at most one is set, so their order in \<open>main\<close> does not matter.
\<close>

lemma command_line_safe:
  assumes "cli_conforms exists parse" "parse cli_declarations argv = Inr v"
    and "opts = set_overrides (cv_direct v) (cv_no_direct v) (cv_engine v) (cli_opts v)"
    and "main_load japi files capi opts = Inr jobs"
  shows "0 < opt_runtime_seconds opts"
    and "display_create registry terminal (opt_ui_backend opts) cx \<noteq>
      Inl (RuntimeError (''unknown display backend '' @ sq (opt_ui_backend opts)))"
    and "\<forall>job \<in> set jobs. jc_engine job \<in> set known_engines \<and>
      (\<forall>e. cv_engine v = Some e \<longrightarrow> jc_engine job = e) \<and>
      (cv_direct v \<longrightarrow> jc_direct job) \<and> (cv_no_direct v \<longrightarrow> \<not> jc_direct job)"
proof -
  note a = accepted_values [OF assms(1,2)]
  have f: "opt_runtime_seconds opts = cv_runtime v" "opt_ui_backend opts = cv_ui v"
    "opt_engine_override opts = cv_engine v"
    "opt_direct_override opts = (if cv_direct v then Some True else if cv_no_direct v then Some False else None)"
    by (simp_all add: assms(3) set_overrides_def cli_opts_def Let_def split: option.split)
  show "0 < opt_runtime_seconds opts" using a(2) f(1) by simp
  show "display_create registry terminal (opt_ui_backend opts) cx \<noteq>
      Inl (RuntimeError (''unknown display backend '' @ sq (opt_ui_backend opts)))"
    using a(3) f(2) by (auto simp: display_create_def sq_def split: option.split)
  have "runnable_jobs opts jobs" using main_load_runs [OF assms(4)] .
  then show "\<forall>job \<in> set jobs. jc_engine job \<in> set known_engines \<and>
      (\<forall>e. cv_engine v = Some e \<longrightarrow> jc_engine job = e) \<and>
      (cv_direct v \<longrightarrow> jc_direct job) \<and> (cv_no_direct v \<longrightarrow> \<not> jc_direct job)"
    using a(4) f(3,4)
    by (auto simp: runnable_jobs_def overridden_def valid_job_def list_all_iff)
qed

end
