(* ===== verification/Spec2Isabelle.thy ===== *)
theory Spec2Isabelle
  imports Gui_Example Process_Example Command_Line
begin

text \<open>
  \<open>cfio\<close> (C-FIO, custom flexible IO tester) is a storage benchmark in C++. This is the root of its
  verification library; all paths are below \<open>src/src/\<close>.

  The program. \<open>main\<close> reads the command line, loads and validates jobs from a JSON or CSV file, and
  runs them: the orchestrator prepares the test files, creates one worker for each job with an IO
  engine, a pool of aligned buffers and generators of offsets and directions, starts all of them
  together, shows the samples of the metrics aggregator on a display, stops after the configured
  time or on a request, and exports and cleans up. Workers, the aggregator's sampler, the signal
  handler and the GUI are concurrent; they meet in atomic counters, a run flag and a mailbox.

  The theories, with the code they model:
  \<^item> \<open>Prelude\<close>: machine integers, exceptions as values (\<open>exn\<close>, \<open>result\<close>), programs on a state that may
    throw or not return (\<open>prog\<close>), the text functions of the C++ library, shared lemmas.
  \<^item> \<open>Float64\<close>: binary64 arithmetic as rationals with the rounding \<open>fl\<close> to nearest, ties to even.
  \<^item> \<open>Common_Types\<close> (\<open>common/\<close>), \<open>Size_Parser\<close>, \<open>Job_Config\<close>, \<open>Config_Validator\<close>, \<open>Config_Parsers\<close> (\<open>config/\<close>
    and the loading in \<open>main.cpp\<close>): from text to jobs that can run.
  \<^item> \<open>Histogram\<close>, \<open>Buffer_Pool\<close>, \<open>Workload\<close>, \<open>Worker_Thread\<close>, \<open>Metrics_Aggregator\<close> (\<open>telemetry/\<close>).
  \<^item> \<open>Engine_Api\<close>, \<open>Blocking_Engines\<close>, \<open>Io_Uring_Engine\<close>, \<open>Libaio_Engine\<close>, \<open>Engines\<close> (\<open>engine/\<close>).
  \<^item> \<open>Logger\<close> (\<open>logging/\<close>), \<open>Results_Exporter\<close> (\<open>reporting/\<close>).
  \<^item> \<open>Display\<close>, \<open>Metric_Format\<close>, \<open>Terminal_Display\<close> (\<open>display/\<close>), \<open>Run_Mailbox\<close>, \<open>Job_Table\<close>, \<open>Job_Table_Widget\<close>,
    \<open>Chart_Geometry\<close>, \<open>Graph_Widget\<close>, \<open>Main_Window\<close>, \<open>Qt_App_Runner\<close> (\<open>display/qt/\<close>).
  \<^item> \<open>File_Preparator\<close>, \<open>Orchestrator\<close> (\<open>orchestrator/\<close> and the rest of \<open>main.cpp\<close>), with the results on whole
    runs in \<open>Orchestrator_Run\<close>, \<open>Run_Loop\<close>, \<open>Run_Files\<close> and concrete runs in \<open>Run_Example\<close> and \<open>Gui_Example\<close>.
  \<^item> \<open>Thread_Steps\<close> and \<open>Thread_Invariant\<close>: the thread of a worker (\<open>telemetry/worker_thread.cpp\<close>) cut at its accesses
    to \<open>g_running_\<close>. \<open>Run_Process\<close>: the process during \<open>RunBenchmark\<close>, with one transition function for each of the
    main thread (\<open>main_step\<close>, \<open>main_throws\<close>), the workers behind the start barrier (\<open>worker_step\<close>), the sampling
    thread (\<open>sampler_step\<close>) and the signal handler (\<open>on_signal\<close>); \<open>process_step\<close> interleaves them.
    \<open>Run_Invariants\<close>, \<open>Run_Correct\<close>, \<open>Run_Samples\<close> and \<open>Run_Liveness\<close> prove its properties, and \<open>Process_Example\<close>
    has concrete runs.
  \<^item> \<open>Command_Line\<close>: the options that \<open>main.cpp\<close> declares, with their checks, and \<open>main\<close> as a whole.

  How the model is built. A class is a record of its members and a definition for every member
  function, with the source's names; a thrown exception is \<open>Inl\<close>; undefined behaviour, a failed debug
  assertion and a call that does not return are values of their own, never excluded by assumption.
  \<open>size_t\<close> and \<open>uint64_t\<close> are 64-bit words. A \<open>double\<close> is the rational it stands for. System calls,
  libraries and other threads are fields of a record of functions on a world \<open>'w\<close>, an argument of the
  definitions that use it.

  What the lemmas show, in groups:
  \<^item> Loading: exact acceptance of sizes and jobs, the overrides, errors that \<open>main\<close> catches.
  \<^item> One worker: every request is accounted for exactly once and returns its buffer slot, over the
    contract of an engine (locale \<open>io_engine\<close>, with \<open>prompt_engine\<close> for the blocking ones) that the
    four engines are shown to keep; slots are handed out by the contract \<open>slot_allocator\<close>, latencies
    kept by \<open>sample_store\<close>.
  \<^item> Metrics: percentiles against the nearest rank, rates within rounding, the ring of samples.
  \<^item> A run: exit codes, termination, what happens to files and to the display on every way out.
  \<^item> A run as a process, over every interleaving: the common start, the accounts of the workers, samples
    as stages of one log, results that are final when they are read, the bounded and deadlock-free end
    once the run flag is cleared, and the start of a thread that fails, after which the process hangs.
    The pieces of a thread, undisturbed, are shown to be the sequential model of the worker.
  \<^item> Displays: the contract \<open>display_backend\<close>, kept by the terminal and by the GUI's backend; what they
    write; the GUI beside the benchmark thread in every interleaving of whole critical sections, and
    the agreement of what it shows at the end with the exit code of the run.
    \<open>config_parser\<close> is the contract of the two parsers.

  Loops whose end depends on the world (\<open>retry_on_eintr\<close>, the loops of the worker, the sleeps and the
  run loop) are \<open>partial_function\<close>s, without fuel: \<open>None\<close> means that they do not return, and that they return
  is proved from contracts of the world. Those are \<open>steady_world\<close> (time passes with sleeping, the
  display's updates return), \<open>world_answers\<close> (threads can be joined, files and display answer),
  \<open>posix_files\<close> (the descriptor table and the content of files) and \<open>file_nodes\<close> (which calls create and
  delete names); \<open>Run_Example\<close> has a world that keeps all of them. \<open>powers_of_ten\<close> says that \<open>pow(10, e)\<close> is
  a positive double. \<open>protocol\<close> is the order in which the benchmark thread publishes, which every run
  with the GUI is shown to keep (\<open>gui_run_reports\<close>) when nothing else publishes (\<open>calm_world\<close>,
  \<open>traced_host\<close>); \<open>Gui_Example\<close> has such a world. In the process, \<open>constructed\<close> says that every worker comes from its
  constructor over an engine that keeps its contract, \<open>answers\<close> that the calls behind an engine
  return; \<open>process_rank\<close> counts the steps that are left. \<open>cli_conforms\<close> is what the command line library
  documents of its checks.

  Not modelled. Log calls, except for where a missing logger throws. The calendar behind
  \<open>FormatIso8601Utc\<close> and \<open>LocalTimestamp\<close> (\<open>gmtime_r\<close>, \<open>localtime_r\<close> and \<open>strftime\<close> are parameters). Layout, sizes and
  painting by the Qt library itself. The placeholder interface of an SPDK engine, which nothing
  implements. The memory model below atomic accesses: a piece of a thread, from one access to the run
  flag to the next, is one step, and a sample reads the workers between pieces. The timer of the run is
  in \<open>Run_Loop\<close>; in the process the main thread may leave the timer loop at any time. A signal that
  arrives outside the signal scope has its default effect and ends the process.
\<close>

end
